(* ===== verification/Base.thy ===== *)
theory Base
  imports Main "HOL-Library.List_Lexorder" "HOL-Library.Char_ord" "HOL-Library.Product_Lexorder"
begin

text \<open>
  Shared vocabulary of the development.

  \<^item> Strings are the byte sequences of Rust strings (\<open>string\<close> = \<open>char list\<close>, one \<open>char\<close> per
    UTF-8 byte). \<open>List_Lexorder\<close> and \<open>Char_ord\<close> give the byte-wise lexicographic order that
    \<open>str: Ord\<close> has, and \<open>Product_Lexorder\<close> the order of tuples.
  \<^item> The standard-library string operations that the modelled code calls
    (\<open>trim\<close>, \<open>lines\<close>, \<open>split\<close>, \<open>parse::<u64>\<close>, \<open>to_ascii_lowercase\<close>, ...).
  \<^item> \<open>BTreeMap\<close>s with an observable iteration order, as key-sorted association lists.
  \<^item> The interfaces (locales) that several components satisfy.
\<close>

named_theorems string_defs \<open>definitions of the string operations, for evaluation\<close>
named_theorems inv_intros \<open>invariant preservation facts\<close>

lemma find_SomeD: "find P xs = Some x \<Longrightarrow> x \<in> set xs \<and> P x"
  by (auto simp: find_Some_iff)

subsection \<open>ASCII classes\<close>

definition is_ascii_digit :: "char \<Rightarrow> bool" where [string_defs]:
  "is_ascii_digit c \<longleftrightarrow> 48 \<le> (of_char c :: nat) \<and> (of_char c :: nat) \<le> 57"

definition is_ascii_lowercase :: "char \<Rightarrow> bool" where [string_defs]:
  "is_ascii_lowercase c \<longleftrightarrow> 97 \<le> (of_char c :: nat) \<and> (of_char c :: nat) \<le> 122"

definition is_ascii_uppercase :: "char \<Rightarrow> bool" where [string_defs]:
  "is_ascii_uppercase c \<longleftrightarrow> 65 \<le> (of_char c :: nat) \<and> (of_char c :: nat) \<le> 90"

definition is_ascii_alphanumeric :: "char \<Rightarrow> bool" where [string_defs]:
  "is_ascii_alphanumeric c \<longleftrightarrow> is_ascii_digit c \<or> is_ascii_lowercase c \<or> is_ascii_uppercase c"

definition ascii_lower :: "char \<Rightarrow> char" where [string_defs]:
  "ascii_lower c = (if is_ascii_uppercase c then char_of ((of_char c :: nat) + 32) else c)"

definition to_ascii_lowercase :: "string \<Rightarrow> string" where [string_defs]:
  "to_ascii_lowercase s = map ascii_lower s"

definition eq_ignore_ascii_case :: "string \<Rightarrow> string \<Rightarrow> bool" where [string_defs]:
  "eq_ignore_ascii_case s t \<longleftrightarrow> to_ascii_lowercase s = to_ascii_lowercase t"

lemma ascii_lower_not_upper: "\<not> is_ascii_uppercase (ascii_lower c)"
  by (auto simp: ascii_lower_def is_ascii_uppercase_def)

lemma ascii_lower_idem [simp]: "ascii_lower (ascii_lower c) = ascii_lower c"
  using ascii_lower_not_upper[of c] by (simp add: ascii_lower_def)

lemma to_ascii_lowercase_idem [simp]:
  "to_ascii_lowercase (to_ascii_lowercase s) = to_ascii_lowercase s"
  by (simp add: to_ascii_lowercase_def)

subsection \<open>Whitespace and trimming\<close>

text \<open>The code points with the Unicode property \<open>White_Space\<close>, in UTF-8.\<close>

definition white_space :: "string list" where
  "white_space =
     [[CHR 9], [CHR 10], [CHR 11], [CHR 12], [CHR 13], [CHR 32],
      [CHR 0xC2, CHR 0x85], [CHR 0xC2, CHR 0xA0], [CHR 0xE1, CHR 0x9A, CHR 0x80],
      [CHR 0xE2, CHR 0x80, CHR 0x80], [CHR 0xE2, CHR 0x80, CHR 0x81],
      [CHR 0xE2, CHR 0x80, CHR 0x82], [CHR 0xE2, CHR 0x80, CHR 0x83],
      [CHR 0xE2, CHR 0x80, CHR 0x84], [CHR 0xE2, CHR 0x80, CHR 0x85],
      [CHR 0xE2, CHR 0x80, CHR 0x86], [CHR 0xE2, CHR 0x80, CHR 0x87],
      [CHR 0xE2, CHR 0x80, CHR 0x88], [CHR 0xE2, CHR 0x80, CHR 0x89],
      [CHR 0xE2, CHR 0x80, CHR 0x8A], [CHR 0xE2, CHR 0x80, CHR 0xA8],
      [CHR 0xE2, CHR 0x80, CHR 0xA9], [CHR 0xE2, CHR 0x80, CHR 0xAF],
      [CHR 0xE2, CHR 0x81, CHR 0x9F], [CHR 0xE3, CHR 0x80, CHR 0x80]]"

definition starts_with :: "string \<Rightarrow> string \<Rightarrow> bool" where [string_defs]:
  "starts_with p s \<longleftrightarrow> take (length p) s = p"

lemma starts_with_code [code]:
  "starts_with [] s = True"
  "starts_with (x # p) [] = False"
  "starts_with (x # p) (y # s) = (if x = y then starts_with p s else False)"
  by (auto simp: starts_with_def)

definition ends_with :: "string \<Rightarrow> string \<Rightarrow> bool" where [string_defs]:
  "ends_with p s \<longleftrightarrow> starts_with (rev p) (rev s)"

definition strip_prefix :: "string \<Rightarrow> string \<Rightarrow> string option" where [string_defs]:
  "strip_prefix p s = (if starts_with p s then Some (drop (length p) s) else None)"

text \<open>\<open>drop_while_prefix ps s\<close> removes words of \<open>ps\<close> from the front of \<open>s\<close> for as long as one
  matches; the empty word never matches, so every turn makes the string shorter.\<close>

lemma take_eq_self_length: "take (length p) s = p \<Longrightarrow> p \<noteq> [] \<Longrightarrow> length s - length p < length s"
  by (cases s) auto

function drop_prefixes :: "string list \<Rightarrow> string \<Rightarrow> string" where
  "drop_prefixes ps s =
     (case find (\<lambda>p. p \<noteq> [] \<and> starts_with p s) ps of
        None \<Rightarrow> s
      | Some p \<Rightarrow> drop_prefixes ps (drop (length p) s))"
  by pat_completeness auto
termination
  by (relation "measure (\<lambda>(ps, s). length s)")
    (auto simp: find_Some_iff starts_with_def dest: take_eq_self_length)

declare drop_prefixes.simps [simp del]

definition trim_start :: "string \<Rightarrow> string" where [string_defs]:
  "trim_start s = drop_prefixes white_space s"

definition trim_end :: "string \<Rightarrow> string" where [string_defs]:
  "trim_end s = rev (drop_prefixes (map rev white_space) (rev s))"

definition trim :: "string \<Rightarrow> string" where [string_defs]:
  "trim s = trim_end (trim_start s)"

text \<open>\<open>trim_start_matches\<close> and \<open>trim_end_matches\<close> with a string or a character set.\<close>

definition trim_start_matches :: "string \<Rightarrow> string \<Rightarrow> string" where [string_defs]:
  "trim_start_matches p s = drop_prefixes [p] s"

definition trim_end_chars :: "(char \<Rightarrow> bool) \<Rightarrow> string \<Rightarrow> string" where [string_defs]:
  "trim_end_chars P s = rev (dropWhile P (rev s))"

definition trim_chars :: "(char \<Rightarrow> bool) \<Rightarrow> string \<Rightarrow> string" where [string_defs]:
  "trim_chars P s = trim_end_chars P (dropWhile P s)"

lemma drop_prefixes_stop:
  assumes "\<forall>p \<in> set ps. p \<noteq> [] \<longrightarrow> \<not> starts_with p s"
  shows "drop_prefixes ps s = s"
proof -
  from assms have "find (\<lambda>p. p \<noteq> [] \<and> starts_with p s) ps = None"
    by (auto simp: find_None_iff)
  then show ?thesis by (subst drop_prefixes.simps) simp
qed

lemma drop_prefixes_done:
  "p \<in> set ps \<Longrightarrow> p \<noteq> [] \<Longrightarrow> \<not> starts_with p (drop_prefixes ps s)"
proof (induction ps s rule: drop_prefixes.induct)
  case (1 ps s)
  show ?case
  proof (cases "find (\<lambda>p. p \<noteq> [] \<and> starts_with p s) ps")
    case None
    with "1.prems" have "\<not> starts_with p s" by (auto simp: find_None_iff)
    with None show ?thesis
      unfolding drop_prefixes.simps[of ps s] None by simp
  next
    case (Some q)
    with "1.IH"[OF Some "1.prems"] show ?thesis
      unfolding drop_prefixes.simps[of ps s] Some by simp
  qed
qed

lemma drop_prefixes_idem [simp]: "drop_prefixes ps (drop_prefixes ps s) = drop_prefixes ps s"
  by (rule drop_prefixes_stop) (auto dest: drop_prefixes_done)

lemma trim_end_idem [simp]: "trim_end (trim_end s) = trim_end s"
  by (simp add: trim_end_def)

lemma drop_prefixes_Nil:
  "drop_prefixes ps s = [] \<Longrightarrow> s \<noteq> [] \<Longrightarrow> \<exists>p \<in> set ps. p \<noteq> [] \<and> last s = last p"
proof (induction ps s rule: drop_prefixes.induct)
  case (1 ps s)
  show ?case
  proof (cases "find (\<lambda>p. p \<noteq> [] \<and> starts_with p s) ps")
    case None
    then have "drop_prefixes ps s = s" by (subst drop_prefixes.simps) simp
    with "1.prems" show ?thesis by simp
  next
    case (Some p)
    then have p: "p \<in> set ps" "p \<noteq> []" "s = p @ drop (length p) s"
      by (auto simp: find_Some_iff starts_with_def) (metis append_take_drop_id)
    show ?thesis
    proof (cases "drop (length p) s = []")
      case True
      with p show ?thesis by auto
    next
      case False
      from "1.prems"(1) Some have "drop_prefixes ps (drop (length p) s) = []"
        by (subst (asm) drop_prefixes.simps) simp
      from "1.IH"[OF Some this False] p False show ?thesis by (metis last_appendR)
    qed
  qed
qed

lemma drop_prefixes_clean:
  assumes "\<forall>p \<in> set ps. p \<noteq> [] \<longrightarrow> hd p \<notin> set s"
  shows "drop_prefixes ps s = s"
proof (rule drop_prefixes_stop, intro ballI impI notI)
  fix p assume p: "p \<in> set ps" "p \<noteq> []" "starts_with p s"
  then have "hd p \<in> set (take (length p) s)" by (simp add: starts_with_def)
  then have "hd p \<in> set s" by (meson in_set_takeD)
  with assms p show False by blast
qed

text \<open>Visible ASCII bytes: no white space contains one, so trimming keeps a word of them.\<close>

definition token_byte :: "char \<Rightarrow> bool" where
  "token_byte c \<longleftrightarrow> 33 \<le> (of_char c :: nat) \<and> (of_char c :: nat) < 127"

lemma token_byte_not_space: "token_byte c \<Longrightarrow> w \<in> set white_space \<Longrightarrow> c \<notin> set w"
proof -
  have "\<forall>w \<in> set white_space. \<forall>c \<in> set w. \<not> token_byte c" by code_simp
  then show "token_byte c \<Longrightarrow> w \<in> set white_space \<Longrightarrow> c \<notin> set w" by blast
qed

lemma trim_visible: "list_all token_byte s \<Longrightarrow> trim s = s"
proof -
  assume s: "list_all token_byte s"
  have "drop_prefixes white_space s = s"
  proof (rule drop_prefixes_clean, intro ballI impI notI)
    fix p assume "p \<in> set white_space" "p \<noteq> []" "hd p \<in> set s"
    with s token_byte_not_space[of "hd p" p] show False by (auto simp: list_all_iff)
  qed
  moreover have "drop_prefixes (map rev white_space) (rev s) = rev s"
  proof (rule drop_prefixes_clean, intro ballI impI notI)
    fix p assume p: "p \<in> set (map rev white_space)" "p \<noteq> []" "hd p \<in> set (rev s)"
    then obtain w where w: "w \<in> set white_space" "p = rev w" by auto
    with p have "hd p \<in> set w" by (metis hd_in_set set_rev)
    with s p(3) token_byte_not_space[of "hd p" w] w show False by (auto simp: list_all_iff)
  qed
  ultimately show ?thesis by (simp add: trim_def trim_start_def trim_end_def)
qed

text \<open>A string whose first byte starts no white space is not trimmed away.\<close>

lemma trim_end_nonempty:
  assumes "s \<noteq> []" and "\<forall>w \<in> set white_space. hd w \<noteq> hd s"
  shows "trim_end s \<noteq> []"
proof
  assume "trim_end s = []"
  then have "drop_prefixes (map rev white_space) (rev s) = []" by (simp add: trim_end_def)
  with assms(1) obtain p where "p \<in> set (map rev white_space)" "p \<noteq> []" "last (rev s) = last p"
    using drop_prefixes_Nil by blast
  with assms show False by (auto simp: last_rev)
qed

lemma starts_withE:
  assumes "starts_with p s"
  obtains r where "s = p @ r"
  using assms that[of "drop (length p) s"] by (metis append_take_drop_id starts_with_def)

subsection \<open>Splitting\<close>

text \<open>\<open>s.split(c)\<close>: the parts between the separators, at least one.\<close>

fun split_on :: "char \<Rightarrow> string \<Rightarrow> string list" where
  "split_on c [] = [[]]"
| "split_on c (x # xs) =
     (if x = c then [] # split_on c xs
      else (case split_on c xs of [] \<Rightarrow> [[x]] | p # ps \<Rightarrow> (x # p) # ps))"

fun join :: "string \<Rightarrow> string list \<Rightarrow> string" where
  "join sep [] = []"
| "join sep [x] = x"
| "join sep (x # y # zs) = x @ sep @ join sep (y # zs)"

definition split_once :: "char \<Rightarrow> string \<Rightarrow> (string \<times> string) option" where [string_defs]:
  "split_once c s =
     (if c \<in> set s then Some (takeWhile (\<lambda>x. x \<noteq> c) s, tl (dropWhile (\<lambda>x. x \<noteq> c) s)) else None)"

definition rsplit_once :: "char \<Rightarrow> string \<Rightarrow> (string \<times> string) option" where [string_defs]:
  "rsplit_once c s = map_option (\<lambda>(a, b). (rev b, rev a)) (split_once c (rev s))"

lemma split_on_nonempty [simp]: "split_on c s \<noteq> []"
  by (induction s) (auto split: list.splits)

lemma join_Cons: "join sep (x # ys) = (if ys = [] then x else x @ sep @ join sep ys)"
  by (cases ys) auto

lemma join_split_on: "join [c] (split_on c s) = s"
proof (induction s)
  case Nil
  then show ?case by simp
next
  case (Cons x xs)
  obtain p ps where "split_on c xs = p # ps"
    using split_on_nonempty by (meson neq_Nil_conv)
  with Cons show ?case by (simp add: join_Cons split: if_splits)
qed

lemma split_on_no_sep: "p \<in> set (split_on c s) \<Longrightarrow> c \<notin> set p"
  by (induction s arbitrary: p) (auto split: list.splits if_splits)

lemma split_on_single: "c \<notin> set s \<Longrightarrow> split_on c s = [s]"
  by (induction s) auto

lemma split_on_append:
  "c \<notin> set p \<Longrightarrow> split_on c (p @ c # s) = p # split_on c s"
  by (induction p) auto

lemma split_on_join:
  "ps \<noteq> [] \<Longrightarrow> (\<forall>p \<in> set ps. c \<notin> set p) \<Longrightarrow> split_on c (join [c] ps) = ps"
proof (induction ps)
  case Nil
  then show ?case by simp
next
  case (Cons p ps)
  then show ?case
    by (cases ps) (auto simp: split_on_single split_on_append)
qed

lemma split_once_append:
  "c \<notin> set p \<Longrightarrow> split_once c (p @ c # s) = Some (p, s)"
  by (simp add: split_once_def takeWhile_append dropWhile_append)

lemma split_once_Some:
  assumes "split_once c s = Some (a, b)"
  shows "s = a @ c # b \<and> c \<notin> set a"
proof -
  from assms have "c \<in> set s" and a: "a = takeWhile (\<lambda>x. x \<noteq> c) s"
    and b: "b = tl (dropWhile (\<lambda>x. x \<noteq> c) s)"
    by (auto simp: split_once_def split: if_splits)
  then have "dropWhile (\<lambda>x. x \<noteq> c) s = c # b"
    by (metis (mono_tags, lifting) dropWhile_eq_Nil_conv hd_Cons_tl hd_dropWhile)
  with a show ?thesis
    by (metis (mono_tags, lifting) set_takeWhileD takeWhile_dropWhile_id)
qed

text \<open>\<open>s.lines()\<close>: line feeds end lines, a carriage return before one is dropped, and a final
  line feed starts no further line.\<close>

definition strip_cr :: "string \<Rightarrow> string" where [string_defs]:
  "strip_cr l = (if l \<noteq> [] \<and> last l = CHR 13 then butlast l else l)"

definition lines :: "string \<Rightarrow> string list" where [string_defs]:
  "lines s =
     (let ps = split_on (CHR 10) s
      in map strip_cr (butlast ps) @ (if last ps = [] then [] else [last ps]))"

lemma lines_Nil [simp]: "lines [] = []"
  by (simp add: lines_def)

lemma lines_Cons: "CHR 10 \<notin> set p \<Longrightarrow> lines (p @ CHR 10 # s) = strip_cr p # lines s"
  by (simp add: lines_def split_on_append Let_def)

lemma strip_cr_subset: "set (strip_cr l) \<subseteq> set l"
  by (auto simp: strip_cr_def dest: in_set_butlastD)

lemma lines_no_newline: "l \<in> set (lines s) \<Longrightarrow> CHR 10 \<notin> set l"
proof -
  assume "l \<in> set (lines s)"
  then consider p where "p \<in> set (split_on (CHR 10) s)" "l = strip_cr p"
    | "l \<in> set (split_on (CHR 10) s)"
    by (auto simp: lines_def Let_def dest: in_set_butlastD split: if_splits)
  then show ?thesis using split_on_no_sep strip_cr_subset by cases blast+
qed

subsection \<open>Numbers\<close>

definition digit_value :: "char \<Rightarrow> nat" where [string_defs]:
  "digit_value c = of_char c - 48"

fun digits_value :: "nat \<Rightarrow> string \<Rightarrow> nat" where
  "digits_value acc [] = acc"
| "digits_value acc (c # cs) = digits_value (10 * acc + digit_value c) cs"

text \<open>\<open>s.parse::<u64>()\<close>: an optional plus sign, at least one decimal digit, no overflow.\<close>

definition parse_u64 :: "string \<Rightarrow> nat option" where [string_defs]:
  "parse_u64 s =
     (let d = (case s of [] \<Rightarrow> [] | c # r \<Rightarrow> if c = CHR ''+'' then r else s)
      in if d = [] \<or> \<not> list_all is_ascii_digit d then None
         else let n = digits_value 0 d in if n < 2 ^ 64 then Some n else None)"

definition digit_char :: "nat \<Rightarrow> char" where [string_defs]:
  "digit_char d = char_of (48 + d)"

fun show_nat :: "nat \<Rightarrow> string" where
  "show_nat n = (if n < 10 then [digit_char n] else show_nat (n div 10) @ [digit_char (n mod 10)])"

declare show_nat.simps [simp del]

lemma digits_value_append: "digits_value acc (xs @ ys) = digits_value (digits_value acc xs) ys"
  by (induction xs arbitrary: acc) auto

lemma digit_value_digit_char [simp]: "d < 10 \<Longrightarrow> digit_value (digit_char d) = d"
  by (simp add: digit_value_def digit_char_def)

lemma is_ascii_digit_digit_char [simp]: "d < 10 \<Longrightarrow> is_ascii_digit (digit_char d)"
  by (simp add: is_ascii_digit_def digit_char_def)

lemma show_nat_digits: "list_all is_ascii_digit (show_nat n)"
proof (induction n rule: show_nat.induct)
  case (1 n)
  then show ?case by (subst show_nat.simps) auto
qed

lemma show_nat_nonempty [simp]: "show_nat n \<noteq> []"
  by (subst show_nat.simps) auto

lemma digits_value_show_nat: "digits_value 0 (show_nat n) = n"
proof (induction n rule: show_nat.induct)
  case (1 n)
  then show ?case by (subst show_nat.simps) (auto simp: digits_value_append)
qed

lemma parse_u64_show_nat: "n < 2 ^ 64 \<Longrightarrow> parse_u64 (show_nat n) = Some n"
proof -
  assume n: "n < 2 ^ 64"
  obtain c r where cr: "show_nat n = c # r" by (cases "show_nat n") auto
  with show_nat_digits[of n] have "is_ascii_digit c" by simp
  then have "c \<noteq> CHR ''+''" by (auto simp: is_ascii_digit_def)
  with n cr show_nat_digits[of n] digits_value_show_nat[of n] show ?thesis
    by (simp add: parse_u64_def Let_def)
qed

lemma parse_u64_bound: "parse_u64 s = Some n \<Longrightarrow> n < 2 ^ 64"
  by (auto simp: parse_u64_def Let_def split: if_splits)


lemmas string_eval = string_defs white_space_def drop_prefixes.simps char_of_def

subsection \<open>Orderings and ordered maps\<close>

text \<open>\<open>std::cmp::Ordering\<close>.\<close>

datatype ordering = Less | Equal | Greater

definition cmp :: "'a::linorder \<Rightarrow> 'a \<Rightarrow> ordering" where
  "cmp a b = (if a < b then Less else if a = b then Equal else Greater)"

fun ordering_reverse :: "ordering \<Rightarrow> ordering" where
  "ordering_reverse Less = Greater"
| "ordering_reverse Equal = Equal"
| "ordering_reverse Greater = Less"

fun ordering_then :: "ordering \<Rightarrow> ordering \<Rightarrow> ordering" where
  "ordering_then Equal o2 = o2"
| "ordering_then o1 o2 = o1"

lemma cmp_simps [simp]:
  "cmp a b = Less \<longleftrightarrow> a < b" "cmp a b = Equal \<longleftrightarrow> a = b" "cmp a b = Greater \<longleftrightarrow> b < a"
  "Less = cmp a b \<longleftrightarrow> a < b" "Equal = cmp a b \<longleftrightarrow> a = b" "Greater = cmp a b \<longleftrightarrow> b < a"
  by (auto simp: cmp_def)

lemma cmp_reverse: "ordering_reverse (cmp a b) = cmp b a"
  by (auto simp: cmp_def)

text \<open>
  \<open>BTreeMap\<close>: an association list sorted by key. \<open>bt_insert\<close> overwrites, the list order is the
  iteration order, and equality of maps is equality of lists. Lookup is \<open>map_of\<close>.
  A \<open>BTreeSet\<close> that the code iterates is the sorted list of its elements.
\<close>

type_synonym ('k, 'v) btmap = "('k \<times> 'v) list"

fun bt_insert :: "'k::linorder \<Rightarrow> 'v \<Rightarrow> ('k, 'v) btmap \<Rightarrow> ('k, 'v) btmap" where
  "bt_insert k v [] = [(k, v)]"
| "bt_insert k v ((k', v') # m) =
     (if k < k' then (k, v) # (k', v') # m
      else if k = k' then (k, v) # m
      else (k', v') # bt_insert k v m)"

definition bt_wf :: "('k::linorder, 'v) btmap \<Rightarrow> bool" where
  "bt_wf m \<longleftrightarrow> sorted_wrt (<) (map fst m)"

definition bt_set :: "'a::linorder list \<Rightarrow> 'a list" where
  "bt_set xs = sort (remdups xs)"

lemma map_of_map_snd: "map_of (map (\<lambda>(k, v). (k, f v)) m) k = map_option f (map_of m k)"
  by (induction m) auto

lemma set_bt_set [simp]: "set (bt_set xs) = set xs"
  by (simp add: bt_set_def)

lemma distinct_bt_set [simp]: "distinct (bt_set xs)"
  by (simp add: bt_set_def)

lemma map_of_bt_insert [simp]: "map_of (bt_insert k v m) = (map_of m)(k \<mapsto> v)"
  by (induction m rule: bt_insert.induct) auto

lemma fst_set_bt_insert [simp]: "fst ` set (bt_insert k v m) = insert k (fst ` set m)"
  by (induction k v m rule: bt_insert.induct) (auto split: if_splits)

lemma bt_wf_Nil [simp]: "bt_wf []"
  by (simp add: bt_wf_def)

lemma bt_wf_insert [simp, intro]: "bt_wf m \<Longrightarrow> bt_wf (bt_insert k v m)"
proof (induction m)
  case Nil
  then show ?case by (simp add: bt_wf_def)
next
  case (Cons p m)
  obtain k' v' where p: "p = (k', v')" by (cases p)
  have keys: "set (map fst (bt_insert k v m)) = insert k (set (map fst m))" by simp
  from Cons p show ?case
    by (auto simp: bt_wf_def keys simp del: set_map)
qed

lemma bt_wf_distinct: "bt_wf m \<Longrightarrow> distinct (map fst m)"
  by (auto simp: bt_wf_def strict_sorted_iff)

lemma bt_insert_same: "bt_wf m \<Longrightarrow> map_of m k = Some v \<Longrightarrow> bt_insert k v m = m"
proof (induction m)
  case Nil
  then show ?case by simp
next
  case (Cons p m)
  obtain k' v' where p: "p = (k', v')" by (cases p)
  from Cons.prems(1) p have below: "\<forall>x \<in> set m. k' < fst x" and "bt_wf m"
    by (auto simp: bt_wf_def)
  show ?case
  proof (cases "k = k'")
    case True
    with Cons.prems(2) p show ?thesis by simp
  next
    case False
    with Cons.prems(2) p have "map_of m k = Some v" by simp
    moreover from this below have "k' < k" by (metis fst_conv map_of_SomeD)
    ultimately show ?thesis using p False Cons.IH[OF \<open>bt_wf m\<close>] by simp
  qed
qed

subsection \<open>Interfaces\<close>

text \<open>A key-value store: what a lookup returns after an insertion.\<close>

locale kv_store =
  fixes look :: "'m \<Rightarrow> 'k \<Rightarrow> 'v option"
    and put :: "'k \<Rightarrow> 'v \<Rightarrow> 'm \<Rightarrow> 'm"
  assumes look_put: "look (put k v m) = (look m)(k \<mapsto> v)"
begin

definition put_all :: "('k \<times> 'v) list \<Rightarrow> 'm \<Rightarrow> 'm" where
  "put_all kvs m = foldl (\<lambda>m (k, v). put k v m) m kvs"

lemma look_put_all: "look (put_all kvs m) = look m ++ map_of (rev kvs)"
  unfolding put_all_def
  by (induction kvs arbitrary: m) (auto simp: look_put map_add_def fun_eq_iff split: option.splits)

lemma look_put_all_distinct:
  "distinct (map fst kvs) \<Longrightarrow> (k, v) \<in> set kvs \<Longrightarrow> look (put_all kvs m) k = Some v"
  by (simp add: look_put_all map_add_def rev_map[symmetric] map_of_eq_Some_iff)

lemma look_put_all_other: "k \<notin> fst ` set kvs \<Longrightarrow> look (put_all kvs m) k = look m k"
  by (simp add: look_put_all map_add_dom_app_simps(3) dom_map_of_conv_image_fst)

end

interpretation btree: kv_store map_of bt_insert
  by unfold_locales simp

text \<open>A deterministic machine with an invariant, and one with a start state.\<close>

locale machine =
  fixes step :: "'s \<Rightarrow> 'e \<Rightarrow> 's"
    and inv :: "'s \<Rightarrow> bool"
  assumes step_inv: "inv s \<Longrightarrow> inv (step s e)"
begin

lemma run_inv: "inv s \<Longrightarrow> inv (foldl step s es)"
  by (induction es arbitrary: s) (auto intro: step_inv)

end

locale rooted_machine = machine +
  fixes start :: "'s"
  assumes start_inv: "inv start"
begin

lemma reach_inv: "inv (foldl step start es)"
  by (rule run_inv) (rule start_inv)

end

text \<open>
  Forward simulation: under a side condition on the inputs, a detailed machine keeps in step with an
  abstract one.
\<close>

locale simulation =
  fixes astep :: "'a \<Rightarrow> 'e \<Rightarrow> 'a"
    and cstep :: "'c \<Rightarrow> 'e \<Rightarrow> 'c"
    and rel :: "'a \<Rightarrow> 'c \<Rightarrow> bool"
    and enabled :: "'a \<Rightarrow> 'e \<Rightarrow> bool"
  assumes step_rel: "rel a c \<Longrightarrow> enabled a e \<Longrightarrow> rel (astep a e) (cstep c e)"
begin

fun trace_enabled :: "'a \<Rightarrow> 'e list \<Rightarrow> bool" where
  "trace_enabled a [] = True"
| "trace_enabled a (e # es) = (enabled a e \<and> trace_enabled (astep a e) es)"

lemma trace_enabled_append:
  "trace_enabled a (es @ fs) \<longleftrightarrow> trace_enabled a es \<and> trace_enabled (foldl astep a es) fs"
  by (induction es arbitrary: a) auto

lemma run_rel: "rel a c \<Longrightarrow> trace_enabled a es \<Longrightarrow> rel (foldl astep a es) (foldl cstep c es)"
  by (induction es arbitrary: a c) (auto intro: step_rel)

end

text \<open>
  A state that only some events leave: a run from it reaches a goal exactly when its first such
  event opens a run that does.
\<close>

lemma foldl_waits:
  assumes "\<And>e. \<not> leaves e \<Longrightarrow> step s e = s" and "\<not> goal s"
  shows "goal (foldl step s es) \<longleftrightarrow>
    (\<exists>b e c. es = b @ e # c \<and> list_all (\<lambda>x. \<not> leaves x) b \<and> leaves e \<and> goal (foldl step (step s e) c))"
proof (induction es)
  case Nil
  then show ?case using assms(2) by simp
next
  case (Cons x xs)
  show ?case
  proof (cases "leaves x")
    case True
    show ?thesis
    proof (intro iffI)
      assume "goal (foldl step s (x # xs))"
      with True show "\<exists>b e c. x # xs = b @ e # c \<and> list_all (\<lambda>x. \<not> leaves x) b \<and> leaves e \<and>
          goal (foldl step (step s e) c)"
        by (intro exI[of _ "[]"] exI[of _ x] exI[of _ xs]) simp
    next
      assume "\<exists>b e c. x # xs = b @ e # c \<and> list_all (\<lambda>x. \<not> leaves x) b \<and> leaves e \<and>
          goal (foldl step (step s e) c)"
      with True show "goal (foldl step s (x # xs))" by (auto simp: Cons_eq_append_conv)
    qed
  next
    case False
    then have "goal (foldl step s (x # xs)) \<longleftrightarrow> goal (foldl step s xs)" using assms(1) by simp
    note shift = this
    show ?thesis
    proof (intro iffI)
      assume "goal (foldl step s (x # xs))"
      then obtain b e c where "xs = b @ e # c" "list_all (\<lambda>x. \<not> leaves x) b" "leaves e"
          "goal (foldl step (step s e) c)"
        unfolding shift Cons.IH by blast
      with False show "\<exists>b e c. x # xs = b @ e # c \<and> list_all (\<lambda>x. \<not> leaves x) b \<and> leaves e \<and>
          goal (foldl step (step s e) c)"
        by (intro exI[of _ "x # b"] exI[of _ e] exI[of _ c]) simp
    next
      assume "\<exists>b e c. x # xs = b @ e # c \<and> list_all (\<lambda>x. \<not> leaves x) b \<and> leaves e \<and>
          goal (foldl step (step s e) c)"
      then obtain b e c where split: "x # xs = b @ e # c" "list_all (\<lambda>x. \<not> leaves x) b" "leaves e"
          "goal (foldl step (step s e) c)"
        by blast
      with False obtain b' where "b = x # b'" by (cases b) auto
      with split have "xs = b' @ e # c" "list_all (\<lambda>x. \<not> leaves x) b'" by simp_all
      with split show "goal (foldl step s (x # xs))" unfolding shift Cons.IH by blast
    qed
  qed
qed

text \<open>
  A step that changes a state only by raising a bounded measure: its iteration is stationary
  after at most \<open>bound\<close> turns.
\<close>

locale bounded_ascent =
  fixes step :: "'s \<Rightarrow> 's"
    and height :: "'s \<Rightarrow> nat"
    and ok :: "'s \<Rightarrow> bool"
    and bound :: nat
  assumes step_ok: "ok s \<Longrightarrow> ok (step s)"
    and climbs: "ok s \<Longrightarrow> step s \<noteq> s \<Longrightarrow> height s < height (step s)"
    and bounded: "ok s \<Longrightarrow> height s \<le> bound"
begin

lemma iterate_ok: "ok s \<Longrightarrow> ok ((step ^^ n) s)"
  by (induction n) (auto intro: step_ok)

lemma height_iterate:
  assumes "ok s" and "\<forall>j < n. step ((step ^^ j) s) \<noteq> (step ^^ j) s"
  shows "n + height s \<le> height ((step ^^ n) s)"
  using assms(2)
proof (induction n)
  case 0
  then show ?case by simp
next
  case (Suc n)
  then have "n + height s \<le> height ((step ^^ n) s)" by simp
  also have "\<dots> < height ((step ^^ Suc n) s)"
    using Suc.prems climbs[OF iterate_ok[OF assms(1)]] by simp
  finally show ?case by simp
qed

lemma stationary_within:
  assumes "ok s"
  shows "\<exists>j \<le> bound. step ((step ^^ j) s) = (step ^^ j) s"
proof (rule ccontr)
  assume "\<not> ?thesis"
  then have "\<forall>j < Suc bound. step ((step ^^ j) s) \<noteq> (step ^^ j) s"
    by (auto simp: less_Suc_eq_le)
  from height_iterate[OF assms this] bounded[OF iterate_ok[OF assms, of "Suc bound"]]
  show False by simp
qed

end

text \<open>
  A last-writer-wins register: an incoming entry replaces the incumbent only when it is strictly
  newer. The entries' stamps are what \<open>newer\<close> compares.
\<close>

locale lww_register =
  fixes newer :: "'e \<Rightarrow> 'e \<Rightarrow> bool"
    and stamp :: "'e \<Rightarrow> 's::linorder"
  assumes newer_stamp: "newer a b \<longleftrightarrow> stamp b < stamp a"
begin

fun take_in :: "'e option \<Rightarrow> 'e \<Rightarrow> 'e option" where
  "take_in None e = Some e"
| "take_in (Some p) e = (if newer e p then Some e else Some p)"

definition winner :: "'e list \<Rightarrow> 'e option" where
  "winner es = foldl take_in None es"

lemma foldl_take_in_Some:
  "\<exists>w. foldl take_in (Some p) es = Some w \<and> w \<in> insert p (set es)
     \<and> (\<forall>e \<in> insert p (set es). stamp e \<le> stamp w)"
proof (induction es arbitrary: p)
  case Nil
  then show ?case by simp
next
  case (Cons e es)
  show ?case
  proof (cases "newer e p")
    case True
    then have "stamp p < stamp e" by (simp add: newer_stamp)
    with Cons.IH[of e] True show ?thesis by force
  next
    case False
    then have "stamp e \<le> stamp p" by (simp add: newer_stamp)
    with Cons.IH[of p] False show ?thesis by force
  qed
qed

lemma winner_max:
  assumes "es \<noteq> []"
  shows "\<exists>w. winner es = Some w \<and> w \<in> set es \<and> (\<forall>e \<in> set es. stamp e \<le> stamp w)"
  using assms foldl_take_in_Some by (cases es) (auto simp: winner_def)

text \<open>The winner is the first of the greatest: an equal stamp does not replace it.\<close>

lemma winner_split:
  assumes "es \<noteq> []"
  obtains w xs ys where "winner es = Some w" "es = xs @ w # ys"
    "\<forall>x \<in> set xs. stamp x < stamp w" "\<forall>y \<in> set ys. stamp y \<le> stamp w"
proof -
  have "\<exists>w xs ys. winner es = Some w \<and> es = xs @ w # ys
      \<and> (\<forall>x \<in> set xs. stamp x < stamp w) \<and> (\<forall>y \<in> set ys. stamp y \<le> stamp w)"
    using assms
  proof (induction es rule: rev_nonempty_induct)
    case (single e)
    have "[e] = [] @ e # []" by simp
    then show ?case by (fastforce simp: winner_def)
  next
    case (snoc e es)
    then obtain w xs ys where w: "winner es = Some w" "es = xs @ w # ys"
      "\<forall>x \<in> set xs. stamp x < stamp w" "\<forall>y \<in> set ys. stamp y \<le> stamp w" by blast
    have step: "winner (es @ [e]) = take_in (Some w) e" using w(1) by (simp add: winner_def)
    show ?case
    proof (cases "stamp w < stamp e")
      case True
      with w have "\<forall>x \<in> set es. stamp x < stamp e" by fastforce
      moreover have "winner (es @ [e]) = Some e" using True step by (simp add: newer_stamp)
      ultimately show ?thesis
        by (intro exI[of _ e] exI[of _ es] exI[of _ "[]"]) (simp only: append_Nil2 simp_thms list.set ball_empty)
    next
      case False
      then have "es @ [e] = xs @ w # (ys @ [e])" "\<forall>y \<in> set (ys @ [e]). stamp y \<le> stamp w"
        "winner (es @ [e]) = Some w"
        using w step by (auto simp: newer_stamp)
      with w(3) show ?thesis by blast
    qed
  qed
  with that show thesis by blast
qed

text \<open>With one entry per stamp, the winner does not depend on the order of arrival.\<close>

lemma winner_order_free:
  assumes "set es = set es'" and "inj_on stamp (set es)"
  shows "winner es = winner es'"
proof (cases "es = []")
  case True
  with assms(1) show ?thesis by (simp add: winner_def)
next
  case False
  with assms(1) have "es' \<noteq> []" by auto
  from winner_max[OF False] winner_max[OF this] assms show ?thesis
    by (metis inj_onD order_antisym)
qed

end

end
