(* ===== verification/Yaml.thy ===== *)
theory Yaml
  imports Base
begin

text \<open>
  The YAML tree that the plan ledger works on: the constructors the code matches on
  (\<open>serde_yaml::Value\<close>) and the accessors it calls. A mapping keeps its entries in order and has
  unique keys; inserting an existing key overwrites in place, a new key goes to the end. A
  floating-point number is carried by the text it displays as. Trees with explicit YAML tags are
  outside the model.
\<close>

datatype ynumber = PosInt nat | NegInt int | FloatText string

datatype yaml =
  YNull
| YBool bool
| YNumber ynumber
| YString string
| YSequence "yaml list"
| YMapping "(yaml \<times> yaml) list"

subsection \<open>Accessors\<close>

fun as_str :: "yaml \<Rightarrow> string option" where
  "as_str (YString s) = Some s"
| "as_str _ = None"

fun as_u64 :: "yaml \<Rightarrow> nat option" where
  "as_u64 (YNumber (PosInt n)) = Some n"
| "as_u64 _ = None"

fun as_sequence :: "yaml \<Rightarrow> yaml list option" where
  "as_sequence (YSequence s) = Some s"
| "as_sequence _ = None"

fun as_mapping :: "yaml \<Rightarrow> (yaml \<times> yaml) list option" where
  "as_mapping (YMapping m) = Some m"
| "as_mapping _ = None"

fun yget :: "yaml \<Rightarrow> string \<Rightarrow> yaml option" where
  "yget (YMapping m) k = map_of m (YString k)"
| "yget _ k = None"

text \<open>Chains such as \<open>v.get(k).and_then(Value::as_str)\<close>.\<close>

definition get_str :: "yaml \<Rightarrow> string \<Rightarrow> string option" where
  "get_str v k = Option.bind (yget v k) as_str"

definition get_sequence :: "yaml \<Rightarrow> string \<Rightarrow> yaml list option" where
  "get_sequence v k = Option.bind (yget v k) as_sequence"

definition contains_key :: "(yaml \<times> yaml) list \<Rightarrow> string \<Rightarrow> bool" where
  "contains_key m k \<longleftrightarrow> map_of m (YString k) \<noteq> None"

fun yinsert :: "'k \<Rightarrow> 'v \<Rightarrow> ('k \<times> 'v) list \<Rightarrow> ('k \<times> 'v) list" where
  "yinsert k v [] = [(k, v)]"
| "yinsert k v ((k', v') # m) = (if k' = k then (k', v) # m else (k', v') # yinsert k v m)"

definition unwrap_or :: "'a \<Rightarrow> 'a option \<Rightarrow> 'a" where
  "unwrap_or d x = (case x of None \<Rightarrow> d | Some y \<Rightarrow> y)"

lemma unwrap_or_simps [simp]: "unwrap_or d None = d" "unwrap_or d (Some x) = x"
  by (simp_all add: unwrap_or_def)

lemma map_of_yinsert [simp]: "map_of (yinsert k v m) = (map_of m)(k \<mapsto> v)"
  by (induction k v m rule: yinsert.induct) auto

lemma fst_set_yinsert [simp]: "fst ` set (yinsert k v m) = insert k (fst ` set m)"
  by (induction k v m rule: yinsert.induct) auto

lemma distinct_yinsert [simp]: "distinct (map fst (yinsert k v m)) = distinct (map fst m)"
proof (induction k v m rule: yinsert.induct)
  case (2 k v k' v' m)
  have "set (map fst (yinsert k v m)) = insert k (set (map fst m))" by simp
  with 2 show ?case by (auto simp del: set_map)
qed simp

interpretation ymap: kv_store map_of yinsert
  by unfold_locales simp

lemma as_str_Some [simp]: "as_str v = Some s \<longleftrightarrow> v = YString s"
  by (cases v) auto

lemma as_sequence_Some [simp]: "as_sequence v = Some s \<longleftrightarrow> v = YSequence s"
  by (cases v) auto

lemma as_mapping_Some [simp]: "as_mapping v = Some s \<longleftrightarrow> v = YMapping s"
  by (cases v) auto

lemma yget_Some: "yget v k = Some x \<longleftrightarrow> (\<exists>m. v = YMapping m \<and> map_of m (YString k) = Some x)"
  by (cases v) auto

lemma get_str_Some: "get_str v k = Some s \<longleftrightarrow> yget v k = Some (YString s)"
  by (auto simp: get_str_def bind_eq_Some_conv)

lemma get_sequence_Some: "get_sequence v k = Some s \<longleftrightarrow> yget v k = Some (YSequence s)"
  by (auto simp: get_sequence_def bind_eq_Some_conv)

lemma size_yaml_sequence [termination_simp]: "v \<in> set s \<Longrightarrow> size v < Suc (size_list size s)"
  by (simp add: less_Suc_eq_le size_list_estimation')

lemma size_yaml_mapping [termination_simp]:
  "(k, v) \<in> set m \<Longrightarrow> size v < Suc (size_list (size_prod size size) m)"
  by (induction m) auto

subsection \<open>Finding the packets of a document\<close>

text \<open>
  A packet is a mapping with a \<open>packet_id\<close> key, wherever it sits; the walk does not look inside a
  packet. \<open>collect_packets\<close> returns what the Rust function pushes to its \<open>out\<close> argument.
\<close>

fun collect_packets :: "yaml \<Rightarrow> yaml list" where
  "collect_packets (YMapping m) =
     (if contains_key m ''packet_id'' then [YMapping m]
      else concat (map (\<lambda>(k, v). collect_packets v) m))"
| "collect_packets (YSequence s) = concat (map collect_packets s)"
| "collect_packets _ = []"

definition str_field :: "yaml \<Rightarrow> string \<Rightarrow> string option" where
  "str_field p k = get_str p k"

definition str_list :: "yaml \<Rightarrow> string \<Rightarrow> string list" where
  "str_list p k = (case get_sequence p k of None \<Rightarrow> [] | Some s \<Rightarrow> List.map_filter as_str s)"

definition is_packet :: "yaml \<Rightarrow> bool" where
  "is_packet v \<longleftrightarrow> yget v ''packet_id'' \<noteq> None"

lemma collect_packets_are_packets: "p \<in> set (collect_packets v) \<Longrightarrow> is_packet p"
  by (induction v rule: collect_packets.induct)
    (auto simp: is_packet_def contains_key_def split: if_splits)

lemma collect_packet [simp]: "is_packet p \<Longrightarrow> collect_packets p = [p]"
  by (cases p) (auto simp: is_packet_def contains_key_def)

end
