(* ===== verification/Ladder.thy ===== *)
theory Ladder
  imports Yaml
begin

text \<open>
  The closure ladder of packet statuses and the rule by which the fragment fold replaces a status
  (\<open>is_terminal_status\<close>, \<open>closure_rank\<close>, \<open>is_parked_status\<close> of
  \<open>crates/tillandsias-plan/src/lib.rs\<close>, \<open>status_entry_wins\<close> of \<open>fragments.rs\<close>).
\<close>

definition is_terminal_status :: "string \<Rightarrow> bool" where
  "is_terminal_status s \<longleftrightarrow> s \<in> {''completed'', ''verified'', ''done'', ''obsoleted''}"

definition closure_rank :: "string \<Rightarrow> nat option" where
  "closure_rank s =
     (if s = ''implemented'' then Some 0
      else if s = ''completed'' then Some 1
      else if s = ''verified'' then Some 2
      else if s = ''done'' then Some 3
      else None)"

definition is_parked_status :: "string \<Rightarrow> bool" where
  "is_parked_status s \<longleftrightarrow> s \<in> {''implemented'', ''needs_clarification'', ''blocked'', ''failed''}"

definition is_lateral :: "string \<Rightarrow> bool" where
  "is_lateral s \<longleftrightarrow> s \<in> {''obsoleted'', ''failed''}"

text \<open>
  Arguments in the code's order: the incoming value (when it is a string), its stamp, whether its
  fragment records a \<open>falsified\<close> event for the packet, and the incumbent's value and stamp.
\<close>

definition status_entry_wins ::
  "string option \<Rightarrow> string \<Rightarrow> string \<Rightarrow> bool \<Rightarrow> string option \<Rightarrow> string \<Rightarrow> string \<Rightarrow> bool" where
  "status_entry_wins incoming i_ts i_host falsified prev p_ts p_host =
     (let lww = ((p_ts, p_host) < (i_ts, i_host))
      in case (incoming, prev) of
           (Some inc, Some pv) \<Rightarrow>
             (if is_lateral inc \<or> is_lateral pv then lww
              else (case (closure_rank inc, closure_rank pv) of
                      (Some i, Some p) \<Rightarrow> if p < i then True else if i < p then falsified else lww
                    | (Some _, None) \<Rightarrow> True
                    | (None, Some _) \<Rightarrow> falsified
                    | (None, None) \<Rightarrow> lww))
         | _ \<Rightarrow> lww)"

subsection \<open>Lemmas\<close>

text \<open>The ladder as one number: 0 for a working state, then the rungs.\<close>

definition ladder_height :: "string \<Rightarrow> nat" where
  "ladder_height s = (case closure_rank s of None \<Rightarrow> 0 | Some r \<Rightarrow> Suc r)"

lemma closure_rank_inj: "closure_rank s = Some r \<Longrightarrow> closure_rank t = Some r \<Longrightarrow> s = t"
  by (auto simp: closure_rank_def split: if_splits)

lemma terminal_on_ladder:
  "is_terminal_status s \<longleftrightarrow> 2 \<le> ladder_height s \<or> s = ''obsoleted''"
  by (auto simp: is_terminal_status_def ladder_height_def closure_rank_def)

lemma terminal_not_parked: "is_terminal_status s \<Longrightarrow> \<not> is_parked_status s"
  by (auto simp: is_terminal_status_def is_parked_status_def)

lemma lateral_height [simp]: "is_lateral s \<Longrightarrow> ladder_height s = 0"
  by (auto simp: is_lateral_def ladder_height_def closure_rank_def)

lemma wins_not_lower:
  assumes "status_entry_wins (Some inc) it ih False (Some pv) pt ph"
    and "\<not> is_lateral inc" and "\<not> is_lateral pv"
  shows "ladder_height pv \<le> ladder_height inc"
  using assms
  by (auto simp: status_entry_wins_def ladder_height_def Let_def split: option.splits if_splits)

lemma higher_wins:
  assumes "ladder_height pv < ladder_height inc" and "\<not> is_lateral pv" and "\<not> is_lateral inc"
  shows "status_entry_wins (Some inc) it ih f (Some pv) pt ph"
  using assms
  by (auto simp: status_entry_wins_def ladder_height_def Let_def split: option.splits if_splits)

lemma same_height_lww:
  assumes "ladder_height pv = ladder_height inc" and "\<not> is_lateral pv" and "\<not> is_lateral inc"
  shows "status_entry_wins (Some inc) it ih f (Some pv) pt ph \<longleftrightarrow> (pt, ph) < (it, ih)"
  using assms
  by (auto simp: status_entry_wins_def ladder_height_def Let_def split: option.splits if_splits)

end
