(* ===== verification/Fragments.thy ===== *)
theory Fragments
  imports Ladder
begin

text \<open>
  The fragment overlay of the plan ledger (\<open>crates/tillandsias-plan/src/fragments.rs\<close>): reading
  the channels of a fragment, the fold of a base document with its fragments, and the coverage
  check by which compaction decides which fragments it may delete.
\<close>

subsection \<open>Channels of a fragment\<close>

definition lww_channels :: "string list" where
  "lww_channels = [''fields'', ''status'']"

definition lww_entries :: "yaml \<Rightarrow> yaml list" where
  "lww_entries doc =
     concat (map (\<lambda>ch. case get_sequence doc ch of None \<Rightarrow> [] | Some s \<Rightarrow> s) lww_channels)"

definition list_replace_fields :: "string list" where
  "list_replace_fields =
     [''exit_criteria'', ''capability_tags'', ''depends_on'', ''owned_files'', ''related'']"

record list_replace =
  lr_packet_id :: string
  lr_field :: string
  lr_ts :: string
  lr_host :: string
  lr_items :: yaml

fun is_scalar :: "yaml \<Rightarrow> bool" where
  "is_scalar (YMapping _) = False"
| "is_scalar (YSequence _) = False"
| "is_scalar _ = True"

definition list_replace_entry :: "yaml \<Rightarrow> list_replace option" where
  "list_replace_entry entry =
     (case (get_str entry ''packet_id'', yget entry ''event'') of
        (Some packet_id, Some event) \<Rightarrow>
          (if get_str event ''type'' \<noteq> Some ''list-replace'' then None
           else (case (get_str event ''field'', yget event ''items'') of
                   (Some field, Some items) \<Rightarrow>
                     (let scalars = (case as_sequence items of
                                       None \<Rightarrow> False
                                     | Some s \<Rightarrow> list_all is_scalar s)
                      in if field \<notin> set list_replace_fields \<or> \<not> scalars then None
                         else Some \<lparr>lr_packet_id = packet_id, lr_field = field,
                                    lr_ts = unwrap_or [] (get_str event ''ts''),
                                    lr_host = unwrap_or [] (get_str event ''host''),
                                    lr_items = items\<rparr>)
                 | _ \<Rightarrow> None))
      | _ \<Rightarrow> None)"

definition list_replace_entries :: "yaml \<Rightarrow> list_replace list" where
  "list_replace_entries doc =
     (case get_sequence doc ''events'' of
        None \<Rightarrow> []
      | Some evs \<Rightarrow> List.map_filter list_replace_entry evs)"

record fragment =
  frag_name :: string
  frag_path :: string
  frag_doc :: yaml
  frag_raw :: string

text \<open>The unit separator between the parts of a composed key.\<close>

definition sep :: char where
  "sep = CHR 0x01"

definition event_identity :: "string \<Rightarrow> yaml \<Rightarrow> string" where
  "event_identity packet_id event =
     (let f = (\<lambda>k. unwrap_or ''-'' (get_str event k))
      in packet_id @ [sep] @ f ''type'' @ [sep] @ f ''ts'' @ [sep] @ f ''agent_id'' @ [sep]
         @ f ''summary'')"

definition fragment_falsifies :: "fragment \<Rightarrow> string \<Rightarrow> bool" where
  "fragment_falsifies frag pid =
     (case get_sequence (frag_doc frag) ''events'' of
        None \<Rightarrow> False
      | Some events \<Rightarrow>
          list_ex (\<lambda>e. get_str e ''packet_id'' = Some pid
            \<and> Option.bind (yget e ''event'') (\<lambda>ev. get_str ev ''type'') = Some ''falsified'') events)"

subsection \<open>The fold\<close>

text \<open>What the walk over the base records: event identities, packet ids, packets by id.\<close>

record base_index =
  bi_seen :: "string set"
  bi_packets :: "string set"
  bi_by_id :: "string \<rightharpoonup> yaml"

definition packet_events :: "yaml \<Rightarrow> yaml list" where
  "packet_events p = (case get_sequence p ''events'' of None \<Rightarrow> [] | Some evs \<Rightarrow> evs)"

definition index_packet :: "base_index \<Rightarrow> yaml \<Rightarrow> base_index" where
  "index_packet bi p =
     (case get_str p ''packet_id'' of
        None \<Rightarrow> bi
      | Some i \<Rightarrow>
          \<lparr>bi_seen = bi_seen bi \<union> set (map (event_identity i) (packet_events p)),
           bi_packets = insert i (bi_packets bi),
           bi_by_id = (bi_by_id bi)(i \<mapsto> p)\<rparr>)"

definition index_base :: "yaml \<Rightarrow> base_index" where
  "index_base base =
     foldl index_packet \<lparr>bi_seen = {}, bi_packets = {}, bi_by_id = Map.empty\<rparr>
       (collect_packets base)"

type_synonym lww_entry = "string \<times> string \<times> yaml \<times> nat"

record fold_acc =
  fa_seen :: "string set"
  fa_lww :: "(string, lww_entry) btmap"
  fa_new_packets :: "yaml list"
  fa_new_events :: "(string \<times> yaml) list"
  fa_prov_new :: "(string, nat) btmap"

definition fold_packet :: "base_index \<Rightarrow> nat \<Rightarrow> fold_acc \<Rightarrow> yaml \<Rightarrow> fold_acc" where
  "fold_packet bi idx acc p =
     (case get_str p ''packet_id'' of
        None \<Rightarrow> acc
      | Some i \<Rightarrow>
          (if i \<notin> bi_packets bi
             \<and> \<not> list_ex (\<lambda>q. get_str q ''packet_id'' = Some i) (fa_new_packets acc)
           then acc\<lparr>fa_new_packets := fa_new_packets acc @ [p],
                    fa_prov_new := bt_insert i idx (fa_prov_new acc)\<rparr>
           else acc))"

definition fold_event :: "fold_acc \<Rightarrow> yaml \<Rightarrow> fold_acc" where
  "fold_event acc entry =
     (case get_str entry ''packet_id'' of
        None \<Rightarrow> acc
      | Some pid \<Rightarrow>
          (case yget entry ''event'' of
             None \<Rightarrow> acc
           | Some event \<Rightarrow>
               (let ident = event_identity pid event
                in if ident \<in> fa_seen acc then acc
                   else acc\<lparr>fa_seen := insert ident (fa_seen acc),
                            fa_new_events := fa_new_events acc @ [(pid, event)]\<rparr>)))"

definition lww_key :: "string \<Rightarrow> string \<Rightarrow> string" where
  "lww_key pid field = pid @ [sep] @ field"

text \<open>Whether an incoming \<open>fields:\<close>/\<open>status:\<close> entry replaces the register's content.\<close>

definition lww_better ::
  "base_index \<Rightarrow> bool \<Rightarrow> string \<Rightarrow> string \<Rightarrow> lww_entry option \<Rightarrow> string \<Rightarrow> string \<Rightarrow> yaml \<Rightarrow> bool" where
  "lww_better bi falsifies pid field current ts host value =
     (case current of
        None \<Rightarrow>
          (if field = ''status'' then
             (case Option.bind (Option.bind (bi_by_id bi pid) (\<lambda>p. yget p field)) as_str of
                None \<Rightarrow> True
              | Some prev \<Rightarrow>
                  status_entry_wins (as_str value) ts host falsifies (Some prev) [] [])
           else True)
      | Some (prev_ts, prev_host, prev_val, _) \<Rightarrow>
          (if field = ''status'' then
             status_entry_wins (as_str value) ts host falsifies (as_str prev_val) prev_ts prev_host
           else (prev_ts, prev_host) < (ts, host)))"

definition fold_lww :: "base_index \<Rightarrow> fragment \<Rightarrow> nat \<Rightarrow> fold_acc \<Rightarrow> yaml \<Rightarrow> fold_acc" where
  "fold_lww bi frag idx acc u =
     (case (get_str u ''packet_id'', get_str u ''field'', yget u ''value'') of
        (Some pid, Some field, Some value) \<Rightarrow>
          (let ts = unwrap_or [] (get_str u ''ts'');
               host = unwrap_or [] (get_str u ''host'');
               key = lww_key pid field
           in if lww_better bi (fragment_falsifies frag pid) pid field
                   (map_of (fa_lww acc) key) ts host value
              then acc\<lparr>fa_lww := bt_insert key (ts, host, value, idx) (fa_lww acc)\<rparr>
              else acc)
      | _ \<Rightarrow> acc)"

definition fold_replace :: "nat \<Rightarrow> fold_acc \<Rightarrow> list_replace \<Rightarrow> fold_acc" where
  "fold_replace idx acc r =
     (let key = lww_key (lr_packet_id r) (lr_field r);
          better = (case map_of (fa_lww acc) key of
                      None \<Rightarrow> True
                    | Some (prev_ts, prev_host, _, _) \<Rightarrow>
                        (prev_ts, prev_host) < (lr_ts r, lr_host r))
      in if better
         then acc\<lparr>fa_lww := bt_insert key (lr_ts r, lr_host r, lr_items r, idx) (fa_lww acc)\<rparr>
         else acc)"

definition seq_or_empty :: "yaml \<Rightarrow> string \<Rightarrow> yaml list" where
  "seq_or_empty doc k = (case get_sequence doc k of None \<Rightarrow> [] | Some s \<Rightarrow> s)"

definition fold_fragment :: "base_index \<Rightarrow> fold_acc \<Rightarrow> nat \<times> fragment \<Rightarrow> fold_acc" where
  "fold_fragment bi acc = (\<lambda>(idx, frag).
     foldl (fold_replace idx)
       (foldl (fold_lww bi frag idx)
         (foldl fold_event
           (foldl (fold_packet bi idx) acc (seq_or_empty (frag_doc frag) ''packets''))
           (seq_or_empty (frag_doc frag) ''events''))
         (lww_entries (frag_doc frag)))
       (list_replace_entries (frag_doc frag)))"

definition fold_fragments :: "yaml \<Rightarrow> fragment list \<Rightarrow> fold_acc" where
  "fold_fragments base fragments =
     (let bi = index_base base
      in foldl (fold_fragment bi)
           \<lparr>fa_seen = bi_seen bi, fa_lww = [], fa_new_packets = [], fa_new_events = [],
            fa_prov_new = []\<rparr>
           (zip [0..<length fragments] fragments))"

subsection \<open>Writing the result into the document\<close>

text \<open>The first element on which \<open>f\<close> succeeds, replaced by what \<open>f\<close> made of it.\<close>

fun update_first :: "('a \<Rightarrow> 'a option) \<Rightarrow> 'a list \<Rightarrow> 'a list option" where
  "update_first f [] = None"
| "update_first f (x # xs) =
     (case f x of Some y \<Rightarrow> Some (y # xs) | None \<Rightarrow> map_option ((#) x) (update_first f xs))"

lemma update_first_cong [fundef_cong]:
  "xs = ys \<Longrightarrow> (\<And>x. x \<in> set ys \<Longrightarrow> f x = g x) \<Longrightarrow> update_first f xs = update_first g ys"
  by (induction ys arbitrary: xs) (auto split: option.splits)

text \<open>\<open>find_packet_sequence\<close> hands out a mutable reference, to which the caller appends: here the
  document with the sequence found extended by \<open>new\<close>.\<close>

fun extend_packet_sequence :: "yaml list \<Rightarrow> yaml \<Rightarrow> yaml option" where
  "extend_packet_sequence new (YSequence s) =
     (if list_ex (\<lambda>v. yget v ''packet_id'' \<noteq> None) s then Some (YSequence (s @ new))
      else map_option YSequence (update_first (\<lambda>v. extend_packet_sequence new v) s))"
| "extend_packet_sequence new (YMapping m) =
     map_option YMapping
       (update_first (\<lambda>(k, v). map_option (Pair k) (extend_packet_sequence new v)) m)"
| "extend_packet_sequence new _ = None"

definition append_packets :: "yaml \<Rightarrow> yaml list \<Rightarrow> yaml" where
  "append_packets doc new =
     (if new = [] then doc
      else (case extend_packet_sequence new doc of
              Some doc' \<Rightarrow> doc'
            | None \<Rightarrow>
                (case doc of
                   YMapping m \<Rightarrow> YMapping (yinsert (YString ''packets'') (YSequence new) m)
                 | _ \<Rightarrow> doc)))"

definition group_events :: "(string \<times> yaml) list \<Rightarrow> string \<Rightarrow> yaml list" where
  "group_events evs = foldl (\<lambda>g (pid, e). g(pid := g pid @ [e])) (\<lambda>_. []) evs"

definition group_lww ::
  "(string, lww_entry) btmap \<Rightarrow> string \<Rightarrow> (string \<times> string \<times> yaml) list" where
  "group_lww lww =
     foldl (\<lambda>g (key, (ts, _, value, _)).
         (case split_once sep key of
            None \<Rightarrow> g
          | Some (pid, field) \<Rightarrow> g(pid := g pid @ [(field, ts, value)])))
       (\<lambda>_. []) lww"

definition apply_field ::
  "(yaml \<times> yaml) list \<Rightarrow> string \<times> string \<times> yaml \<Rightarrow> (yaml \<times> yaml) list" where
  "apply_field m = (\<lambda>(field, ts, value).
     (let m1 = yinsert (YString field) value m
      in if field = ''next_action'' \<and> ts \<noteq> []
         then yinsert (YString ''next_action_ts'') (YString ts) m1 else m1))"

definition push_packet_events :: "yaml list \<Rightarrow> (yaml \<times> yaml) list \<Rightarrow> (yaml \<times> yaml) list" where
  "push_packet_events mine m =
     (if mine = [] then m
      else (case map_of m (YString ''events'') of
              None \<Rightarrow> yinsert (YString ''events'') (YSequence mine) m
            | Some (YSequence s) \<Rightarrow> yinsert (YString ''events'') (YSequence (s @ mine)) m
            | Some _ \<Rightarrow> m))"

definition apply_packet ::
  "(string \<Rightarrow> yaml list) \<Rightarrow> (string \<Rightarrow> (string \<times> string \<times> yaml) list)
    \<Rightarrow> (yaml \<times> yaml) list \<Rightarrow> (yaml \<times> yaml) list" where
  "apply_packet events lww m =
     (let i = unwrap_or [] (Option.bind (map_of m (YString ''packet_id'')) as_str)
      in push_packet_events (events i) (foldl apply_field m (lww i)))"

fun apply_to_packets ::
  "(string \<Rightarrow> yaml list) \<Rightarrow> (string \<Rightarrow> (string \<times> string \<times> yaml) list) \<Rightarrow> yaml \<Rightarrow> yaml" where
  "apply_to_packets events lww (YMapping m) =
     (if contains_key m ''packet_id'' then YMapping (apply_packet events lww m)
      else YMapping (map (\<lambda>(k, v). (k, apply_to_packets events lww v)) m))"
| "apply_to_packets events lww (YSequence s) = YSequence (map (apply_to_packets events lww) s)"
| "apply_to_packets events lww v = v"

record fold_provenance =
  fp_new_packets :: "(string, nat) btmap"
  fp_lww_wins :: "(string, nat \<times> string \<times> string) btmap"

definition fold_with_sources :: "yaml \<Rightarrow> fragment list \<Rightarrow> yaml \<times> fold_provenance" where
  "fold_with_sources base fragments =
     (let acc = fold_fragments base fragments;
          wins = foldl (\<lambda>m (key, (ts, host, _, idx)). bt_insert key (idx, ts, host) m) [] (fa_lww acc);
          merged = append_packets base (fa_new_packets acc)
      in (apply_to_packets (group_events (fa_new_events acc)) (group_lww (fa_lww acc)) merged,
          \<lparr>fp_new_packets = fa_prov_new acc, fp_lww_wins = wins\<rparr>))"

definition fold_ledger :: "yaml \<Rightarrow> fragment list \<Rightarrow> yaml" where
  "fold_ledger base fragments = fst (fold_with_sources base fragments)"

subsection \<open>Coverage and compaction\<close>

text \<open>\<open>FoldedIdentities::of\<close>.\<close>

record folded_identities =
  fi_ids :: "string set"
  fi_events :: "string set"

definition folded_identities_of :: "yaml \<Rightarrow> folded_identities" where
  "folded_identities_of result =
     (let ps = List.map_filter (\<lambda>p. map_option (\<lambda>i. (i, p)) (get_str p ''packet_id''))
                 (collect_packets result)
      in \<lparr>fi_ids = set (map fst ps),
          fi_events = set (concat (map (\<lambda>(i, p). map (event_identity i) (packet_events p)) ps))\<rparr>)"

text \<open>The gaps a fragment can have, one constructor per message of the code.\<close>

datatype gap =
  PacketNotFolded string
| PacketWithoutId
| EventWithoutPacketId
| EventUnknownDirective string "string list"
| EventMisplacedDefinition string "string list"
| EventForUnknownPacket string
| StatusForUnknownPacket string
| CapabilityWithoutHost
| CapabilityNotCarried string string

definition packet_gap :: "folded_identities \<Rightarrow> yaml \<Rightarrow> gap list" where
  "packet_gap known p =
     (case get_str p ''packet_id'' of
        Some i \<Rightarrow> (if i \<notin> fi_ids known then [PacketNotFolded i] else [])
      | None \<Rightarrow> [PacketWithoutId])"

definition definition_keys :: "string list" where
  "definition_keys = [''order'', ''title'', ''kind'', ''deliverable'']"

definition event_gap :: "folded_identities \<Rightarrow> yaml \<Rightarrow> gap list" where
  "event_gap known entry =
     (case get_str entry ''packet_id'' of
        None \<Rightarrow> [EventWithoutPacketId]
      | Some pid \<Rightarrow>
          (case yget entry ''event'' of
             None \<Rightarrow>
               (let fields = filter (\<lambda>k. yget entry k \<noteq> None) definition_keys
                in if fields = [] then
                     (let unknown = (case as_mapping entry of
                                       None \<Rightarrow> []
                                     | Some m \<Rightarrow> filter (\<lambda>k. k \<noteq> ''packet_id'')
                                                  (List.map_filter as_str (map fst m)))
                      in [EventUnknownDirective pid (sort unknown)])
                   else [EventMisplacedDefinition pid fields])
           | Some event \<Rightarrow>
               (if event_identity pid event \<in> fi_events known then []
                else [EventForUnknownPacket pid])))"

definition status_gap :: "folded_identities \<Rightarrow> yaml \<Rightarrow> gap list" where
  "status_gap known u =
     (case get_str u ''packet_id'' of
        Some pid \<Rightarrow> (if pid \<notin> fi_ids known then [StatusForUnknownPacket pid] else [])
      | None \<Rightarrow> [])"

definition capability_key :: "yaml \<Rightarrow> string \<times> string" where
  "capability_key r =
     (unwrap_or [] (Option.bind (Option.bind (Option.bind (yget r ''document'')
        (\<lambda>d. yget d ''host'')) (\<lambda>h. yget h ''host_id'')) as_str),
      unwrap_or [] (get_str r ''locus''))"

definition capability_gap :: "yaml \<Rightarrow> yaml \<Rightarrow> gap list" where
  "capability_gap result r =
     (let present = set (map capability_key (seq_or_empty result ''capabilities''));
          (host_id, locus) = capability_key r
      in if host_id = [] then [CapabilityWithoutHost]
         else if (host_id, locus) \<notin> present then [CapabilityNotCarried host_id locus] else [])"

definition fragment_coverage_gaps_in :: "yaml \<Rightarrow> folded_identities \<Rightarrow> fragment \<Rightarrow> gap list" where
  "fragment_coverage_gaps_in result known frag =
     concat (map (packet_gap known) (seq_or_empty (frag_doc frag) ''packets''))
     @ concat (map (event_gap known) (seq_or_empty (frag_doc frag) ''events''))
     @ concat (map (status_gap known) (lww_entries (frag_doc frag)))
     @ concat (map (capability_gap result) (seq_or_empty (frag_doc frag) ''capabilities''))"

record compaction =
  co_merged :: yaml
  co_consumed :: "string list"
  co_refused :: "(string \<times> gap list) list"

text \<open>\<open>compact\<close>, over the fragments that \<open>load_all\<close> read.\<close>

definition compact :: "yaml \<Rightarrow> fragment list \<Rightarrow> compaction" where
  "compact base fragments =
     (let merged = fold_ledger base fragments;
          known = folded_identities_of merged;
          gaps = fragment_coverage_gaps_in merged known
      in \<lparr>co_merged = merged,
          co_consumed = map frag_path (filter (\<lambda>f. gaps f = []) fragments),
          co_refused = map (\<lambda>f. (frag_path f, gaps f)) (filter (\<lambda>f. gaps f \<noteq> []) fragments)\<rparr>)"

definition overlay_coverage_gaps :: "yaml \<Rightarrow> fragment list \<Rightarrow> (string \<times> gap list) list" where
  "overlay_coverage_gaps base fragments =
     (let merged = fold_ledger base fragments;
          known = folded_identities_of merged
      in List.map_filter (\<lambda>f. let gaps = fragment_coverage_gaps_in merged known f
           in if gaps \<noteq> [] then Some (frag_path f, gaps) else None) fragments)"

definition fold_channels :: "string list" where
  "fold_channels = [''packets'', ''events'', ''fields'', ''status'', ''capabilities'']"

text \<open>\<open>inert_fragments\<close>, over the loaded fragments, in the sorted order it returns.\<close>

definition is_inert :: "fragment \<Rightarrow> bool" where
  "is_inert frag =
     (case as_mapping (frag_doc frag) of
        None \<Rightarrow> False
      | Some m \<Rightarrow>
          (if list_ex (\<lambda>k. k \<in> set fold_channels) (List.map_filter as_str (map fst m)) then False
           else m \<noteq> []))"

definition inert_fragments :: "fragment list \<Rightarrow> string list" where
  "inert_fragments frags = sort (map frag_path (filter is_inert frags))"

subsection \<open>Writing fragments\<close>

definition fragment_doc :: "yaml list \<Rightarrow> yaml list \<Rightarrow> yaml list \<Rightarrow> yaml" where
  "fragment_doc packets events status =
     YMapping
       ((if packets \<noteq> [] then [(YString ''packets'', YSequence packets)] else [])
        @ (if events \<noteq> [] then [(YString ''events'', YSequence events)] else [])
        @ (if status \<noteq> [] then [(YString ''status'', YSequence status)] else []))"

text \<open>One output character per Unicode character: the continuation bytes of UTF-8 (0x80 to 0xBF)
  belong to the character their lead byte starts.\<close>

definition is_continuation_byte :: "char \<Rightarrow> bool" where
  "is_continuation_byte c \<longleftrightarrow> 128 \<le> (of_char c :: nat) \<and> (of_char c :: nat) < 192"

definition safe_part :: "string \<Rightarrow> string" where
  "safe_part s =
     map (\<lambda>c. if is_ascii_alphanumeric c \<or> c = CHR ''-'' then ascii_lower c else CHR ''-'')
       (filter (\<lambda>c. \<not> is_continuation_byte c) s)"

definition fragment_filename :: "string \<Rightarrow> string \<Rightarrow> string \<Rightarrow> string \<Rightarrow> string" where
  "fragment_filename utc suffix host ext =
     safe_part utc @ ''-'' @ safe_part suffix @ ''-'' @ safe_part host @ ''.'' @ ext"

definition fragment_name :: "string \<Rightarrow> string \<Rightarrow> string \<Rightarrow> string" where
  "fragment_name utc suffix host = fragment_filename utc suffix host ''yaml''"

definition fragment_name_md :: "string \<Rightarrow> string \<Rightarrow> string \<Rightarrow> string" where
  "fragment_name_md utc suffix host = fragment_filename utc suffix host ''md''"

end
