(* ===== verification/Fold_Stream.thy ===== *)
theory Fold_Stream
  imports Fragments
begin

text \<open>
  The fold of \<open>Fragments\<close> as three independent streams: the declared packets, the events and the
  register writes of all fragments in order, each taken in one at a time.
\<close>

subsection \<open>Declared packets\<close>

definition packet_id_of :: "yaml \<Rightarrow> string option" where
  "packet_id_of p = get_str p ''packet_id''"

definition take_packet :: "string set \<Rightarrow> yaml list \<Rightarrow> yaml \<Rightarrow> yaml list" where
  "take_packet known ps p =
     (case packet_id_of p of
        None \<Rightarrow> ps
      | Some i \<Rightarrow> if i \<notin> known \<and> Some i \<notin> packet_id_of ` set ps then ps @ [p] else ps)"

definition declared :: "fragment list \<Rightarrow> yaml list" where
  "declared frags = concat (map (\<lambda>f. seq_or_empty (frag_doc f) ''packets'') frags)"

subsection \<open>Events\<close>

text \<open>The entries of the \<open>events:\<close> channel that the fold can read.\<close>

definition event_entry :: "yaml \<Rightarrow> (string \<times> yaml) option" where
  "event_entry entry =
     (case (get_str entry ''packet_id'', yget entry ''event'') of
        (Some pid, Some event) \<Rightarrow> Some (pid, event)
      | _ \<Rightarrow> None)"

definition recorded_events :: "fragment list \<Rightarrow> (string \<times> yaml) list" where
  "recorded_events frags =
     List.map_filter event_entry (concat (map (\<lambda>f. seq_or_empty (frag_doc f) ''events'') frags))"

definition take_event ::
  "string set \<times> (string \<times> yaml) list \<Rightarrow> string \<times> yaml \<Rightarrow> string set \<times> (string \<times> yaml) list" where
  "take_event = (\<lambda>(seen, evs) (pid, e).
     (let ident = event_identity pid e
      in if ident \<in> seen then (seen, evs) else (insert ident seen, evs @ [(pid, e)])))"

subsection \<open>Register writes\<close>

record contender =
  c_pid :: string
  c_field :: string
  c_laddered :: bool
  c_falsified :: bool
  c_entry :: lww_entry

definition c_key :: "contender \<Rightarrow> string" where
  "c_key c = lww_key (c_pid c) (c_field c)"

definition lww_contender :: "fragment \<Rightarrow> nat \<Rightarrow> yaml \<Rightarrow> contender option" where
  "lww_contender frag idx u =
     (case (get_str u ''packet_id'', get_str u ''field'', yget u ''value'') of
        (Some pid, Some field, Some value) \<Rightarrow>
          Some \<lparr>c_pid = pid, c_field = field, c_laddered = (field = ''status''),
                c_falsified = fragment_falsifies frag pid,
                c_entry = (unwrap_or [] (get_str u ''ts''), unwrap_or [] (get_str u ''host''),
                           value, idx)\<rparr>
      | _ \<Rightarrow> None)"

definition replace_contender :: "nat \<Rightarrow> list_replace \<Rightarrow> contender" where
  "replace_contender idx r =
     \<lparr>c_pid = lr_packet_id r, c_field = lr_field r, c_laddered = False, c_falsified = False,
      c_entry = (lr_ts r, lr_host r, lr_items r, idx)\<rparr>"

definition contenders_in :: "nat \<times> fragment \<Rightarrow> contender list" where
  "contenders_in = (\<lambda>(idx, frag).
     List.map_filter (lww_contender frag idx) (lww_entries (frag_doc frag))
     @ map (replace_contender idx) (list_replace_entries (frag_doc frag)))"

definition contenders :: "fragment list \<Rightarrow> contender list" where
  "contenders frags = concat (map contenders_in (zip [0..<length frags] frags))"

definition e_stamp :: "lww_entry \<Rightarrow> string \<times> string" where
  "e_stamp = (\<lambda>(ts, host, _, _). (ts, host))"

definition e_value :: "lww_entry \<Rightarrow> yaml" where
  "e_value = (\<lambda>(_, _, v, _). v)"

definition base_status :: "base_index \<Rightarrow> string \<Rightarrow> string option" where
  "base_status bi pid = Option.bind (bi_by_id bi pid) (\<lambda>p. get_str p ''status'')"

definition contend_one :: "base_index \<Rightarrow> lww_entry option \<Rightarrow> contender \<Rightarrow> lww_entry option" where
  "contend_one bi cur c =
     (let e = c_entry c; (ts, host) = e_stamp e in
      case cur of
        None \<Rightarrow>
          (if c_laddered c then
             (case base_status bi (c_pid c) of
                None \<Rightarrow> Some e
              | Some prev \<Rightarrow>
                  if status_entry_wins (as_str (e_value e)) ts host (c_falsified c) (Some prev) [] []
                  then Some e else None)
           else Some e)
      | Some p \<Rightarrow>
          (if c_laddered c then
             (if status_entry_wins (as_str (e_value e)) ts host (c_falsified c)
                   (as_str (e_value p)) (fst (e_stamp p)) (snd (e_stamp p))
              then Some e else Some p)
           else if e_stamp p < e_stamp e then Some e else Some p))"

definition contend ::
  "base_index \<Rightarrow> (string, lww_entry) btmap \<Rightarrow> contender \<Rightarrow> (string, lww_entry) btmap" where
  "contend bi m c =
     (case contend_one bi (map_of m (c_key c)) c of
        None \<Rightarrow> m
      | Some e \<Rightarrow> if map_of m (c_key c) = Some e then m else bt_insert (c_key c) e m)"

subsection \<open>The fold is the three streams\<close>

lemma fold_packet_streams [simp]:
  "fa_new_packets (fold_packet bi i acc p) = take_packet (bi_packets bi) (fa_new_packets acc) p"
  "fa_seen (fold_packet bi i acc p) = fa_seen acc"
  "fa_new_events (fold_packet bi i acc p) = fa_new_events acc"
  "fa_lww (fold_packet bi i acc p) = fa_lww acc"
  by (auto simp: fold_packet_def take_packet_def packet_id_of_def list_ex_iff image_iff
      split: option.splits)

definition ev_state :: "fold_acc \<Rightarrow> string set \<times> (string \<times> yaml) list" where
  "ev_state acc = (fa_seen acc, fa_new_events acc)"

lemma fold_packet_ev_state [simp]: "ev_state (fold_packet bi i acc p) = ev_state acc"
  by (simp add: ev_state_def)

lemma fold_event_streams [simp]:
  "fa_new_packets (fold_event acc u) = fa_new_packets acc"
  "fa_lww (fold_event acc u) = fa_lww acc"
  "ev_state (fold_event acc u) =
     (case event_entry u of None \<Rightarrow> ev_state acc | Some pe \<Rightarrow> take_event (ev_state acc) pe)"
  by (auto simp: fold_event_def event_entry_def take_event_def ev_state_def Let_def
      split: option.splits)

lemma fold_lww_streams [simp]:
  "fa_new_packets (fold_lww bi frag i acc u) = fa_new_packets acc"
  "fa_seen (fold_lww bi frag i acc u) = fa_seen acc"
  "fa_new_events (fold_lww bi frag i acc u) = fa_new_events acc"
  by (auto simp: fold_lww_def Let_def split: option.splits)

lemma fold_replace_streams [simp]:
  "fa_new_packets (fold_replace i acc r) = fa_new_packets acc"
  "fa_seen (fold_replace i acc r) = fa_seen acc"
  "fa_new_events (fold_replace i acc r) = fa_new_events acc"
  by (auto simp: fold_replace_def Let_def split: option.splits)

lemma fold_register_ev_state [simp]:
  "ev_state (fold_lww bi frag i acc u) = ev_state acc"
  "ev_state (fold_replace i acc r) = ev_state acc"
  by (simp_all add: ev_state_def)

lemma base_status_bind:
  "base_status bi pid = Option.bind (bi_by_id bi pid) (\<lambda>p. Option.bind (yget p ''status'') as_str)"
  by (simp add: base_status_def get_str_def)

lemma contend_wf [simp]: "bt_wf m \<Longrightarrow> bt_wf (contend bi m c)"
  by (auto simp: contend_def split: option.splits)

lemma contend_all_wf [simp]: "bt_wf m \<Longrightarrow> bt_wf (foldl (contend bi) m cs)"
  by (induction cs arbitrary: m) auto

lemma map_of_contend:
  "map_of (contend bi m c) k = (if k = c_key c then contend_one bi (map_of m k) c else map_of m k)"
  by (auto simp: contend_def contend_one_def Let_def split: option.splits if_splits prod.splits)

lemma fold_lww_contend:
  assumes "bt_wf (fa_lww acc)"
  shows "fa_lww (fold_lww bi frag i acc u) =
    (case lww_contender frag i u of None \<Rightarrow> fa_lww acc | Some c \<Rightarrow> contend bi (fa_lww acc) c)"
  using assms
  by (auto simp: fold_lww_def lww_contender_def contend_def contend_one_def lww_better_def Let_def
      c_key_def e_stamp_def e_value_def base_status_bind bt_insert_same
      split: option.splits prod.splits if_splits)

lemma fold_replace_contend:
  assumes "bt_wf (fa_lww acc)"
  shows "fa_lww (fold_replace i acc r) = contend bi (fa_lww acc) (replace_contender i r)"
  using assms
  by (auto simp: fold_replace_def replace_contender_def contend_def contend_one_def Let_def
      c_key_def e_stamp_def e_value_def bt_insert_same
      split: option.splits prod.splits if_splits)

lemma foldl_proj:
  "(\<And>s x. P s \<Longrightarrow> \<pi> (f s x) = g (\<pi> s) x \<and> P (f s x)) \<Longrightarrow> P s
    \<Longrightarrow> \<pi> (foldl f s xs) = foldl g (\<pi> s) xs \<and> P (foldl f s xs)"
  by (induction xs arbitrary: s) auto

lemma foldl_same: "(\<And>s x. \<pi> (f s x) = \<pi> s) \<Longrightarrow> \<pi> (foldl f s xs) = \<pi> s"
  by (induction xs arbitrary: s) auto

lemma foldl_map_filter:
  "foldl (\<lambda>s x. case f x of None \<Rightarrow> s | Some y \<Rightarrow> g s y) s xs = foldl g s (List.map_filter f xs)"
  by (induction xs arbitrary: s) (auto simp: List.map_filter_simps split: option.splits)

lemma foldl_concat: "foldl g s (concat xss) = foldl (foldl g) s xss"
  by (induction xss arbitrary: s) auto

text \<open>What one fragment does to the three streams.\<close>

lemma fold_fragment_packets:
  "fa_new_packets (fold_fragment bi acc (i, f)) =
     foldl (take_packet (bi_packets bi)) (fa_new_packets acc) (seq_or_empty (frag_doc f) ''packets'')"
proof -
  have "fa_new_packets (foldl (fold_packet bi i) acc ps) =
      foldl (take_packet (bi_packets bi)) (fa_new_packets acc) ps" for ps
    by (induction ps arbitrary: acc) auto
  then show ?thesis
    by (simp add: fold_fragment_def foldl_same[where \<pi> = fa_new_packets])
qed

lemma fold_fragment_events:
  "ev_state (fold_fragment bi acc (i, f)) =
     foldl take_event (ev_state acc)
       (List.map_filter event_entry (seq_or_empty (frag_doc f) ''events''))"
proof -
  have "ev_state (foldl fold_event acc es) =
      foldl take_event (ev_state acc) (List.map_filter event_entry es)" for es acc
    by (induction es arbitrary: acc) (auto simp: List.map_filter_simps split: option.splits)
  then show ?thesis
    by (simp add: fold_fragment_def foldl_same[where \<pi> = ev_state])
qed

lemma fold_fragment_lww:
  assumes "bt_wf (fa_lww acc)"
  shows "fa_lww (fold_fragment bi acc (i, f)) =
      foldl (contend bi) (fa_lww acc) (contenders_in (i, f))
    \<and> bt_wf (fa_lww (fold_fragment bi acc (i, f)))"
proof -
  have a: "bt_wf (fa_lww acc) \<Longrightarrow> fa_lww (foldl (fold_lww bi f i) acc us) =
        foldl (contend bi) (fa_lww acc) (List.map_filter (lww_contender f i) us)
      \<and> bt_wf (fa_lww (foldl (fold_lww bi f i) acc us))" for us acc
    by (induction us arbitrary: acc)
      (auto simp: List.map_filter_simps fold_lww_contend split: option.splits)
  have b: "bt_wf (fa_lww acc) \<Longrightarrow> fa_lww (foldl (fold_replace i) acc rs) =
        foldl (contend bi) (fa_lww acc) (map (replace_contender i) rs)
      \<and> bt_wf (fa_lww (foldl (fold_replace i) acc rs))" for rs acc
    by (induction rs arbitrary: acc) (auto simp: fold_replace_contend[where bi = bi])
  let ?acc1 = "foldl (fold_packet bi i) acc (seq_or_empty (frag_doc f) ''packets'')"
  let ?acc2 = "foldl fold_event ?acc1 (seq_or_empty (frag_doc f) ''events'')"
  have same: "fa_lww ?acc2 = fa_lww acc"
    by (simp add: foldl_same[where \<pi> = fa_lww])
  with assms have wf: "bt_wf (fa_lww ?acc2)" by simp
  let ?us = "lww_entries (frag_doc f)" and ?rs = "list_replace_entries (frag_doc f)"
  let ?acc3 = "foldl (fold_lww bi f i) ?acc2 ?us"
  have 3: "fa_lww ?acc3 = foldl (contend bi) (fa_lww acc) (List.map_filter (lww_contender f i) ?us)"
    using a[OF wf, of ?us] same by simp
  have wf3: "bt_wf (fa_lww ?acc3)"
    using a[OF wf, of ?us] by blast
  have "fa_lww (fold_fragment bi acc (i, f)) = fa_lww (foldl (fold_replace i) ?acc3 ?rs)"
    by (simp add: fold_fragment_def)
  also have "\<dots> = foldl (contend bi) (fa_lww acc) (contenders_in (i, f))"
    using b[OF wf3, of ?rs] by (simp add: contenders_in_def 3)
  finally show ?thesis using assms by simp
qed

definition empty_acc :: "base_index \<Rightarrow> fold_acc" where
  "empty_acc bi = \<lparr>fa_seen = bi_seen bi, fa_lww = [], fa_new_packets = [], fa_new_events = [],
     fa_prov_new = []\<rparr>"

lemma fold_fragments_alt:
  "fold_fragments base frags =
     foldl (fold_fragment (index_base base)) (empty_acc (index_base base))
       (zip [0..<length frags] frags)"
  by (simp add: fold_fragments_def empty_acc_def Let_def)

lemma map_zip_snd: "map (\<lambda>p. g (snd p)) (zip [0..<length xs] xs) = map g xs"
  using map_map[of g snd "zip [0..<length xs] xs"] by (simp add: comp_def)

lemma fold_packets_stream:
  "fa_new_packets (fold_fragments base frags) =
     foldl (take_packet (bi_packets (index_base base))) [] (declared frags)"
proof -
  let ?bi = "index_base base"
  have "fa_new_packets (foldl (fold_fragment ?bi) acc xs) =
      foldl (take_packet (bi_packets ?bi)) (fa_new_packets acc)
        (concat (map (\<lambda>p. seq_or_empty (frag_doc (snd p)) ''packets'') xs))" for acc xs
    by (induction xs arbitrary: acc) (auto simp: fold_fragment_packets)
  then show ?thesis
    by (simp add: fold_fragments_alt empty_acc_def declared_def
        map_zip_snd[where g = "\<lambda>f. seq_or_empty (frag_doc f) ''packets''"])
qed

lemma map_filter_concat: "List.map_filter f (concat xss) = concat (map (List.map_filter f) xss)"
  by (induction xss) (auto simp: List.map_filter_def)

lemma fold_events_stream:
  "ev_state (fold_fragments base frags) =
     foldl take_event (bi_seen (index_base base), []) (recorded_events frags)"
proof -
  let ?bi = "index_base base"
  let ?evs = "\<lambda>f. List.map_filter event_entry (seq_or_empty (frag_doc f) ''events'')"
  have "ev_state (foldl (fold_fragment ?bi) acc xs) =
      foldl take_event (ev_state acc) (concat (map (\<lambda>p. ?evs (snd p)) xs))" for acc xs
    by (induction xs arbitrary: acc) (auto simp: fold_fragment_events)
  moreover have "ev_state (empty_acc ?bi) = (bi_seen ?bi, [])"
    by (simp add: ev_state_def empty_acc_def)
  ultimately show ?thesis
    by (simp add: fold_fragments_alt recorded_events_def map_filter_concat comp_def
        map_zip_snd[where g = ?evs])
qed

lemma fold_lww_stream:
  "fa_lww (fold_fragments base frags) = foldl (contend (index_base base)) [] (contenders frags)"
  "bt_wf (fa_lww (fold_fragments base frags))"
proof -
  let ?bi = "index_base base"
  have "bt_wf (fa_lww acc) \<Longrightarrow> fa_lww (foldl (fold_fragment ?bi) acc xs) =
        foldl (contend ?bi) (fa_lww acc) (concat (map contenders_in xs))
      \<and> bt_wf (fa_lww (foldl (fold_fragment ?bi) acc xs))" for acc xs
  proof (induction xs arbitrary: acc)
    case (Cons x xs)
    obtain i f where x: "x = (i, f)" by (cases x)
    note one = fold_fragment_lww[OF Cons.prems, of ?bi i f]
    note IH = Cons.IH[OF conjunct2[OF one]]
    from conjunct1[OF IH] conjunct2[OF IH] conjunct1[OF one] show ?case by (simp add: x)
  qed simp
  from this[of "empty_acc ?bi" "zip [0..<length frags] frags"]
  show "fa_lww (fold_fragments base frags) = foldl (contend ?bi) [] (contenders frags)"
    "bt_wf (fa_lww (fold_fragments base frags))"
    by (auto simp: fold_fragments_alt empty_acc_def contenders_def)
qed

subsection \<open>What the streams hold\<close>

lemma take_packet_spec:
  assumes "distinct (map packet_id_of ps)" and "None \<notin> packet_id_of ` set ps"
    and "\<forall>i. Some i \<in> packet_id_of ` set ps \<longrightarrow> i \<notin> known"
    and r: "r = foldl (take_packet known) ps qs"
  shows "distinct (map packet_id_of r)" "None \<notin> packet_id_of ` set r"
    "packet_id_of ` set r = packet_id_of ` set ps \<union> (packet_id_of ` set qs - {None} - Some ` known)"
    "set r \<subseteq> set ps \<union> set qs"
proof -
  from assms(1-3) have "distinct (map packet_id_of r) \<and> None \<notin> packet_id_of ` set r
    \<and> packet_id_of ` set r = packet_id_of ` set ps \<union> (packet_id_of ` set qs - {None} - Some ` known)
    \<and> set r \<subseteq> set ps \<union> set qs"
    unfolding r
  proof (induction qs arbitrary: ps)
    case (Cons a qs)
    show ?case
    proof (cases "packet_id_of a = None \<or> packet_id_of a \<in> Some ` known \<union> packet_id_of ` set ps")
      case True
      then have "take_packet known ps a = ps"
        by (cases "packet_id_of a") (auto simp: take_packet_def intro: rev_image_eqI)
      then have same: "foldl (take_packet known) ps (a # qs) = foldl (take_packet known) ps qs"
        by simp
      from True have "packet_id_of ` set ps \<union> (packet_id_of ` set (a # qs) - {None} - Some ` known) =
          packet_id_of ` set ps \<union> (packet_id_of ` set qs - {None} - Some ` known)"
        by auto
      moreover have "set qs \<subseteq> set (a # qs)" by auto
      ultimately show ?thesis unfolding same using Cons.IH[OF Cons.prems]
        by (metis order.trans sup.mono order_refl)
    next
      case False
      then obtain i where i: "packet_id_of a = Some i" "i \<notin> known" "Some i \<notin> packet_id_of ` set ps"
        by (cases "packet_id_of a") auto
      then have t: "take_packet known ps a = ps @ [a]" by (simp add: take_packet_def)
      from Cons.prems i have "distinct (map packet_id_of (ps @ [a]))"
        "None \<notin> packet_id_of ` set (ps @ [a])"
        "\<forall>i. Some i \<in> packet_id_of ` set (ps @ [a]) \<longrightarrow> i \<notin> known"
        by auto
      from Cons.IH[OF this] i t show ?thesis by auto
    qed
  qed auto
  then show "distinct (map packet_id_of r)" "None \<notin> packet_id_of ` set r"
    "packet_id_of ` set r = packet_id_of ` set ps \<union> (packet_id_of ` set qs - {None} - Some ` known)"
    "set r \<subseteq> set ps \<union> set qs"
    by auto
qed

lemma find_append: "find P (xs @ ys) = (case find P xs of None \<Rightarrow> find P ys | r \<Rightarrow> r)"
  by (induction xs) auto

text \<open>The first declaration of an id is the one that is kept.\<close>

lemma take_packet_first:
  assumes "find (\<lambda>p. packet_id_of p = Some i) ps = None"
    and "i \<notin> known"
  shows "find (\<lambda>p. packet_id_of p = Some i) (foldl (take_packet known) ps qs) =
    find (\<lambda>p. packet_id_of p = Some i) qs"
proof -
  have keep: "find (\<lambda>p. packet_id_of p = Some i) ps = Some q \<Longrightarrow>
      find (\<lambda>p. packet_id_of p = Some i) (foldl (take_packet known) ps qs) = Some q" for ps q qs
  proof (induction qs arbitrary: ps)
    case (Cons a qs)
    have "find (\<lambda>p. packet_id_of p = Some i) (take_packet known ps a) = Some q"
      using Cons.prems by (auto simp: take_packet_def find_append split: option.splits)
    from Cons.IH[OF this] show ?case by simp
  qed simp
  from assms(1) show ?thesis
  proof (induction qs arbitrary: ps)
    case (Cons a qs)
    show ?case
    proof (cases "packet_id_of a = Some i")
      case True
      from Cons.prems have "Some i \<notin> packet_id_of ` set ps"
        by (auto simp: find_None_iff)
      with True assms(2) Cons.prems
      have "find (\<lambda>p. packet_id_of p = Some i) (take_packet known ps a) = Some a"
        by (simp add: take_packet_def find_append)
      from keep[OF this] True show ?thesis by simp
    next
      case False
      with Cons.prems have "find (\<lambda>p. packet_id_of p = Some i) (take_packet known ps a) = None"
        by (auto simp: take_packet_def find_append split: option.splits)
      from Cons.IH[OF this] False show ?thesis by simp
    qed
  qed simp
qed

lemma take_event_spec:
  assumes "foldl take_event (seen, evs) es = (seen', evs')"
    and "distinct (map (case_prod event_identity) evs)"
    and "case_prod event_identity ` set evs \<subseteq> seen"
  shows "seen' = seen \<union> case_prod event_identity ` set es"
    "distinct (map (case_prod event_identity) evs')"
    "case_prod event_identity ` set evs' \<union> seen = seen'"
    "\<exists>new. evs' = evs @ new \<and> set new \<subseteq> set es \<and> case_prod event_identity ` set new \<inter> seen = {}"
proof -
  from assms have "seen' = seen \<union> case_prod event_identity ` set es
    \<and> distinct (map (case_prod event_identity) evs')
    \<and> case_prod event_identity ` set evs' \<union> seen = seen'
    \<and> (\<exists>new. evs' = evs @ new \<and> set new \<subseteq> set es \<and> case_prod event_identity ` set new \<inter> seen = {})"
  proof (induction es arbitrary: seen evs)
    case (Cons a es)
    obtain pid e where a: "a = (pid, e)" by (cases a)
    show ?case
    proof (cases "event_identity pid e \<in> seen")
      case True
      with Cons.prems a have "foldl take_event (seen, evs) es = (seen', evs')"
        by (simp add: take_event_def)
      from Cons.IH[OF this Cons.prems(2,3)] True a show ?thesis by auto
    next
      case False
      let ?s = "insert (event_identity pid e) seen" and ?e = "evs @ [a]"
      from Cons.prems False a have "foldl take_event (?s, ?e) es = (seen', evs')"
        by (simp add: take_event_def)
      note run = this
      from Cons.prems False a have "distinct (map (case_prod event_identity) ?e)" by auto
      note dist = this
      from Cons.prems a have "case_prod event_identity ` set ?e \<subseteq> ?s" by auto
      note IH = Cons.IH[OF run dist this]
      then obtain new where new: "evs' = evs @ (a # new)" "set new \<subseteq> set es"
        "case_prod event_identity ` set new \<inter> ?s = {}"
        by (metis append.assoc append_Cons append_Nil)
      have "set (a # new) \<subseteq> set (a # es)" using new(2) by auto
      moreover have "case_prod event_identity ` set (a # new) \<inter> seen = {}"
        using new(3) False a by auto
      moreover have "case_prod event_identity ` set evs' \<union> seen = seen'"
        using conjunct1[OF conjunct2[OF conjunct2[OF IH]]] new(1) a by auto
      moreover have "seen' = seen \<union> case_prod event_identity ` set (a # es)"
        using conjunct1[OF IH] a by auto
      ultimately show ?thesis using conjunct1[OF conjunct2[OF IH]] new(1) by blast
    qed
  qed auto
  then show "seen' = seen \<union> case_prod event_identity ` set es"
    "distinct (map (case_prod event_identity) evs')"
    "case_prod event_identity ` set evs' \<union> seen = seen'"
    "\<exists>new. evs' = evs @ new \<and> set new \<subseteq> set es \<and> case_prod event_identity ` set new \<inter> seen = {}"
    by auto
qed

text \<open>Each key's register sees only the writes for that key, in order.\<close>

lemma map_of_contend_all:
  "map_of (foldl (contend bi) m cs) k =
     foldl (contend_one bi) (map_of m k) (filter (\<lambda>c. c_key c = k) cs)"
  by (induction cs arbitrary: m) (auto simp: map_of_contend)

interpretation register: lww_register "\<lambda>a b. e_stamp b < e_stamp a" e_stamp
  by unfold_locales simp

lemma register_is_winner:
  assumes "\<forall>c \<in> set cs. \<not> c_laddered c"
  shows "foldl (contend_one bi) None cs = register.winner (map c_entry cs)"
proof -
  have "\<forall>c \<in> set cs. \<not> c_laddered c \<Longrightarrow>
      foldl (contend_one bi) cur cs = foldl register.take_in cur (map c_entry cs)" for cur
    by (induction cs arbitrary: cur)
      (auto simp: contend_one_def Let_def split: option.splits prod.splits)
  with assms show ?thesis by (simp add: register.winner_def)
qed

end
