(* ===== verification/Fold_Tree.thy ===== *)
theory Fold_Tree
  imports Fold_Stream
begin

text \<open>
  What \<open>append_packets\<close> and \<open>apply_to_packets\<close> do to the packets of a document, seen through
  \<open>collect_packets\<close>.
\<close>

definition update_packet ::
  "(string \<Rightarrow> yaml list) \<Rightarrow> (string \<Rightarrow> (string \<times> string \<times> yaml) list) \<Rightarrow> yaml \<Rightarrow> yaml" where
  "update_packet events lww p =
     (case p of YMapping m \<Rightarrow> YMapping (apply_packet events lww m) | _ \<Rightarrow> p)"

lemma contains_key_yinsert [simp]: "contains_key (yinsert k v m) j \<longleftrightarrow> k = YString j \<or> contains_key m j"
  by (auto simp: contains_key_def)

lemma contains_key_apply_field [simp]: "contains_key m k \<Longrightarrow> contains_key (apply_field m x) k"
  by (auto simp: apply_field_def Let_def split: prod.splits)

lemma contains_key_apply_fields [simp]: "contains_key m k \<Longrightarrow> contains_key (foldl apply_field m xs) k"
  by (induction xs arbitrary: m) auto

lemma contains_key_push [simp]: "contains_key m k \<Longrightarrow> contains_key (push_packet_events es m) k"
  by (auto simp: push_packet_events_def split: option.splits yaml.splits)

lemma contains_key_apply_packet [simp]:
  "contains_key m k \<Longrightarrow> contains_key (apply_packet events lww m) k"
  by (simp add: apply_packet_def Let_def)

lemma collect_apply:
  "collect_packets (apply_to_packets events lww d) = map (update_packet events lww) (collect_packets d)"
proof (induction events lww d rule: apply_to_packets.induct)
  case (1 events lww m)
  show ?case
  proof (cases "contains_key m ''packet_id''")
    case True
    then show ?thesis by (simp add: update_packet_def)
  next
    case False
    then have none: "\<not> contains_key (map (\<lambda>(k, v). (k, apply_to_packets events lww v)) m) ''packet_id''"
      by (simp add: contains_key_def map_of_map_snd)
    have "concat (map (\<lambda>(k, v). collect_packets v) (map (\<lambda>(k, v). (k, apply_to_packets events lww v)) m))
        = concat (map (\<lambda>(k, v). map (update_packet events lww) (collect_packets v)) m)"
      using 1[OF False] by (auto intro!: arg_cong[where f = concat])
    with False none show ?thesis by (simp add: map_concat comp_def case_prod_unfold)
  qed
next
  case (2 events lww s)
  then have "map (collect_packets \<circ> apply_to_packets events lww) s =
      map (\<lambda>v. map (update_packet events lww) (collect_packets v)) s"
    by auto
  then have "concat (map (collect_packets \<circ> apply_to_packets events lww) s) =
      concat (map (\<lambda>v. map (update_packet events lww) (collect_packets v)) s)"
    by (rule arg_cong)
  then show ?case by (simp add: map_concat comp_def)
qed auto

text \<open>Documents whose packets are items of sequences, never the value of a mapping key.\<close>

fun packets_in_sequences :: "yaml \<Rightarrow> bool" where
  "packets_in_sequences (YMapping m) \<longleftrightarrow>
     \<not> contains_key m ''packet_id'' \<and> list_all (\<lambda>(k, v). packets_in_sequences v) m"
| "packets_in_sequences (YSequence s) \<longleftrightarrow>
     list_ex (\<lambda>v. yget v ''packet_id'' \<noteq> None) s \<or> list_all packets_in_sequences s"
| "packets_in_sequences _ \<longleftrightarrow> True"

lemma update_first_Some:
  "update_first f xs = Some ys \<Longrightarrow>
     \<exists>a x y b. xs = a @ x # b \<and> ys = a @ y # b \<and> f x = Some y \<and> (\<forall>z \<in> set a. f z = None)"
proof (induction xs arbitrary: ys)
  case (Cons x xs)
  show ?case
  proof (cases "f x")
    case None
    with Cons.prems obtain zs where "update_first f xs = Some zs" "ys = x # zs" by auto
    with Cons.IH[of zs] None obtain a u v b where "xs = a @ u # b" "zs = a @ v # b" "f u = Some v"
      "\<forall>z \<in> set a. f z = None" by blast
    with None \<open>ys = x # zs\<close> show ?thesis
      by (intro exI[of _ "x # a"] exI[of _ u] exI[of _ v] exI[of _ b]) auto
  next
    case (Some y)
    with Cons.prems show ?thesis
      by (intro exI[of _ "[]"] exI[of _ x] exI[of _ y] exI[of _ xs]) auto
  qed
qed simp

lemma update_first_None: "update_first f xs = None \<longleftrightarrow> (\<forall>x \<in> set xs. f x = None)"
  by (induction xs) (auto split: option.splits)

definition inserted :: "'a list \<Rightarrow> 'a list \<Rightarrow> 'a list \<Rightarrow> bool" where
  "inserted new xs ys \<longleftrightarrow> (\<exists>a b. xs = a @ b \<and> ys = a @ new @ b)"

lemma inserted_context: "inserted new xs ys \<Longrightarrow> inserted new (p @ xs @ q) (p @ ys @ q)"
  unfolding inserted_def by (metis append.assoc)

lemma set_inserted: "inserted new xs ys \<Longrightarrow> set ys = set xs \<union> set new"
  by (auto simp: inserted_def)

lemma collect_all_packets: "\<forall>p \<in> set ps. is_packet p \<Longrightarrow> concat (map collect_packets ps) = ps"
  by (induction ps) auto

lemma extend_collect:
  assumes "extend_packet_sequence new d = Some d'" and "packets_in_sequences d"
    and "\<forall>p \<in> set new. is_packet p"
  shows "inserted new (collect_packets d) (collect_packets d')"
  using assms
proof (induction new d arbitrary: d' rule: extend_packet_sequence.induct)
  case (1 new s)
  note new = collect_all_packets[OF "1.prems"(3)]
  show ?case
  proof (cases "list_ex (\<lambda>v. yget v ''packet_id'' \<noteq> None) s")
    case True
    with "1.prems"(1) have "d' = YSequence (s @ new)" by simp
    with new have "collect_packets d' = collect_packets (YSequence s) @ new @ []" by simp
    then show ?thesis unfolding inserted_def by (metis append_Nil2)
  next
    case False
    with "1.prems"(1) obtain s' where s': "update_first (extend_packet_sequence new) s = Some s'"
      "d' = YSequence s'" by auto
    from update_first_Some[OF s'(1)] obtain a x y b where
      split: "s = a @ x # b" "s' = a @ y # b" "extend_packet_sequence new x = Some y" by blast
    from False "1.prems"(2) split(1) have "packets_in_sequences x" by auto
    with "1.IH"[OF False _ split(3)] "1.prems"(3) split(1)
    have "inserted new (collect_packets x) (collect_packets y)" by simp
    from inserted_context[OF this] show ?thesis by (simp add: s' split)
  qed
next
  case (2 new m)
  from "2.prems"(1) obtain m' where m': "update_first
      (\<lambda>(k, v). map_option (Pair k) (extend_packet_sequence new v)) m = Some m'" "d' = YMapping m'"
    by auto
  from update_first_Some[OF m'(1)] obtain a k v v' b where
    split: "m = a @ (k, v) # b" "m' = a @ (k, v') # b" "extend_packet_sequence new v = Some v'"
    by (auto split: prod.splits)
  from "2.prems"(2) split(1) have v: "packets_in_sequences v"
    and no: "\<not> contains_key m ''packet_id''" by auto
  from no split(1,2) have "\<not> contains_key m' ''packet_id''"
    by (auto simp: contains_key_def map_add_def split: option.splits if_splits)
  moreover from "2.IH"[of "(k, v)" k v v'] v split "2.prems"(3)
  have "inserted new (collect_packets v) (collect_packets v')" by simp
  from inserted_context[OF this]
  have "inserted new (concat (map (\<lambda>(k, v). collect_packets v) m))
      (concat (map (\<lambda>(k, v). collect_packets v) m'))"
    by (simp add: split)
  ultimately show ?case using no by (simp add: m'(2))
qed auto

lemma extend_none:
  "extend_packet_sequence new d = None \<Longrightarrow> packets_in_sequences d \<Longrightarrow> collect_packets d = []"
proof (induction new d rule: extend_packet_sequence.induct)
  case (1 new s)
  then have "\<not> list_ex (\<lambda>v. yget v ''packet_id'' \<noteq> None) s"
    "\<forall>x \<in> set s. extend_packet_sequence new x = None"
    by (auto split: if_splits simp: update_first_None)
  with 1 show ?case by (auto simp: list_all_iff)
next
  case (2 new m)
  then have "\<forall>(k, v) \<in> set m. extend_packet_sequence new v = None"
    by (auto simp: update_first_None)
  with 2 show ?case by (fastforce simp: list_all_iff)
qed auto

text \<open>
  The two shapes of a base on which no declared packet can be lost: some sequence of packets
  exists, or the base is a mapping that a \<open>packets:\<close> key can be added to.
\<close>

definition accepts_packets :: "yaml \<Rightarrow> bool" where
  "accepts_packets d \<longleftrightarrow>
     packets_in_sequences d \<and> (collect_packets d \<noteq> [] \<or> as_mapping d \<noteq> None)"

lemma concat_yinsert:
  assumes "concat (map (\<lambda>(k, v). f v) m) = []"
  shows "concat (map (\<lambda>(k, v). f v) (yinsert k v m)) = f v"
proof -
  from assms have "\<forall>(k, v) \<in> set m. f v = []" by auto
  then show ?thesis by (induction k v m rule: yinsert.induct) auto
qed

lemma collect_yinsert_packets:
  assumes "\<not> contains_key m ''packet_id''" and "concat (map (\<lambda>(k, v). collect_packets v) m) = []"
    and "\<forall>p \<in> set new. is_packet p"
  shows "collect_packets (YMapping (yinsert (YString ''packets'') (YSequence new) m)) = new"
proof -
  have new: "collect_packets (YSequence new) = new"
    by (simp add: collect_all_packets assms(3))
  from concat_yinsert[OF assms(2), of "YString ''packets''" "YSequence new"] assms(1) new
  show ?thesis by simp
qed

lemma append_collect:
  assumes "accepts_packets d" and "\<forall>p \<in> set new. is_packet p"
  shows "inserted new (collect_packets d) (collect_packets (append_packets d new))"
proof (cases "new = []")
  case True
  then show ?thesis by (auto simp: append_packets_def inserted_def)
next
  case False
  show ?thesis
  proof (cases "extend_packet_sequence new d")
    case (Some d')
    with extend_collect[OF this] assms False show ?thesis
      by (simp add: append_packets_def accepts_packets_def)
  next
    case None
    with extend_none[OF this] assms(1) obtain m where m: "d = YMapping m" "collect_packets d = []"
      "\<not> contains_key m ''packet_id''"
      by (auto simp: accepts_packets_def)
    from None False m(1) have "append_packets d new =
        YMapping (yinsert (YString ''packets'') (YSequence new) m)"
      by (simp add: append_packets_def del: extend_packet_sequence.simps)
    with collect_yinsert_packets[OF m(3) _ assms(2)] m(1-3)
    have "collect_packets (append_packets d new) = [] @ new @ []" by simp
    with m(2) show ?thesis unfolding inserted_def by (metis append_Nil)
  qed
qed

end
