(* ===== verification/Fold_Lookup.thy ===== *)
theory Fold_Lookup
  imports Fold_Tree
begin

text \<open>
  The packets of a folded ledger, field by field: which packets there are, and what each of them
  holds in terms of the base and the three streams.
\<close>

lemma set_map_filter: "set (List.map_filter f xs) = {y. \<exists>x \<in> set xs. f x = Some y}"
  by (induction xs) (auto simp: List.map_filter_simps split: option.splits)

subsection \<open>The index of the base\<close>

lemma index_packets_spec:
  defines "ix \<equiv> \<lambda>bi ps. foldl index_packet bi ps"
  shows "bi_packets (ix bi ps) = bi_packets bi \<union> {i. Some i \<in> packet_id_of ` set ps}"
    and "bi_seen (ix bi ps) = bi_seen bi
      \<union> {event_identity i e | i e p. p \<in> set ps \<and> packet_id_of p = Some i \<and> e \<in> set (packet_events p)}"
    and "bi_by_id (ix bi ps) i =
      (case find (\<lambda>p. packet_id_of p = Some i) (rev ps) of Some p \<Rightarrow> Some p | None \<Rightarrow> bi_by_id bi i)"
proof -
  show "bi_packets (ix bi ps) = bi_packets bi \<union> {i. Some i \<in> packet_id_of ` set ps}"
    unfolding ix_def
    by (induction ps arbitrary: bi) (auto simp: index_packet_def packet_id_of_def image_iff
        split: option.splits)
  show "bi_seen (ix bi ps) = bi_seen bi
      \<union> {event_identity i e | i e p. p \<in> set ps \<and> packet_id_of p = Some i \<and> e \<in> set (packet_events p)}"
    unfolding ix_def
  proof (induction ps arbitrary: bi)
    case (Cons p ps)
    have "bi_seen (index_packet bi p) = bi_seen bi
        \<union> {event_identity i e | i e. packet_id_of p = Some i \<and> e \<in> set (packet_events p)}"
      by (auto simp: index_packet_def packet_id_of_def split: option.splits)
    then show ?case by (auto simp: Cons.IH)
  qed simp
  show "bi_by_id (ix bi ps) i =
      (case find (\<lambda>p. packet_id_of p = Some i) (rev ps) of Some p \<Rightarrow> Some p | None \<Rightarrow> bi_by_id bi i)"
    unfolding ix_def
    by (induction ps arbitrary: bi)
      (auto simp: find_append index_packet_def packet_id_of_def split: option.splits)
qed

definition packet_ids :: "yaml \<Rightarrow> string set" where
  "packet_ids d = {i. Some i \<in> packet_id_of ` set (collect_packets d)}"

definition event_ids :: "yaml \<Rightarrow> string set" where
  "event_ids d = {event_identity i e | i e p. p \<in> set (collect_packets d) \<and> packet_id_of p = Some i
     \<and> e \<in> set (packet_events p)}"

lemma index_base_spec [simp]:
  "bi_packets (index_base d) = packet_ids d"
  "bi_seen (index_base d) = event_ids d"
  "bi_by_id (index_base d) i = find (\<lambda>p. packet_id_of p = Some i) (rev (collect_packets d))"
  by (auto simp: index_base_def index_packets_spec packet_ids_def event_ids_def split: option.splits)

lemma identities_of_spec:
  "fi_ids (folded_identities_of d) = packet_ids d"
  "fi_events (folded_identities_of d) = event_ids d"
proof -
  have ps: "set (List.map_filter (\<lambda>p. map_option (\<lambda>i. (i, p)) (get_str p ''packet_id'')) xs) =
      {(i, p). p \<in> set xs \<and> packet_id_of p = Some i}" for xs
    by (auto simp: set_map_filter packet_id_of_def)
  then show "fi_ids (folded_identities_of d) = packet_ids d"
    by (force simp: folded_identities_of_def packet_ids_def Let_def image_iff)
  show "fi_events (folded_identities_of d) = event_ids d"
    by (auto simp: folded_identities_of_def event_ids_def Let_def ps)
qed

subsection \<open>Grouping\<close>

lemma group_events_spec: "group_events evs pid = map snd (filter (\<lambda>pe. fst pe = pid) evs)"
proof -
  have "foldl (\<lambda>g (pid, e). g(pid := g pid @ [e])) g evs pid =
      g pid @ map snd (filter (\<lambda>pe. fst pe = pid) evs)" for g
    by (induction evs arbitrary: g) auto
  then show ?thesis by (simp add: group_events_def)
qed

definition decode_lww :: "string \<Rightarrow> string \<times> lww_entry \<Rightarrow> (string \<times> string \<times> yaml) option" where
  "decode_lww pid = (\<lambda>(key, (ts, _, value, _)).
     (case split_once sep key of
        None \<Rightarrow> None
      | Some (p, field) \<Rightarrow> if p = pid then Some (field, ts, value) else None))"

lemma group_lww_spec: "group_lww lww pid = List.map_filter (decode_lww pid) lww"
proof -
  have "foldl (\<lambda>g (key, (ts, _, value, _)).
         (case split_once sep key of
            None \<Rightarrow> g
          | Some (pid, field) \<Rightarrow> g(pid := g pid @ [(field, ts, value)]))) g lww pid =
      g pid @ List.map_filter (decode_lww pid) lww" for g
    by (induction lww arbitrary: g)
      (auto simp: List.map_filter_simps decode_lww_def split: option.splits)
  then show ?thesis by (simp add: group_lww_def)
qed

lemma split_lww_key: "sep \<notin> set pid \<Longrightarrow> split_once sep (lww_key pid f) = Some (pid, f)"
  using split_once_append[of sep pid f] by (simp add: lww_key_def)

lemma lww_key_inj:
  "sep \<notin> set pid \<Longrightarrow> sep \<notin> set pid' \<Longrightarrow> lww_key pid f = lww_key pid' f' \<longleftrightarrow> pid = pid' \<and> f = f'"
  by (metis split_lww_key option.inject prod.inject)

lemma split_once_key: "split_once sep k = Some (p, f) \<Longrightarrow> k = lww_key p f \<and> sep \<notin> set p"
  using split_once_Some[of sep k p f] by (simp add: lww_key_def)

lemma decode_lww_Some:
  "decode_lww pid (k, (ts', h, v', i)) = Some (f, ts, v) \<longleftrightarrow>
     sep \<notin> set pid \<and> k = lww_key pid f \<and> ts' = ts \<and> v' = v"
proof (cases "split_once sep k")
  case None
  then have "sep \<notin> set pid \<Longrightarrow> k \<noteq> lww_key pid f" using split_lww_key by fastforce
  with None show ?thesis unfolding decode_lww_def by simp blast
next
  case (Some pf)
  obtain p g where pf: "pf = (p, g)" by (cases pf)
  with Some have k: "k = lww_key p g" "sep \<notin> set p" using split_once_key by simp_all
  have "decode_lww pid (k, (ts', h, v', i)) = (if p = pid then Some (g, ts', v') else None)"
    by (simp add: decode_lww_def Some pf)
  moreover have "sep \<notin> set pid \<Longrightarrow> k = lww_key pid f \<longleftrightarrow> p = pid \<and> g = f"
    unfolding k(1) by (rule lww_key_inj[OF k(2)])
  ultimately show ?thesis using k(2) by (cases "p = pid") auto
qed

lemma in_group_lww:
  "(f, ts, v) \<in> set (group_lww lww pid) \<longleftrightarrow>
     sep \<notin> set pid \<and> (\<exists>h i. (lww_key pid f, (ts, h, v, i)) \<in> set lww)"
proof -
  have "(f, ts, v) \<in> set (group_lww lww pid) \<longleftrightarrow>
      (\<exists>k ts' h v' i. (k, (ts', h, v', i)) \<in> set lww
        \<and> decode_lww pid (k, (ts', h, v', i)) = Some (f, ts, v))"
    by (simp add: group_lww_spec set_map_filter Bex_def split_paired_Ex)
  then show ?thesis unfolding decode_lww_Some by blast
qed

lemma distinct_group_lww:
  assumes "distinct (map fst lww)"
  shows "distinct (map fst (group_lww lww pid))"
  using assms unfolding group_lww_spec
proof (induction lww)
  case (Cons x lww)
  obtain k e where x: "x = (k, e)" by (cases x)
  have "f \<notin> fst ` set (List.map_filter (decode_lww pid) lww)" if "decode_lww pid x = Some (f, r)" for f r
  proof
    assume "f \<in> fst ` set (List.map_filter (decode_lww pid) lww)"
    then obtain k' e' r' where "(k', e') \<in> set lww" "decode_lww pid (k', e') = Some (f, r')"
      by (auto simp: set_map_filter)
    moreover from this that x have "k' = lww_key pid f" "k = lww_key pid f"
      by (cases e', cases e, cases r', cases r, simp add: decode_lww_Some)+
    ultimately show False using Cons.prems x by force
  qed
  with Cons x show ?case by (auto simp: List.map_filter_simps split: option.splits)
qed (simp add: List.map_filter_simps)

subsection \<open>Fields of an updated packet\<close>

lemma map_of_apply_fields:
  assumes "distinct (map fst ws)" and "f \<noteq> ''next_action_ts''"
  shows "map_of (foldl apply_field m ws) (YString f) =
    (case map_of ws f of Some (_, v) \<Rightarrow> Some v | None \<Rightarrow> map_of m (YString f))"
  using assms
proof (induction ws arbitrary: m)
  case (Cons w ws)
  obtain g ts v where w: "w = (g, ts, v)" by (cases w)
  have "map_of (apply_field m w) (YString f) = (if f = g then Some v else map_of m (YString f))"
    using Cons.prems(2) by (auto simp: apply_field_def w Let_def)
  moreover have "g = f \<Longrightarrow> map_of ws f = None"
    using Cons.prems(1) w by (auto simp: map_of_eq_None_iff)
  ultimately show ?case using Cons.IH[of "apply_field m w"] Cons.prems w
    by (auto split: option.splits)
qed simp

lemma map_of_push_events:
  "f \<noteq> ''events'' \<Longrightarrow> map_of (push_packet_events es m) (YString f) = map_of m (YString f)"
  by (auto simp: push_packet_events_def split: option.splits yaml.splits)

definition register_of :: "(string, lww_entry) btmap \<Rightarrow> string \<Rightarrow> string \<Rightarrow> lww_entry option" where
  "register_of lww pid f = (if sep \<in> set pid then None else map_of lww (lww_key pid f))"

lemma map_of_group_lww:
  assumes "distinct (map fst lww)"
  shows "map_of (group_lww lww pid) f =
    map_option (\<lambda>(ts, h, v, i). (ts, v)) (register_of lww pid f)"
proof (cases "register_of lww pid f")
  case None
  have "f \<notin> fst ` set (group_lww lww pid)"
  proof
    assume "f \<in> fst ` set (group_lww lww pid)"
    then obtain ts v where "(f, ts, v) \<in> set (group_lww lww pid)" by auto
    with None assms show False
      by (auto simp: in_group_lww register_of_def map_of_eq_None_iff split: if_splits) force
  qed
  with None show ?thesis by (simp add: map_of_eq_None_iff)
next
  case (Some e)
  obtain ts h v i where e: "e = (ts, h, v, i)" by (cases e)
  from Some e have "(f, ts, v) \<in> set (group_lww lww pid)"
    by (auto simp: in_group_lww register_of_def split: if_splits dest: map_of_SomeD)
  with distinct_group_lww[OF assms] Some e show ?thesis
    by (simp add: map_of_is_SomeI)
qed

definition id_or_empty :: "yaml \<Rightarrow> string" where
  "id_or_empty p = unwrap_or [] (packet_id_of p)"

lemma yget_update_packet:
  assumes "is_packet p" and "distinct (map fst lww)"
    and "f \<noteq> ''events''" and "f \<noteq> ''next_action_ts''"
  shows "yget (update_packet es (group_lww lww) p) f =
    (case register_of lww (id_or_empty p) f of
       Some e \<Rightarrow> Some (e_value e) | None \<Rightarrow> yget p f)"
proof -
  from assms(1) obtain m where m: "p = YMapping m" by (cases p) (auto simp: is_packet_def)
  have i: "unwrap_or [] (Option.bind (map_of m (YString ''packet_id'')) as_str) = id_or_empty p"
    by (simp add: id_or_empty_def packet_id_of_def get_str_def m)
  show ?thesis
    using assms(3,4) distinct_group_lww[OF assms(2)]
    by (simp add: m update_packet_def apply_packet_def Let_def i[unfolded m] map_of_push_events
        map_of_apply_fields map_of_group_lww[OF assms(2)] e_value_def split: option.splits prod.splits)
qed

end
