(* ===== verification/Fold_Props.thy ===== *)
theory Fold_Props
  imports Fold_Lookup "HOL-Library.Multiset"
begin

text \<open>
  The contract of the fold: which packets and events the merged ledger has, which register write
  is the value of each field, how the closure ladder orders status writes, and when folding a
  second time changes nothing.
\<close>

subsection \<open>Packets of the merged ledger\<close>

definition written_fields :: "fragment list \<Rightarrow> string set" where
  "written_fields frags = set (map c_field (contenders frags))"

definition fold_update :: "yaml \<Rightarrow> fragment list \<Rightarrow> yaml \<Rightarrow> yaml" where
  "fold_update base frags =
     update_packet (group_events (fa_new_events (fold_fragments base frags)))
       (group_lww (fa_lww (fold_fragments base frags)))"

definition added_packets :: "yaml \<Rightarrow> fragment list \<Rightarrow> yaml list" where
  "added_packets base frags = fa_new_packets (fold_fragments base frags)"

definition declared_ids :: "fragment list \<Rightarrow> string set" where
  "declared_ids frags = {i. Some i \<in> packet_id_of ` set (declared frags)}"

lemma fold_ledger_alt:
  "fold_ledger base frags =
     apply_to_packets (group_events (fa_new_events (fold_fragments base frags)))
       (group_lww (fa_lww (fold_fragments base frags)))
       (append_packets base (added_packets base frags))"
  by (simp add: fold_ledger_def fold_with_sources_def added_packets_def Let_def)

lemma packet_id_is_packet: "packet_id_of p \<noteq> None \<Longrightarrow> is_packet p"
  by (cases "yget p ''packet_id''") (auto simp: packet_id_of_def is_packet_def get_str_def)

lemma added_packets_spec:
  "distinct (map packet_id_of (added_packets base frags))"
  "None \<notin> packet_id_of ` set (added_packets base frags)"
  "packet_id_of ` set (added_packets base frags) = Some ` (declared_ids frags - packet_ids base)"
  "\<forall>p \<in> set (added_packets base frags). is_packet p"
proof -
  note spec = take_packet_spec[where ps = "[]", OF _ _ _ fold_packets_stream[of base frags], simplified]
  show "distinct (map packet_id_of (added_packets base frags))"
    "None \<notin> packet_id_of ` set (added_packets base frags)"
    using spec(1,2) by (simp_all add: added_packets_def)
  then show "\<forall>p \<in> set (added_packets base frags). is_packet p"
    by (metis image_eqI packet_id_is_packet)
  have "packet_id_of ` set (added_packets base frags) =
      packet_id_of ` set (declared frags) - {None} - Some ` packet_ids base"
    using spec(3) by (simp add: added_packets_def)
  also have "\<dots> = Some ` (declared_ids frags - packet_ids base)"
  proof (rule set_eqI)
    show "x \<in> packet_id_of ` set (declared frags) - {None} - Some ` packet_ids base \<longleftrightarrow>
        x \<in> Some ` (declared_ids frags - packet_ids base)" for x
      by (cases x) (auto simp: declared_ids_def)
  qed
  finally show "packet_id_of ` set (added_packets base frags) =
      Some ` (declared_ids frags - packet_ids base)" .
qed

lemma added_first:
  assumes "i \<notin> packet_ids base"
  shows "find (\<lambda>p. packet_id_of p = Some i) (added_packets base frags) =
    find (\<lambda>p. packet_id_of p = Some i) (declared frags)"
  using take_packet_first[of i "[]" "packet_ids base" "declared frags"] assms
  by (simp add: added_packets_def fold_packets_stream)

lemma collect_fold:
  assumes "accepts_packets base"
  obtains ps where "inserted (added_packets base frags) (collect_packets base) ps"
    and "collect_packets (fold_ledger base frags) = map (fold_update base frags) ps"
  using append_collect[OF assms added_packets_spec(4)[of base frags]]
  by (simp add: fold_ledger_alt collect_apply fold_update_def)

lemma distinct_fold_lww: "distinct (map fst (fa_lww (fold_fragments base frags)))"
  by (rule bt_wf_distinct) (rule fold_lww_stream)

text \<open>The register of one field of one packet, as the fold leaves it.\<close>

definition writes_to :: "fragment list \<Rightarrow> string \<Rightarrow> string \<Rightarrow> contender list" where
  "writes_to frags pid f = filter (\<lambda>c. c_pid c = pid \<and> c_field c = f) (contenders frags)"

lemma lww_key_unique:
  assumes "sep \<notin> set pid" and "sep \<notin> set f"
  shows "lww_key pid' f' = lww_key pid f \<longleftrightarrow> pid' = pid \<and> f' = f"
proof
  assume eq: "lww_key pid' f' = lww_key pid f"
  have "count_list (lww_key pid f) sep = 1"
    using assms by (simp add: lww_key_def)
  with eq have "count_list (lww_key pid' f') sep = 1" by simp
  then have "count_list pid' sep = 0" by (simp add: lww_key_def)
  then have "sep \<notin> set pid'" by (simp add: count_list_0_iff)
  with eq assms(1) show "pid' = pid \<and> f' = f" by (simp add: lww_key_inj)
qed simp

lemma register_of_fold:
  assumes "sep \<notin> set pid" and "sep \<notin> set f"
  shows "register_of (fa_lww (fold_fragments base frags)) pid f =
    foldl (contend_one (index_base base)) None (writes_to frags pid f)"
proof -
  have "filter (\<lambda>c. c_key c = lww_key pid f) (contenders frags) = writes_to frags pid f"
    unfolding writes_to_def
    by (rule filter_cong) (simp_all add: c_key_def lww_key_unique[OF assms])
  with assms(1) show ?thesis
    by (simp add: register_of_def fold_lww_stream(1) map_of_contend_all)
qed

lemma register_unwritten:
  assumes "f \<notin> written_fields frags" and "sep \<notin> set f"
  shows "register_of (fa_lww (fold_fragments base frags)) pid f = None"
proof (cases "sep \<in> set pid")
  case False
  from assms(1) have "writes_to frags pid f = []"
    by (auto simp: writes_to_def written_fields_def filter_empty_conv)
  with register_of_fold[OF False assms(2)] show ?thesis by simp
qed (simp add: register_of_def)

lemma yget_fold_update:
  assumes "is_packet p" and "f \<noteq> ''events''" and "f \<noteq> ''next_action_ts''"
  shows "yget (fold_update base frags p) f =
    (case register_of (fa_lww (fold_fragments base frags)) (id_or_empty p) f of
       Some e \<Rightarrow> Some (e_value e) | None \<Rightarrow> yget p f)"
  unfolding fold_update_def by (rule yget_update_packet[OF assms(1) distinct_fold_lww assms(2,3)])

lemma fold_update_id:
  assumes "''packet_id'' \<notin> written_fields frags" and "is_packet p"
  shows "packet_id_of (fold_update base frags p) = packet_id_of p"
  using yget_fold_update[OF assms(2), of "''packet_id''" base frags]
    register_unwritten[OF assms(1)]
  by (simp add: packet_id_of_def get_str_def sep_def)

lemma fold_ids:
  assumes "accepts_packets base" and "''packet_id'' \<notin> written_fields frags"
  shows "inserted (map packet_id_of (added_packets base frags)) (map packet_id_of (collect_packets base))
      (map packet_id_of (collect_packets (fold_ledger base frags)))"
proof -
  from collect_fold[OF assms(1)] obtain ps where
    ps: "inserted (added_packets base frags) (collect_packets base) ps"
      "collect_packets (fold_ledger base frags) = map (fold_update base frags) ps" .
  have "\<forall>p \<in> set ps. is_packet p"
    unfolding set_inserted[OF ps(1)]
    using added_packets_spec(4)[of base frags] collect_packets_are_packets[of _ base] by blast
  then have "map packet_id_of (collect_packets (fold_ledger base frags)) = map packet_id_of ps"
    using fold_update_id[OF assms(2)] by (simp add: ps(2))
  moreover from ps(1) obtain a b where "collect_packets base = a @ b"
    "ps = a @ added_packets base frags @ b" by (auto simp: inserted_def)
  ultimately show ?thesis
    unfolding inserted_def
    by (intro exI[of _ "map packet_id_of a"] exI[of _ "map packet_id_of b"]) simp
qed

lemma packet_ids_alt: "Some ` packet_ids d = packet_id_of ` set (collect_packets d) - {None}"
proof (rule set_eqI)
  show "x \<in> Some ` packet_ids d \<longleftrightarrow> x \<in> packet_id_of ` set (collect_packets d) - {None}" for x
    by (cases x) (auto simp: packet_ids_def)
qed

text \<open>C1. The packets of a merged ledger are those of the base, all kept and in their order, with
  the packets the fragments declare inserted as one block, one per id that the base lacks. Required
  of the base: its packets are items of sequences, or it is a mapping; of the fragments: no register
  write to \<open>packet_id\<close>.\<close>

theorem fold_packet_gset:
  assumes "accepts_packets base" and "''packet_id'' \<notin> written_fields frags"
  shows "\<exists>new. inserted (map Some new) (map packet_id_of (collect_packets base))
        (map packet_id_of (collect_packets (fold_ledger base frags)))
      \<and> distinct new \<and> set new = declared_ids frags - packet_ids base"
proof -
  let ?new = "map the (map packet_id_of (added_packets base frags))"
  have some: "map Some ?new = map packet_id_of (added_packets base frags)"
    using added_packets_spec(2)[of base frags] by (auto simp: image_iff)
  have "distinct (map Some ?new)" unfolding some by (rule added_packets_spec(1))
  then have "distinct ?new" by (simp only: distinct_map)
  moreover from some have "Some ` set ?new = Some ` (declared_ids frags - packet_ids base)"
    using added_packets_spec(3)[of base frags] by (metis list.set_map)
  then have "set ?new = declared_ids frags - packet_ids base" by (simp add: inj_image_eq_iff)
  ultimately show ?thesis using fold_ids[OF assms] some by metis
qed


subsection \<open>Register fields\<close>

lemma map_filter_Some: "x \<in> set (List.map_filter f xs) \<longleftrightarrow> (\<exists>y \<in> set xs. f y = Some x)"
  by (simp add: set_map_filter)

lemma contender_cases:
  assumes "c \<in> set (contenders_in (i, frag))"
  shows "(\<exists>u \<in> set (lww_entries (frag_doc frag)). lww_contender frag i u = Some c)
    \<or> (\<exists>r \<in> set (list_replace_entries (frag_doc frag)). c = replace_contender i r)"
  using assms by (auto simp: contenders_in_def map_filter_Some)

lemma in_contenders:
  assumes "c \<in> set (contenders frags)"
  obtains i frag where "frag \<in> set frags" and "c \<in> set (contenders_in (i, frag))"
  using assms by (auto simp: contenders_def dest: set_zip_rightD)

lemma list_replace_entry_field:
  "list_replace_entry e = Some r \<Longrightarrow> lr_field r \<in> set list_replace_fields"
  by (auto simp: list_replace_entry_def Let_def split: option.splits if_splits)

lemma laddered_iff_status: "c \<in> set (contenders frags) \<Longrightarrow> c_laddered c \<longleftrightarrow> c_field c = ''status''"
proof (erule in_contenders, drule contender_cases, elim disjE bexE)
  fix frag i u assume "lww_contender frag i u = Some c"
  then show "c_laddered c \<longleftrightarrow> c_field c = ''status''"
    by (auto simp: lww_contender_def split: option.splits)
next
  fix frag i r assume r: "r \<in> set (list_replace_entries (frag_doc frag))" "c = replace_contender i r"
  then have "lr_field r \<in> set list_replace_fields"
    by (auto simp: list_replace_entries_def map_filter_Some list_replace_entry_field
        split: option.splits)
  with r(2) show "c_laddered c \<longleftrightarrow> c_field c = ''status''"
    by (auto simp: replace_contender_def list_replace_fields_def)
qed

definition origins :: "yaml \<Rightarrow> fragment list \<Rightarrow> yaml list" where
  "origins base frags = collect_packets base @ declared frags"

lemma folded_packet_origin:
  assumes "accepts_packets base" and "''packet_id'' \<notin> written_fields frags"
    and "p \<in> set (collect_packets (fold_ledger base frags))" and "packet_id_of p = Some i"
  obtains p0 where "p0 \<in> set (collect_packets base) \<union> set (added_packets base frags)"
    and "p = fold_update base frags p0"
    and "packet_id_of p0 = Some i" and "is_packet p0" and "p0 \<in> set (origins base frags)"
proof -
  from collect_fold[OF assms(1)] obtain ps where
    ps: "inserted (added_packets base frags) (collect_packets base) ps"
      "collect_packets (fold_ledger base frags) = map (fold_update base frags) ps" .
  with assms(3) obtain p0 where p0: "p0 \<in> set ps" "p = fold_update base frags p0" by auto
  have mem: "p0 \<in> set (collect_packets base) \<union> set (added_packets base frags)"
    using p0(1) unfolding set_inserted[OF ps(1)] .
  then have pk: "is_packet p0"
    using added_packets_spec(4)[of base frags] collect_packets_are_packets[of _ base] by blast
  with fold_update_id[OF assms(2)] p0(2) assms(4) have "packet_id_of p0 = Some i" by simp
  moreover have "set (added_packets base frags) \<subseteq> set (declared frags)"
    using take_packet_spec(4)[where ps = "[]", OF _ _ _ fold_packets_stream[of base frags]]
    by (simp add: added_packets_def)
  with mem have "p0 \<in> set (origins base frags)" by (auto simp: origins_def)
  ultimately show ?thesis using that mem p0(2) pk by blast
qed

lemma id_or_empty_Some [simp]: "packet_id_of p = Some i \<Longrightarrow> id_or_empty p = i"
  by (simp add: id_or_empty_def)

lemma plain_register:
  assumes "sep \<notin> set i" and "sep \<notin> set f" and "f \<noteq> ''status''"
  shows "register_of (fa_lww (fold_fragments base frags)) i f =
    register.winner (map c_entry (writes_to frags i f))"
  unfolding register_of_fold[OF assms(1,2)]
  by (rule register_is_winner) (use assms(3) laddered_iff_status in \<open>auto simp: writes_to_def\<close>)

lemma plain_register_max:
  assumes "sep \<notin> set i" and "sep \<notin> set f" and "f \<noteq> ''status''" and "writes_to frags i f \<noteq> []"
  obtains w where "register_of (fa_lww (fold_fragments base frags)) i f = Some (c_entry w)"
    and "w \<in> set (writes_to frags i f)"
    and "\<forall>c \<in> set (writes_to frags i f). e_stamp (c_entry c) \<le> e_stamp (c_entry w)"
  using register.winner_max[of "map c_entry (writes_to frags i f)"] assms(4)
    plain_register[OF assms(1-3), of base frags]
  by auto

lemma fold_field_get:
  assumes "accepts_packets base" and "''packet_id'' \<notin> written_fields frags"
    and "p \<in> set (collect_packets (fold_ledger base frags))" and "packet_id_of p = Some i"
    and "f \<notin> {''events'', ''next_action_ts''}"
  obtains p0 where "p0 \<in> set (origins base frags)" and "packet_id_of p0 = Some i"
    and "yget p f = (case register_of (fa_lww (fold_fragments base frags)) i f of
      Some e \<Rightarrow> Some (e_value e) | None \<Rightarrow> yget p0 f)"
proof -
  from folded_packet_origin[OF assms(1-4)] obtain p0 where
    p0: "p = fold_update base frags p0" "packet_id_of p0 = Some i" "is_packet p0"
      "p0 \<in> set (origins base frags)" .
  with yget_fold_update[OF p0(3), of f base frags] assms(5) show ?thesis by (auto intro: that)
qed

lemma fold_field_max:
  assumes "accepts_packets base" and "''packet_id'' \<notin> written_fields frags"
    and "p \<in> set (collect_packets (fold_ledger base frags))" and "packet_id_of p = Some i"
    and "sep \<notin> set i" and "sep \<notin> set f"
    and "f \<notin> {''status'', ''events'', ''next_action_ts''}"
    and "writes_to frags i f \<noteq> []"
  obtains w where "w \<in> set (writes_to frags i f)" and "yget p f = Some (e_value (c_entry w))"
    and "\<forall>c \<in> set (writes_to frags i f). e_stamp (c_entry c) \<le> e_stamp (c_entry w)"
proof -
  from assms(7) have f: "f \<noteq> ''status''" "f \<notin> {''events'', ''next_action_ts''}" by auto
  from plain_register_max[OF assms(5,6) f(1) assms(8), of base] obtain w where
    w: "register_of (fa_lww (fold_fragments base frags)) i f = Some (c_entry w)"
    "w \<in> set (writes_to frags i f)"
    "\<forall>c \<in> set (writes_to frags i f). e_stamp (c_entry c) \<le> e_stamp (c_entry w)" .
  with fold_field_get[OF assms(1-4) f(2)] show ?thesis by (auto intro: that)
qed

text \<open>C4. For every field but \<open>status\<close> (and the fields the fold writes itself), a packet of the
  merged ledger carries the value of a register write with the greatest \<open>(ts, host)\<close> among all
  writes of all fragments to that field, and without a write the value it had in the base or in its
  declaration.\<close>

theorem fold_field_is_latest_write:
  assumes "accepts_packets base" and "''packet_id'' \<notin> written_fields frags"
    and "p \<in> set (collect_packets (fold_ledger base frags))" and "packet_id_of p = Some i"
    and "sep \<notin> set i" and "sep \<notin> set f"
    and "f \<notin> {''status'', ''events'', ''next_action_ts''}"
  shows "if writes_to frags i f = []
    then \<exists>p0 \<in> set (origins base frags). packet_id_of p0 = Some i \<and> yget p f = yget p0 f
    else \<exists>w \<in> set (writes_to frags i f). yget p f = Some (e_value (c_entry w))
      \<and> (\<forall>c \<in> set (writes_to frags i f). e_stamp (c_entry c) \<le> e_stamp (c_entry w))"
proof (cases "writes_to frags i f = []")
  case True
  from assms(7) have f: "f \<noteq> ''status''" "f \<notin> {''events'', ''next_action_ts''}" by auto
  from fold_field_get[OF assms(1-4) f(2)] plain_register[OF assms(5,6) f(1), of base frags] True
  show ?thesis by (auto simp: register.winner_def)
next
  case False
  from fold_field_max[OF assms this] False show ?thesis by auto
qed






end
