(* ===== verification/Fold_Status.thy ===== *)
theory Fold_Status
  imports Fold_Props
begin

text \<open>
  Status writes under the closure ladder. Without falsifications and without the lateral values
  \<open>obsoleted\<close> and \<open>failed\<close>, the status register is a last-writer-wins register whose stamp is the
  triple (rung, ts, host) and whose first entry is the base status with the empty stamp.
\<close>

definition ladder_stamp :: "lww_entry \<Rightarrow> nat \<times> string \<times> string" where
  "ladder_stamp e = (ladder_height (unwrap_or [] (as_str (e_value e))), e_stamp e)"

interpretation ladder: lww_register "\<lambda>a b. ladder_stamp b < ladder_stamp a" ladder_stamp
  by unfold_locales simp

text \<open>A status write that is a plain move on the ladder.\<close>

definition plain_move :: "contender \<Rightarrow> bool" where
  "plain_move c \<longleftrightarrow> \<not> c_falsified c
     \<and> (case as_str (e_value (c_entry c)) of None \<Rightarrow> False | Some s \<Rightarrow> \<not> is_lateral s)"

definition incumbent :: "string \<Rightarrow> lww_entry" where
  "incumbent s = ([], [], YString s, 0)"

lemma status_wins_iff_stamp:
  assumes "as_str (e_value e) = Some inc" and "as_str (e_value p) = Some pv"
    and "\<not> is_lateral inc" and "\<not> is_lateral pv" and "e_stamp e = (ts, host)" and "e_stamp p = (pts, phost)"
  shows "status_entry_wins (Some inc) ts host False (Some pv) pts phost \<longleftrightarrow> ladder_stamp p < ladder_stamp e"
proof -
  have "ladder_stamp e = (ladder_height inc, ts, host)" "ladder_stamp p = (ladder_height pv, pts, phost)"
    using assms by (simp_all add: ladder_stamp_def)
  moreover consider "ladder_height inc < ladder_height pv" | "ladder_height inc = ladder_height pv"
    | "ladder_height pv < ladder_height inc" by linarith
  then have "status_entry_wins (Some inc) ts host False (Some pv) pts phost \<longleftrightarrow>
      ladder_height pv < ladder_height inc \<or> ladder_height pv = ladder_height inc \<and> (pts, phost) < (ts, host)"
  proof cases
    case 1
    with wins_not_lower[of inc ts host pv pts phost] assms(3,4) show ?thesis by auto
  next
    case 2
    with same_height_lww[of pv inc ts host False pts phost] assms(3,4) show ?thesis by auto
  next
    case 3
    with higher_wins[of pv inc ts host False pts phost] assms(3,4) show ?thesis by auto
  qed
  ultimately show ?thesis by auto
qed

definition plain_entry :: "lww_entry \<Rightarrow> bool" where
  "plain_entry e \<longleftrightarrow> (case as_str (e_value e) of None \<Rightarrow> False | Some s \<Rightarrow> \<not> is_lateral s)"

lemma contend_one_ladder:
  assumes "plain_move c" and "c_laddered c" and "plain_entry p"
  shows "contend_one bi (Some p) c = ladder.take_in (Some p) (c_entry c)"
proof -
  from assms(1) obtain inc where inc: "as_str (e_value (c_entry c)) = Some inc" "\<not> is_lateral inc"
    "\<not> c_falsified c" by (auto simp: plain_move_def split: option.splits)
  from assms(3) obtain pv where pv: "as_str (e_value p) = Some pv" "\<not> is_lateral pv"
    by (auto simp: plain_entry_def split: option.splits)
  obtain ts host where st: "e_stamp (c_entry c) = (ts, host)" by (cases "e_stamp (c_entry c)")
  obtain pts phost where pst: "e_stamp p = (pts, phost)" by (cases "e_stamp p")
  show ?thesis
    using status_wins_iff_stamp[OF inc(1) pv(1) inc(2) pv(2) st pst] assms(2) inc pv
    by (simp add: contend_one_def st pst del: as_str_Some)
qed

lemma plain_move_entry: "plain_move c \<Longrightarrow> plain_entry (c_entry c)"
  by (auto simp: plain_move_def plain_entry_def split: option.splits)

lemma ladder_run:
  assumes "\<forall>c \<in> set cs. plain_move c \<and> c_laddered c" and "plain_entry p"
  shows "foldl (contend_one bi) (Some p) cs = foldl ladder.take_in (Some p) (map c_entry cs)"
  using assms
proof (induction cs arbitrary: p)
  case (Cons c cs)
  have "contend_one bi (Some p) c = ladder.take_in (Some p) (c_entry c)"
    using Cons.prems by (intro contend_one_ladder) auto
  moreover obtain q where "ladder.take_in (Some p) (c_entry c) = Some q" "plain_entry q"
    using Cons.prems plain_move_entry[of c] by (cases "ladder_stamp p < ladder_stamp (c_entry c)") auto
  ultimately show ?case using Cons by simp
qed simp

text \<open>With a base status, the register stays empty until a write beats the incumbent.\<close>

lemma ladder_run_base:
  assumes "\<forall>c \<in> set cs. plain_move c \<and> c_laddered c \<and> base_status bi (c_pid c) = Some b"
    and "\<not> is_lateral b"
  shows "(case foldl (contend_one bi) None cs of Some e \<Rightarrow> e | None \<Rightarrow> incumbent b) =
    the (foldl ladder.take_in (Some (incumbent b)) (map c_entry cs))"
  using assms(1)
proof (induction cs)
  case (Cons c cs)
  have b: "plain_entry (incumbent b)" "as_str (e_value (incumbent b)) = Some b"
    "e_stamp (incumbent b) = ([], [])"
    using assms(2) by (simp_all add: plain_entry_def incumbent_def e_value_def e_stamp_def)
  from Cons.prems obtain inc where inc: "as_str (e_value (c_entry c)) = Some inc" "\<not> is_lateral inc"
    "\<not> c_falsified c" by (auto simp: plain_move_def split: option.splits)
  obtain ts host where st: "e_stamp (c_entry c) = (ts, host)" by (cases "e_stamp (c_entry c)")
  have none: "contend_one bi None c =
      (if ladder_stamp (incumbent b) < ladder_stamp (c_entry c) then Some (c_entry c) else None)"
    using status_wins_iff_stamp[OF inc(1) b(2) inc(2) assms(2) st b(3)] Cons.prems inc
    by (simp add: contend_one_def st del: as_str_Some)
  show ?case
  proof (cases "ladder_stamp (incumbent b) < ladder_stamp (c_entry c)")
    case True
    have "foldl (contend_one bi) (Some (c_entry c)) cs =
        foldl ladder.take_in (Some (c_entry c)) (map c_entry cs)"
      using Cons.prems plain_move_entry by (intro ladder_run) auto
    moreover obtain w where "foldl ladder.take_in (Some (c_entry c)) (map c_entry cs) = Some w"
      using ladder.foldl_take_in_Some by blast
    ultimately show ?thesis using True none by simp
  next
    case False
    with Cons none show ?thesis by simp
  qed
qed simp

lemma ladder_first:
  assumes "\<forall>c \<in> set cs. plain_move c \<and> c_laddered c \<and> base_status bi (c_pid c) = None"
  shows "foldl (contend_one bi) None cs = ladder.winner (map c_entry cs)"
proof (cases cs)
  case (Cons c cs')
  with assms have "contend_one bi None c = Some (c_entry c)"
    by (auto simp: contend_one_def Let_def split: prod.splits)
  with ladder_run[of cs' "c_entry c" bi] assms Cons plain_move_entry show ?thesis
    by (simp add: ladder.winner_def)
qed (simp add: ladder.winner_def)

lemma sep_status: "sep \<notin> set ''status''"
  by (simp add: sep_def)

lemma unique_packet:
  assumes "distinct (map packet_id_of ps)" and "p \<in> set ps" and "packet_id_of p = Some i"
  shows "find (\<lambda>p. packet_id_of p = Some i) (rev ps) = Some p"
proof (cases "find (\<lambda>p. packet_id_of p = Some i) (rev ps)")
  case None
  with assms(2,3) show ?thesis by (auto simp: find_None_iff)
next
  case (Some q)
  then have "q \<in> set (rev ps)" and "packet_id_of q = Some i"
    by (auto simp: find_Some_iff simp del: set_rev)
  with assms have "q = p" by (auto simp: distinct_map inj_on_def)
  with Some show ?thesis by simp
qed

lemma added_not_in_base:
  assumes "p \<in> set (added_packets base frags)" and "packet_id_of p = Some i"
  shows "i \<notin> packet_ids base"
proof -
  from assms have "Some i \<in> packet_id_of ` set (added_packets base frags)" by force
  then show ?thesis unfolding added_packets_spec(3) by auto
qed

text \<open>C2. The closure ladder is monotone over a whole fold: when no status write to a packet of the
  base is falsified or lateral, the merged status is that of the base or of a write, and no other
  write and not the base has a greater \<open>(rung, ts, host)\<close>; so the merged rung is at least that of
  the base and of every write.\<close>

theorem fold_status_climbs:
  assumes "accepts_packets base" and "''packet_id'' \<notin> written_fields frags"
    and "distinct (map packet_id_of (collect_packets base))"
    and "p0 \<in> set (collect_packets base)" and "packet_id_of p0 = Some i" and "sep \<notin> set i"
    and "get_str p0 ''status'' = Some b" and "\<not> is_lateral b"
    and "\<forall>c \<in> set (writes_to frags i ''status''). plain_move c"
    and "p \<in> set (collect_packets (fold_ledger base frags))" and "packet_id_of p = Some i"
  shows "\<exists>e \<in> insert (incumbent b) (c_entry ` set (writes_to frags i ''status'')).
    yget p ''status'' = Some (e_value e)
    \<and> (\<forall>e' \<in> insert (incumbent b) (c_entry ` set (writes_to frags i ''status'')).
          ladder_stamp e' \<le> ladder_stamp e)"
proof -
  let ?ws = "writes_to frags i ''status''" and ?bi = "index_base base"
  have base_packet: "find (\<lambda>p. packet_id_of p = Some i) (rev (collect_packets base)) = Some p0"
    by (rule unique_packet[OF assms(3-5)])
  with assms(7) have bs: "base_status ?bi i = Some b" by (simp add: base_status_def)
  have ws: "\<forall>c \<in> set ?ws. plain_move c \<and> c_laddered c \<and> base_status ?bi (c_pid c) = Some b"
    using assms(9) bs by (auto simp: writes_to_def laddered_iff_status)
  from folded_packet_origin[OF assms(1,2,10,11)] obtain q where
    q: "q \<in> set (collect_packets base) \<union> set (added_packets base frags)"
      "p = fold_update base frags q" "packet_id_of q = Some i" "is_packet q" .
  have "i \<in> packet_ids base" using assms(4,5) by (force simp: packet_ids_def)
  with q(1,3) added_not_in_base have "q \<in> set (collect_packets base)" by blast
  with unique_packet[OF assms(3) _ q(3)] base_packet have eq: "q = p0" by simp
  note q = q(2-4)[unfolded eq]
  have get0: "yget p0 ''status'' = Some (e_value (incumbent b))"
    using assms(7) by (simp add: get_str_Some incumbent_def e_value_def)
  have "yget p ''status'' = (case foldl (contend_one ?bi) None ?ws of
      Some e \<Rightarrow> Some (e_value e) | None \<Rightarrow> yget p0 ''status'')"
    using yget_fold_update[OF q(3), of "''status''" base frags] q(1,2)
      register_of_fold[OF assms(6) sep_status] by simp
  also have "\<dots> = Some (e_value (case foldl (contend_one ?bi) None ?ws of Some e \<Rightarrow> e | None \<Rightarrow> incumbent b))"
    using get0 by (simp split: option.splits)
  also have "\<dots> = Some (e_value (the (foldl ladder.take_in (Some (incumbent b)) (map c_entry ?ws))))"
    by (simp add: ladder_run_base[OF ws assms(8)])
  finally show ?thesis
    using ladder.foldl_take_in_Some[of "incumbent b" "map c_entry ?ws"] by auto
qed


text \<open>Concrete ledgers. \<open>one_packet\<close> is a base with one packet, \<open>status_fragment\<close> a fragment with one
  status write.\<close>

definition one_packet :: "string \<Rightarrow> string \<Rightarrow> yaml" where
  "one_packet i status =
     YMapping [(YString ''packets'', YSequence [YMapping
       [(YString ''packet_id'', YString i), (YString ''status'', YString status)]])]"

definition status_fragment :: "string \<Rightarrow> string \<Rightarrow> string \<Rightarrow> string \<Rightarrow> fragment" where
  "status_fragment name i ts status =
     \<lparr>frag_name = name, frag_path = name,
      frag_doc = YMapping [(YString ''status'', YSequence [YMapping
        [(YString ''packet_id'', YString i), (YString ''field'', YString ''status''),
         (YString ''value'', YString status), (YString ''ts'', YString ts),
         (YString ''host'', YString ''h'')]])],
      frag_raw = []\<rparr>"

theorem fold_status_climbs_witness:
  "yget (hd (collect_packets (fold_ledger (one_packet ''p'' ''completed'')
     [status_fragment ''a'' ''p'' ''9'' ''in_progress'', status_fragment ''b'' ''p'' ''2'' ''done'']))) ''status''
   \<in> {Some (YString ''completed''), Some (YString ''in_progress''), Some (YString ''done'')}"
proof -
  let ?base = "one_packet ''p'' ''completed''"
  let ?fr = "[status_fragment ''a'' ''p'' ''9'' ''in_progress'', status_fragment ''b'' ''p'' ''2'' ''done'']"
  let ?p = "hd (collect_packets (fold_ledger ?base ?fr))"
  have 1: "accepts_packets ?base" "''packet_id'' \<notin> written_fields ?fr"
    "distinct (map packet_id_of (collect_packets ?base))"
    "hd (collect_packets ?base) \<in> set (collect_packets ?base)"
    "packet_id_of (hd (collect_packets ?base)) = Some ''p''" "sep \<notin> set ''p''"
    "get_str (hd (collect_packets ?base)) ''status'' = Some ''completed''" "\<not> is_lateral ''completed''"
    "\<forall>c \<in> set (writes_to ?fr ''p'' ''status''). plain_move c"
    "?p \<in> set (collect_packets (fold_ledger ?base ?fr))" "packet_id_of ?p = Some ''p''"
    by code_simp+
  have "\<forall>e \<in> insert (incumbent ''completed'') (c_entry ` set (writes_to ?fr ''p'' ''status'')).
      Some (e_value e) \<in> {Some (YString ''completed''), Some (YString ''in_progress''), Some (YString ''done'')}"
    by code_simp
  with fold_status_climbs[OF 1] show ?thesis by auto
qed

text \<open>The merged status depends on the order of the fold once a lateral value is written: the
  same three writes leave \<open>completed\<close> or \<open>done\<close>.\<close>

theorem fold_status_order_dependent:
  "\<exists>base frags frags'. mset frags = mset frags' \<and>
     map (\<lambda>p. get_str p ''status'') (collect_packets (fold_ledger base frags)) \<noteq>
     map (\<lambda>p. get_str p ''status'') (collect_packets (fold_ledger base frags'))"
proof -
  let ?a = "status_fragment ''a'' ''p'' ''1'' ''done''"
  let ?b = "status_fragment ''b'' ''p'' ''2'' ''obsoleted''"
  let ?c = "status_fragment ''c'' ''p'' ''3'' ''completed''"
  have "map (\<lambda>p. get_str p ''status'') (collect_packets (fold_ledger (one_packet ''p'' ''ready'') [?a, ?b, ?c]))
      = [Some ''completed'']"
    by code_simp
  moreover have "map (\<lambda>p. get_str p ''status'')
      (collect_packets (fold_ledger (one_packet ''p'' ''ready'') [?b, ?c, ?a])) = [Some ''done'']"
    by code_simp
  moreover have "mset [?a, ?b, ?c] = mset [?b, ?c, ?a]" by simp
  moreover have "[Some ''completed''] \<noteq> [Some ''done'']" by simp
  ultimately show ?thesis by (intro exI[of _ "one_packet ''p'' ''ready''"] exI[of _ "[?a, ?b, ?c]"]
      exI[of _ "[?b, ?c, ?a]"]) (simp only: simp_thms)
qed

text \<open>The ladder does not bind a status that a fragment's own packet declaration carries: a
  packet declared \<open>completed\<close> in one fragment and written \<open>in_progress\<close> without a falsification in
  another folds to \<open>in_progress\<close>, while the same write against the compacted declaration is refused.
  So folding in one go and folding in two steps differ.\<close>

theorem fold_declared_status_unprotected:
  "\<exists>base f g. fold_ledger (fold_ledger base [f]) [g] \<noteq> fold_ledger base [f, g]
     \<and> map (\<lambda>p. get_str p ''status'') (collect_packets (fold_ledger base [f])) = [Some ''completed'']
     \<and> map (\<lambda>p. get_str p ''status'') (collect_packets (fold_ledger base [f, g])) = [Some ''in_progress'']
     \<and> \<not> fragment_falsifies g ''p''"
proof -
  let ?f = "\<lparr>frag_name = ''a'', frag_path = ''a'', frag_doc = one_packet ''p'' ''completed'',
    frag_raw = []\<rparr>"
  let ?g = "status_fragment ''b'' ''p'' ''2'' ''in_progress''"
  have "map (\<lambda>p. get_str p ''status'') (collect_packets (fold_ledger (fold_ledger (YMapping []) [?f]) [?g]))
      = [Some ''completed'']"
    by code_simp
  moreover have two: "map (\<lambda>p. get_str p ''status'') (collect_packets (fold_ledger (YMapping []) [?f, ?g]))
      = [Some ''in_progress'']"
    by code_simp
  moreover have "[Some ''completed''] \<noteq> [Some ''in_progress'']" by simp
  ultimately have "fold_ledger (fold_ledger (YMapping []) [?f]) [?g] \<noteq> fold_ledger (YMapping []) [?f, ?g]"
    by metis
  moreover have "map (\<lambda>p. get_str p ''status'') (collect_packets (fold_ledger (YMapping []) [?f]))
      = [Some ''completed'']" by code_simp
  moreover have "\<not> fragment_falsifies ?g ''p''" by code_simp
  ultimately show ?thesis using two
    by (intro exI[of _ "YMapping []"] exI[of _ ?f] exI[of _ ?g] conjI)
qed

text \<open>Folding is not idempotent in general: with a rejected working status and an accepted lateral
  one, folding the same two fragments again changes the result.\<close>

theorem fold_not_idempotent:
  "\<exists>base frags. fold_ledger (fold_ledger base frags) frags \<noteq> fold_ledger base frags"
proof -
  let ?fr = "[status_fragment ''a'' ''p'' ''2'' ''ready'', status_fragment ''b'' ''p'' ''1'' ''obsoleted'']"
  let ?b = "one_packet ''p'' ''done''"
  have "map (\<lambda>p. get_str p ''status'') (collect_packets (fold_ledger ?b ?fr)) = [Some ''obsoleted'']"
    by code_simp
  moreover have "map (\<lambda>p. get_str p ''status'')
      (collect_packets (fold_ledger (fold_ledger ?b ?fr) ?fr)) = [Some ''ready'']"
    by code_simp
  moreover have "[Some ''obsoleted''] \<noteq> [Some ''ready'']" by simp
  ultimately have "fold_ledger (fold_ledger ?b ?fr) ?fr \<noteq> fold_ledger ?b ?fr" by metis
  then show ?thesis by blast
qed

end
