(* ===== verification/Fold_Events.thy ===== *)
theory Fold_Events
  imports Fold_Status
begin

text \<open>
  Events under the fold, the coverage check that guards compaction, and the conditions under which
  folding the same fragments again changes nothing.
\<close>

subsection \<open>Events of a merged packet\<close>

text \<open>The packets whose \<open>events\<close> the fold can append to.\<close>

definition sequence_events :: "yaml \<Rightarrow> bool" where
  "sequence_events p =
     (case yget p ''events'' of None \<Rightarrow> True | Some v \<Rightarrow> as_sequence v \<noteq> None)"

definition new_events_of :: "yaml \<Rightarrow> fragment list \<Rightarrow> string \<Rightarrow> yaml list" where
  "new_events_of base frags = group_events (fa_new_events (fold_fragments base frags))"

lemma events_of_update:
  assumes "is_packet p" and "''events'' \<notin> written_fields frags" and "sequence_events p"
  shows "packet_events (fold_update base frags p) =
    packet_events p @ new_events_of base frags (id_or_empty p)"
proof -
  from assms(1) obtain m where m: "p = YMapping m" by (cases p) (auto simp: is_packet_def)
  let ?lww = "fa_lww (fold_fragments base frags)" and ?ev = "new_events_of base frags (id_or_empty p)"
  let ?m = "foldl apply_field m (group_lww ?lww (id_or_empty p))"
  have i: "unwrap_or [] (Option.bind (map_of m (YString ''packet_id'')) as_str) = id_or_empty p"
    by (simp add: id_or_empty_def packet_id_of_def get_str_def m)
  have ev: "map_of ?m (YString ''events'') = map_of m (YString ''events'')"
    using map_of_apply_fields[OF distinct_group_lww[OF distinct_fold_lww], of "''events''" m base frags]
      map_of_group_lww[OF distinct_fold_lww, of base frags "id_or_empty p" "''events''"]
      register_unwritten[OF assms(2), of base "id_or_empty p"]
    by (simp add: sep_def)
  have "fold_update base frags p = YMapping (push_packet_events ?ev ?m)"
    by (simp add: fold_update_def update_packet_def apply_packet_def m i[unfolded m]
        new_events_of_def Let_def)
  then show ?thesis
    using assms(3) ev
    by (auto simp: packet_events_def get_sequence_def push_packet_events_def sequence_events_def m
        split: option.splits yaml.splits)
qed

definition pid_clean :: "fragment list \<Rightarrow> bool" where
  "pid_clean frags \<longleftrightarrow> (\<forall>(pid, e) \<in> set (recorded_events frags). sep \<notin> set pid)"

lemma event_identity_pid:
  "event_identity i e = event_identity j d \<Longrightarrow> sep \<notin> set i \<Longrightarrow> sep \<notin> set j \<Longrightarrow> i = j"
proof -
  have "\<exists>r. event_identity i e = i @ sep # r" for i e
    by (simp add: event_identity_def Let_def)
  then obtain r s where rs: "event_identity i e = i @ sep # r" "event_identity j d = j @ sep # s"
    by meson
  assume eq: "event_identity i e = event_identity j d" and "sep \<notin> set i" "sep \<notin> set j"
  with rs split_once_append[of sep i r] split_once_append[of sep j s] show "i = j"
    by (metis option.inject prod.inject)
qed

lemma new_events_spec:
  defines "idf \<equiv> case_prod event_identity"
  assumes "evs = fa_new_events (fold_fragments base frags)"
  shows "distinct (map idf evs)" "set evs \<subseteq> set (recorded_events frags)"
    "idf ` set evs = idf ` set (recorded_events frags) - event_ids base"
proof -
  obtain seen where run: "foldl take_event (event_ids base, []) (recorded_events frags) = (seen, evs)"
    using fold_events_stream[of base frags] assms(2) by (metis ev_state_def index_base_spec(2))
  note spec = take_event_spec[OF run, simplified, folded idf_def]
  show "distinct (map idf evs)" using spec(2) .
  show "set evs \<subseteq> set (recorded_events frags)" using spec(4) by auto
  show "idf ` set evs = idf ` set (recorded_events frags) - event_ids base"
    using spec(1,3,4) by auto
qed

lemma new_events_of_spec:
  assumes "pid_clean frags"
  shows "distinct (map (event_identity i) (new_events_of base frags i))"
    "event_identity i ` set (new_events_of base frags i) =
       event_identity i ` {e. (i, e) \<in> set (recorded_events frags)} - event_ids base"
    "\<forall>e \<in> set (new_events_of base frags i). (i, e) \<in> set (recorded_events frags)"
proof -
  let ?evs = "fa_new_events (fold_fragments base frags)"
  note spec = new_events_spec[OF refl, of base frags]
  have ev: "new_events_of base frags i = map snd (filter (\<lambda>pe. fst pe = i) ?evs)"
    by (simp add: new_events_of_def group_events_spec)
  have map: "map (event_identity i) (new_events_of base frags i) =
      map (case_prod event_identity) (filter (\<lambda>pe. fst pe = i) ?evs)"
    unfolding ev by (auto simp: case_prod_unfold)
  show "distinct (map (event_identity i) (new_events_of base frags i))"
    unfolding map using spec(1) by (rule distinct_map_filter)
  show in_rec: "\<forall>e \<in> set (new_events_of base frags i). (i, e) \<in> set (recorded_events frags)"
    using spec(2) by (auto simp: ev)
  show "event_identity i ` set (new_events_of base frags i) =
      event_identity i ` {e. (i, e) \<in> set (recorded_events frags)} - event_ids base" (is "?l = ?r")
  proof
    show "?l \<subseteq> ?r"
    proof
      fix x assume "x \<in> ?l"
      then obtain e where e: "(i, e) \<in> set ?evs" "x = event_identity i e" by (auto simp: ev)
      then have "x \<in> case_prod event_identity ` set ?evs" by force
      with spec(2,3) e show "x \<in> ?r" by auto
    qed
    show "?r \<subseteq> ?l"
    proof
      fix x assume "x \<in> ?r"
      then obtain e where e: "(i, e) \<in> set (recorded_events frags)" "x = event_identity i e"
        "x \<notin> event_ids base" by auto
      then have "x \<in> case_prod event_identity ` set ?evs" unfolding spec(3) by force
      then obtain j d where jd: "(j, d) \<in> set ?evs" "x = event_identity j d" by auto
      with e spec(2) assms have "j = i"
        by (intro event_identity_pid[of j d i e]) (auto simp: pid_clean_def)
      with jd show "x \<in> ?l" by (force simp: ev)
    qed
  qed
qed

lemma fold_packet_events:
  assumes "accepts_packets base" and "{''packet_id'', ''events''} \<inter> written_fields frags = {}"
    and "pid_clean frags" and "\<forall>q \<in> set (origins base frags). sequence_events q"
    and "p \<in> set (collect_packets (fold_ledger base frags))" and "packet_id_of p = Some i"
  obtains p0 where "p0 \<in> set (origins base frags)" and "packet_id_of p0 = Some i"
    and "packet_events p = packet_events p0 @ new_events_of base frags i"
proof -
  from assms(2) have w: "''packet_id'' \<notin> written_fields frags" "''events'' \<notin> written_fields frags" by auto
  from folded_packet_origin[OF assms(1) w(1) assms(5,6)] obtain p0 where
    p0: "p = fold_update base frags p0" "packet_id_of p0 = Some i" "is_packet p0"
      "p0 \<in> set (origins base frags)" .
  with assms(4) have "sequence_events p0" by blast
  with events_of_update[OF p0(3) w(2), of base] p0 that show ?thesis by simp
qed


text \<open>The hypotheses under which no event can be lost.\<close>

definition event_safe :: "yaml \<Rightarrow> fragment list \<Rightarrow> bool" where
  "event_safe base frags \<longleftrightarrow> accepts_packets base
     \<and> {''packet_id'', ''events''} \<inter> written_fields frags = {}
     \<and> pid_clean frags \<and> (\<forall>q \<in> set (origins base frags). sequence_events q)"

lemma base_packet_updated:
  assumes "accepts_packets base" and "q \<in> set (collect_packets base) \<union> set (added_packets base frags)"
  shows "fold_update base frags q \<in> set (collect_packets (fold_ledger base frags))"
  using collect_fold[OF assms(1), of frags] assms(2) by (metis image_eqI set_inserted set_map)

lemma packet_ids_fold:
  assumes "accepts_packets base" and "''packet_id'' \<notin> written_fields frags"
  shows "packet_ids (fold_ledger base frags) = packet_ids base \<union> declared_ids frags"
proof -
  have "Some i \<in> packet_id_of ` set (collect_packets (fold_ledger base frags)) \<longleftrightarrow>
      Some i \<in> packet_id_of ` set (collect_packets base)
      \<or> Some i \<in> packet_id_of ` set (added_packets base frags)" for i
    using set_inserted[OF fold_ids[OF assms]] by auto
  then show ?thesis
    unfolding added_packets_spec(3) by (auto simp: packet_ids_def)
qed

lemma event_ids_mono:
  assumes "event_safe base frags"
  shows "event_ids base \<subseteq> event_ids (fold_ledger base frags)"
proof
  from assms have acc: "accepts_packets base" and w: "''packet_id'' \<notin> written_fields frags"
    "''events'' \<notin> written_fields frags" and sq: "\<forall>q \<in> set (origins base frags). sequence_events q"
    by (auto simp: event_safe_def)
  fix x assume "x \<in> event_ids base"
  then obtain i e q where q: "x = event_identity i e" "q \<in> set (collect_packets base)"
    "packet_id_of q = Some i" "e \<in> set (packet_events q)" by (auto simp: event_ids_def)
  then have pk: "is_packet q" using collect_packets_are_packets by blast
  from q(2) sq have "sequence_events q" by (auto simp: origins_def)
  with events_of_update[OF pk w(2), of base] q(4)
  have "e \<in> set (packet_events (fold_update base frags q))" by simp
  moreover have "fold_update base frags q \<in> set (collect_packets (fold_ledger base frags))"
    using base_packet_updated[OF acc, of q frags] q(2) by blast
  moreover have "packet_id_of (fold_update base frags q) = Some i"
    using fold_update_id[OF w(1) pk] q(3) by simp
  ultimately show "x \<in> event_ids (fold_ledger base frags)"
    using q(1) unfolding event_ids_def by blast
qed

lemma fold_has_event:
  assumes "event_safe base frags"
    and "(i, e) \<in> set (recorded_events frags)" and "i \<in> packet_ids (fold_ledger base frags)"
  shows "event_identity i e \<in> event_ids (fold_ledger base frags)"
proof (cases "event_identity i e \<in> event_ids base")
  case True
  with event_ids_mono[OF assms(1)] show ?thesis by blast
next
  case False
  from assms(3) obtain p where p: "p \<in> set (collect_packets (fold_ledger base frags))"
    "packet_id_of p = Some i" by (auto simp: packet_ids_def)
  have safe: "accepts_packets base" "{''packet_id'', ''events''} \<inter> written_fields frags = {}"
    "pid_clean frags" "\<forall>q \<in> set (origins base frags). sequence_events q"
    using assms(1) by (simp_all add: event_safe_def)
  from fold_packet_events[OF safe p] obtain p0 where
    "packet_events p = packet_events p0 @ new_events_of base frags i" .
  with new_events_of_spec(2)[OF safe(3), of i base] False assms(2) have "event_identity i e \<in> event_identity i ` set (packet_events p)" by auto
  with p show ?thesis unfolding event_ids_def by blast
qed

subsection \<open>Coverage\<close>

lemma concat_map_nil: "concat (map f xs) = [] \<longleftrightarrow> (\<forall>x \<in> set xs. f x = [])"
  by auto

text \<open>The records of a fragment, all in the result.\<close>

definition covered :: "yaml \<Rightarrow> fragment \<Rightarrow> bool" where
  "covered result frag \<longleftrightarrow>
     (\<forall>p \<in> set (seq_or_empty (frag_doc frag) ''packets'').
        \<exists>i. packet_id_of p = Some i \<and> i \<in> packet_ids result)
   \<and> (\<forall>u \<in> set (seq_or_empty (frag_doc frag) ''events'').
        \<exists>i e. event_entry u = Some (i, e) \<and> event_identity i e \<in> event_ids result)
   \<and> (\<forall>u \<in> set (lww_entries (frag_doc frag)). \<forall>i. packet_id_of u = Some i \<longrightarrow> i \<in> packet_ids result)
   \<and> (\<forall>r \<in> set (seq_or_empty (frag_doc frag) ''capabilities''). fst (capability_key r) \<noteq> []
        \<and> capability_key r \<in> capability_key ` set (seq_or_empty result ''capabilities''))"

lemma coverage_iff:
  "fragment_coverage_gaps_in result (folded_identities_of result) frag = [] \<longleftrightarrow> covered result frag"
proof -
  have pk: "packet_gap (folded_identities_of result) p = [] \<longleftrightarrow>
      (\<exists>i. packet_id_of p = Some i \<and> i \<in> packet_ids result)" for p
    by (auto simp: packet_gap_def packet_id_of_def identities_of_spec split: option.splits)
  have ev: "event_gap (folded_identities_of result) u = [] \<longleftrightarrow>
      (\<exists>i e. event_entry u = Some (i, e) \<and> event_identity i e \<in> event_ids result)" for u
    by (auto simp: event_gap_def event_entry_def identities_of_spec Let_def split: option.splits)
  have st: "status_gap (folded_identities_of result) u = [] \<longleftrightarrow>
      (\<forall>i. packet_id_of u = Some i \<longrightarrow> i \<in> packet_ids result)" for u
    by (auto simp: status_gap_def packet_id_of_def identities_of_spec split: option.splits)
  have ca: "capability_gap result r = [] \<longleftrightarrow> fst (capability_key r) \<noteq> []
      \<and> capability_key r \<in> capability_key ` set (seq_or_empty result ''capabilities'')" for r
    by (cases "capability_key r") (auto simp: capability_gap_def)
  show ?thesis
    by (simp only: fragment_coverage_gaps_in_def append_is_Nil_conv concat_map_nil pk ev st ca covered_def)
qed

lemma compact_consumes:
  "co_consumed (compact base frags) = map frag_path (filter (covered (fold_ledger base frags)) frags)"
  by (simp add: compact_def Let_def coverage_iff)

text \<open>Compaction deletes exactly the fragments whose every record is in the merged ledger, and
  keeps every other fragment with its gaps.\<close>

theorem compact_consumes_covered:
  "co_consumed (compact base frags) = map frag_path (filter (covered (fold_ledger base frags)) frags)
   \<and> map fst (co_refused (compact base frags)) =
       map frag_path (filter (\<lambda>f. \<not> covered (fold_ledger base frags) f) frags)
   \<and> list_all (\<lambda>(path, gaps). gaps \<noteq> []) (co_refused (compact base frags))"
  by (auto simp: compact_def Let_def coverage_iff comp_def list_all_iff)

lemma recorded_in:
  assumes "frag \<in> set frags" and "u \<in> set (seq_or_empty (frag_doc frag) ''events'')"
    and "event_entry u = Some ie"
  shows "ie \<in> set (recorded_events frags)"
  using assms by (auto simp: recorded_events_def map_filter_Some)

lemma declared_in:
  assumes "frag \<in> set frags" and "p \<in> set (seq_or_empty (frag_doc frag) ''packets'')"
    and "packet_id_of p = Some i"
  shows "i \<in> declared_ids frags"
  using assms by (force simp: declared_ids_def declared_def)

text \<open>C7. No well-formed fragment is ever stuck: when every packet it declares has an id, every event
  entry is readable and, with every status write, refers to a packet of the base or of some fragment,
  and it has no capability rows, compaction consumes it.\<close>

theorem compact_progress:
  assumes "event_safe base frags" and "frag \<in> set frags"
    and "\<forall>p \<in> set (seq_or_empty (frag_doc frag) ''packets''). packet_id_of p \<noteq> None"
    and "\<forall>u \<in> set (seq_or_empty (frag_doc frag) ''events'').
      \<exists>i e. event_entry u = Some (i, e) \<and> i \<in> packet_ids base \<union> declared_ids frags"
    and "\<forall>u \<in> set (lww_entries (frag_doc frag)). \<forall>i. packet_id_of u = Some i \<longrightarrow>
      i \<in> packet_ids base \<union> declared_ids frags"
    and "seq_or_empty (frag_doc frag) ''capabilities'' = []"
  shows "frag_path frag \<in> set (co_consumed (compact base frags))"
proof -
  have ids: "packet_ids (fold_ledger base frags) = packet_ids base \<union> declared_ids frags"
    using assms(1) by (intro packet_ids_fold) (auto simp: event_safe_def)
  have "covered (fold_ledger base frags) frag"
    unfolding covered_def
  proof (intro conjI ballI allI impI)
    fix p assume "p \<in> set (seq_or_empty (frag_doc frag) ''packets'')"
    with assms(3) declared_in[OF assms(2)] show "\<exists>i. packet_id_of p = Some i \<and> i \<in> packet_ids (fold_ledger base frags)"
      unfolding ids by blast
  next
    fix u assume u: "u \<in> set (seq_or_empty (frag_doc frag) ''events'')"
    with assms(4) obtain i e where ie: "event_entry u = Some (i, e)"
      "i \<in> packet_ids (fold_ledger base frags)" unfolding ids by blast
    with fold_has_event[OF assms(1) recorded_in[OF assms(2) u ie(1)]]
    show "\<exists>i e. event_entry u = Some (i, e) \<and> event_identity i e \<in> event_ids (fold_ledger base frags)"
      by blast
  next
    fix u i assume "u \<in> set (lww_entries (frag_doc frag))" "packet_id_of u = Some i"
    with assms(5) show "i \<in> packet_ids (fold_ledger base frags)" unfolding ids by blast
  qed (use assms(6) in auto)
  then show ?thesis
    using compact_consumes assms(2) by auto
qed

end
