(* ===== verification/Fold_Idem.thy ===== *)
theory Fold_Idem
  imports Fold_Events
begin

text \<open>When folding the same fragments a second time changes nothing.\<close>

lemma yinsert_same: "map_of m k = Some v \<Longrightarrow> yinsert k v m = m"
  by (induction k v m rule: yinsert.induct) (auto split: if_splits)

lemma apply_to_packets_id:
  "\<forall>p \<in> set (collect_packets d). update_packet es lww p = p \<Longrightarrow> apply_to_packets es lww d = d"
proof (induction es lww d rule: apply_to_packets.induct)
  case (1 es lww m)
  show ?case
  proof (cases "contains_key m ''packet_id''")
    case True
    with 1(2) show ?thesis by (simp add: update_packet_def)
  next
    case False
    have "map (\<lambda>(k, v). (k, apply_to_packets es lww v)) m = map (\<lambda>x. x) m"
    proof (rule map_cong[OF refl])
      fix x assume x: "x \<in> set m"
      obtain k v where kv: "x = (k, v)" by (cases x)
      from 1(2) False x kv have "\<forall>p \<in> set (collect_packets v). update_packet es lww p = p" by auto
      with 1(1)[OF False x kv[symmetric]] show "(case x of (k, v) \<Rightarrow> (k, apply_to_packets es lww v)) = x"
        by (simp add: kv)
    qed
    with False show ?thesis by simp
  qed
next
  case (2 es lww s)
  then have "map (apply_to_packets es lww) s = map (\<lambda>x. x) s" by (intro map_cong) auto
  then show ?case by simp
qed auto

lemma apply_fields_id:
  assumes "\<forall>(f, ts, v) \<in> set ws. map_of m (YString f) = Some v
    \<and> (f = ''next_action'' \<and> ts \<noteq> [] \<longrightarrow> map_of m (YString ''next_action_ts'') = Some (YString ts))"
  shows "foldl apply_field m ws = m"
  using assms
proof (induction ws)
  case (Cons w ws)
  obtain f ts v where w: "w = (f, ts, v)" by (cases w)
  with Cons.prems have "apply_field m w = m"
    by (auto simp: apply_field_def yinsert_same Let_def)
  with Cons show ?case by simp
qed simp

lemma map_of_next_action_ts:
  assumes "distinct (map fst ws)" and "''next_action_ts'' \<notin> fst ` set ws"
  shows "map_of (foldl apply_field m ws) (YString ''next_action_ts'') =
    (case map_of ws ''next_action'' of
       Some (ts, v) \<Rightarrow> if ts \<noteq> [] then Some (YString ts) else map_of m (YString ''next_action_ts'')
     | None \<Rightarrow> map_of m (YString ''next_action_ts''))"
  using assms
proof (induction ws arbitrary: m)
  case (Cons w ws)
  obtain g ts v where w: "w = (g, ts, v)" by (cases w)
  have "map_of (apply_field m w) (YString ''next_action_ts'') =
      (if g = ''next_action'' \<and> ts \<noteq> [] then Some (YString ts) else map_of m (YString ''next_action_ts''))"
    using Cons.prems(2) by (auto simp: apply_field_def w Let_def)
  moreover have "g = ''next_action'' \<Longrightarrow> map_of ws ''next_action'' = None"
    using Cons.prems(1) w by (auto simp: map_of_eq_None_iff)
  ultimately show ?case using Cons.IH[of "apply_field m w"] Cons.prems w
    by (auto split: option.splits)
qed simp

lemma contend_base_free:
  assumes "\<forall>c \<in> set cs. \<not> c_laddered c"
  shows "foldl (contend bi) m cs = foldl (contend bi') m cs"
  using assms
proof (induction cs arbitrary: m)
  case (Cons c cs)
  then have "contend bi m c = contend bi' m c"
    by (auto simp: contend_def contend_one_def Let_def split: option.splits prod.splits)
  with Cons show ?case by simp
qed simp

lemma fold_lww_base_free:
  assumes "''status'' \<notin> written_fields frags"
  shows "fa_lww (fold_fragments base frags) = fa_lww (fold_fragments base' frags)"
proof -
  have "\<forall>c \<in> set (contenders frags). \<not> c_laddered c"
    using assms by (force simp: laddered_iff_status written_fields_def)
  then show ?thesis unfolding fold_lww_stream(1) by (rule contend_base_free)
qed

text \<open>A packet that has been updated holds what the registers say.\<close>

lemma updated_packet_fields:
  assumes "is_packet p" and "{''packet_id'', ''events'', ''next_action_ts''} \<inter> written_fields frags = {}"
    and "(f, ts, v) \<in> set (group_lww (fa_lww (fold_fragments base frags)) (id_or_empty p))"
  shows "yget (fold_update base frags p) f = Some v"
    and "f = ''next_action'' \<Longrightarrow> ts \<noteq> [] \<Longrightarrow>
      yget (fold_update base frags p) ''next_action_ts'' = Some (YString ts)"
proof -
  let ?lww = "fa_lww (fold_fragments base frags)" and ?i = "id_or_empty p"
  let ?ws = "group_lww ?lww ?i"
  note dist = distinct_group_lww[OF distinct_fold_lww, of base frags ?i]
  have look: "map_of ?ws f = Some (ts, v)" using assms(3) dist by (simp add: map_of_is_SomeI)
  note reg = map_of_group_lww[OF distinct_fold_lww, of base frags ?i]
  have none: "map_of ?ws g = None" if "g \<notin> written_fields frags" "sep \<notin> set g" for g
    unfolding reg register_unwritten[OF that] by simp
  from assms(2) none have "map_of ?ws ''packet_id'' = None" "map_of ?ws ''events'' = None"
    and nats: "map_of ?ws ''next_action_ts'' = None"
    by (simp_all add: sep_def)
  with look have f: "f \<noteq> ''events''" "f \<noteq> ''next_action_ts''" by auto
  from look obtain e where "register_of ?lww ?i f = Some e" "e_value e = v"
    unfolding reg by (auto simp: e_value_def)
  with yget_fold_update[OF assms(1) f, of base frags] show "yget (fold_update base frags p) f = Some v"
    by simp
  from assms(1) obtain m where m: "p = YMapping m" by (cases p) (auto simp: is_packet_def)
  have i: "unwrap_or [] (Option.bind (map_of m (YString ''packet_id'')) as_str) = ?i"
    by (simp add: id_or_empty_def packet_id_of_def get_str_def m)
  assume "f = ''next_action''" "ts \<noteq> []"
  with look nats map_of_next_action_ts[OF dist, of m]
  have "map_of (foldl apply_field m ?ws) (YString ''next_action_ts'') = Some (YString ts)"
    by (simp add: map_of_eq_None_iff)
  then show "yget (fold_update base frags p) ''next_action_ts'' = Some (YString ts)"
    by (simp add: fold_update_def update_packet_def apply_packet_def m i[unfolded m] Let_def
        map_of_push_events)
qed

text \<open>C6. Folding is idempotent for fragments without status writes: when the base and the
  declarations are well-formed and no register write touches \<open>status\<close>, \<open>events\<close>, \<open>packet_id\<close> or
  \<open>next_action_ts\<close>, folding the fragments into the merged ledger again gives the same ledger.\<close>

theorem fold_idempotent:
  assumes "event_safe base frags"
    and "{''status'', ''next_action_ts''} \<inter> written_fields frags = {}"
    and "\<forall>q \<in> set (collect_packets base). packet_id_of q \<noteq> None"
  shows "fold_ledger (fold_ledger base frags) frags = fold_ledger base frags"
proof -
  let ?d = "fold_ledger base frags"
  from assms(1) have acc: "accepts_packets base" and clean: "pid_clean frags"
    and pid: "''packet_id'' \<notin> written_fields frags" by (simp_all add: event_safe_def)
  from assms(1,2) have w3: "{''packet_id'', ''events'', ''next_action_ts''} \<inter> written_fields frags = {}"
    by (auto simp: event_safe_def)
  from assms(2) have lww: "fa_lww (fold_fragments ?d frags) = fa_lww (fold_fragments base frags)"
    by (intro fold_lww_base_free) simp
  have "packet_id_of ` set (added_packets ?d frags) = {}"
    unfolding added_packets_spec(3) by (simp add: packet_ids_fold[OF acc pid])
  then have no_new: "added_packets ?d frags = []" by simp
  have upd: "fold_update ?d frags p = p" if p: "p \<in> set (collect_packets ?d)" for p
  proof -
    from collect_fold[OF acc] p obtain q ps where
      ps: "inserted (added_packets base frags) (collect_packets base) ps"
      and q: "q \<in> set ps" "p = fold_update base frags q" by (metis imageE set_map)
    from q(1) have mem: "q \<in> set (collect_packets base) \<union> set (added_packets base frags)"
      unfolding set_inserted[OF ps] .
    then have pk: "is_packet q"
      using added_packets_spec(4)[of base frags] collect_packets_are_packets[of _ base] by blast
    have "packet_id_of q \<noteq> None" using mem assms(3) added_packets_spec(2)[of base frags] by force
    then obtain i where qi: "packet_id_of q = Some i" by auto
    with fold_update_id[OF pid pk] q(2) have pi: "packet_id_of p = Some i" by simp
    with p have "i \<in> packet_ids ?d" by (force simp: packet_ids_def)
    then have none: "new_events_of ?d frags i = []"
      using new_events_of_spec(2)[OF clean, of i ?d] fold_has_event[OF assms(1)]
      by (metis (no_types, lifting) Diff_eq_empty_iff image_subsetI mem_Collect_eq
          image_is_empty set_empty)
    obtain m where m: "p = YMapping m"
      using collect_packets_are_packets[OF p] by (auto simp: is_packet_def yget_Some)
    have i: "unwrap_or [] (Option.bind (map_of m (YString ''packet_id'')) as_str) = i"
      using pi by (simp add: packet_id_of_def get_str_def m)
    have "foldl apply_field m (group_lww (fa_lww (fold_fragments base frags)) i) = m"
      using updated_packet_fields[OF pk w3, of _ _ _ base, folded q(2)] qi m
      by (intro apply_fields_id) auto
    then show ?thesis
      using none by (simp add: fold_update_def update_packet_def apply_packet_def m i lww Let_def
          new_events_of_def push_packet_events_def)
  qed
  have "fold_ledger ?d frags = apply_to_packets (group_events (fa_new_events (fold_fragments ?d frags)))
      (group_lww (fa_lww (fold_fragments ?d frags))) ?d"
    unfolding fold_ledger_alt[of ?d] no_new by (simp add: append_packets_def)
  also have "\<dots> = ?d"
    by (rule apply_to_packets_id) (use upd in \<open>auto simp: fold_update_def\<close>)
  finally show ?thesis .
qed


text \<open>A fragment that declares a packet, records an event and writes a field, for the witnesses.\<close>

definition sample_fragment :: fragment where
  "sample_fragment =
     \<lparr>frag_name = ''s'', frag_path = ''s'',
      frag_doc = YMapping
        [(YString ''packets'', YSequence [YMapping [(YString ''packet_id'', YString ''q''),
            (YString ''status'', YString ''ready'')]]),
         (YString ''events'', YSequence [YMapping [(YString ''packet_id'', YString ''p''),
            (YString ''event'', YMapping [(YString ''type'', YString ''note''), (YString ''ts'', YString ''5'')])]]),
         (YString ''fields'', YSequence [YMapping [(YString ''packet_id'', YString ''p''),
            (YString ''field'', YString ''next_action''), (YString ''value'', YString ''go''),
            (YString ''ts'', YString ''6''), (YString ''host'', YString ''h'')]])],
      frag_raw = []\<rparr>"

lemma sample_hypotheses:
  "event_safe (one_packet ''p'' ''ready'') [sample_fragment]"
  "{''status'', ''next_action_ts''} \<inter> written_fields [sample_fragment] = {}"
  "\<forall>q \<in> set (collect_packets (one_packet ''p'' ''ready'')). packet_id_of q \<noteq> None"
  by code_simp+

theorem fold_idempotent_witness:
  "fold_ledger (fold_ledger (one_packet ''p'' ''ready'') [sample_fragment]) [sample_fragment]
   = fold_ledger (one_packet ''p'' ''ready'') [sample_fragment]"
  by (rule fold_idempotent[OF sample_hypotheses])

theorem fold_packet_gset_witness:
  "\<exists>new. set new = {''q''} \<and>
     inserted (map Some new) [Some ''p'']
       (map packet_id_of (collect_packets (fold_ledger (one_packet ''p'' ''ready'') [sample_fragment])))"
proof -
  have "accepts_packets (one_packet ''p'' ''ready'')" "''packet_id'' \<notin> written_fields [sample_fragment]"
    using sample_hypotheses(1) by (simp_all add: event_safe_def)
  from fold_packet_gset[OF this]
  obtain new where "inserted (map Some new) (map packet_id_of (collect_packets (one_packet ''p'' ''ready'')))
      (map packet_id_of (collect_packets (fold_ledger (one_packet ''p'' ''ready'') [sample_fragment])))"
    "set new = declared_ids [sample_fragment] - packet_ids (one_packet ''p'' ''ready'')" by blast
  moreover have "map packet_id_of (collect_packets (one_packet ''p'' ''ready'')) = [Some ''p'']"
    by code_simp
  moreover have "declared_ids [sample_fragment] - packet_ids (one_packet ''p'' ''ready'') = {''q''}"
  proof -
    have "packet_id_of ` set (declared [sample_fragment]) = {Some ''q''}"
      "packet_id_of ` set (collect_packets (one_packet ''p'' ''ready'')) = {Some ''p''}" by code_simp+
    then show ?thesis by (auto simp: declared_ids_def packet_ids_def)
  qed
  ultimately show ?thesis by auto
qed

theorem compact_progress_witness:
  "''s'' \<in> set (co_consumed (compact (one_packet ''p'' ''ready'') [sample_fragment]))"
proof -
  have "frag_path sample_fragment \<in> set (co_consumed (compact (one_packet ''p'' ''ready'') [sample_fragment]))"
  proof (rule compact_progress[OF sample_hypotheses(1)])
    have "Some ''p'' \<in> packet_id_of ` set (collect_packets (one_packet ''p'' ''ready''))" by code_simp
    then have p: "''p'' \<in> packet_ids (one_packet ''p'' ''ready'')" by (simp add: packet_ids_def)
    have ev: "map event_entry (seq_or_empty (frag_doc sample_fragment) ''events'') =
        [Some (''p'', YMapping [(YString ''type'', YString ''note''), (YString ''ts'', YString ''5'')])]"
      by code_simp
    have "\<forall>x \<in> set (map event_entry (seq_or_empty (frag_doc sample_fragment) ''events'')).
        \<exists>i e. x = Some (i, e) \<and> i = ''p''"
      unfolding ev by simp
    with p show "\<forall>u \<in> set (seq_or_empty (frag_doc sample_fragment) ''events'').
        \<exists>i e. event_entry u = Some (i, e)
          \<and> i \<in> packet_ids (one_packet ''p'' ''ready'') \<union> declared_ids [sample_fragment]" by auto
    have lw: "map packet_id_of (lww_entries (frag_doc sample_fragment)) = [Some ''p'']" by code_simp
    have "\<forall>x \<in> set (map packet_id_of (lww_entries (frag_doc sample_fragment))). x = Some ''p''"
      unfolding lw by simp
    with p show "\<forall>u \<in> set (lww_entries (frag_doc sample_fragment)). \<forall>i. packet_id_of u = Some i \<longrightarrow>
        i \<in> packet_ids (one_packet ''p'' ''ready'') \<union> declared_ids [sample_fragment]" by auto
    show "\<forall>p \<in> set (seq_or_empty (frag_doc sample_fragment) ''packets''). packet_id_of p \<noteq> None"
      "seq_or_empty (frag_doc sample_fragment) ''capabilities'' = []" by code_simp+
  qed simp
  moreover have "frag_path sample_fragment = ''s''" by code_simp
  ultimately show ?thesis by simp
qed



theorem fold_field_is_latest_write_witness:
  "yget (hd (collect_packets (fold_ledger (one_packet ''p'' ''ready'') [sample_fragment]))) ''next_action''
    = Some (YString ''go'')"
proof -
  let ?base = "one_packet ''p'' ''ready''" and ?fr = "[sample_fragment]"
  have "accepts_packets ?base" "''packet_id'' \<notin> written_fields ?fr"
    "hd (collect_packets (fold_ledger ?base ?fr)) \<in> set (collect_packets (fold_ledger ?base ?fr))"
    "packet_id_of (hd (collect_packets (fold_ledger ?base ?fr))) = Some ''p''"
    "sep \<notin> set ''p''" "sep \<notin> set ''next_action''"
    "''next_action'' \<notin> {''status'', ''events'', ''next_action_ts''}"
    by code_simp+
  note latest = fold_field_is_latest_write[OF this]
  have ws: "map (\<lambda>c. e_value (c_entry c)) (writes_to ?fr ''p'' ''next_action'') = [YString ''go'']"
    by code_simp
  then have "writes_to ?fr ''p'' ''next_action'' \<noteq> []" by auto
  with latest obtain w where w: "w \<in> set (writes_to ?fr ''p'' ''next_action'')"
    "yget (hd (collect_packets (fold_ledger ?base ?fr))) ''next_action'' = Some (e_value (c_entry w))"
    by auto
  from w(1) have "e_value (c_entry w) \<in> set (map (\<lambda>c. e_value (c_entry c)) (writes_to ?fr ''p'' ''next_action''))"
    by simp
  with ws w(2) show ?thesis by simp
qed




text \<open>On an empty base file, whose document is null, the fold returns null: every declared packet
  is dropped.\<close>

theorem fold_null_base: "fold_ledger YNull frags = YNull"
  by (simp add: fold_ledger_alt append_packets_def)

end
