(* ===== verification/Spans.thy ===== *)
theory Spans
  imports Yaml
begin

text \<open>
  Line spans of packets in the raw ledger text (\<open>indent_of\<close> and \<open>packet_spans\<close> of
  \<open>crates/tillandsias-plan/src/lib.rs\<close>). A span is a pair of 1-indexed, inclusive line numbers.
\<close>

definition indent_of :: "string \<Rightarrow> nat" where
  "indent_of line = length line - length (trim_start line)"

definition is_blank :: "string \<Rightarrow> bool" where
  "is_blank line \<longleftrightarrow> trim line = []"

definition is_dash :: "string \<Rightarrow> bool" where
  "is_dash line \<longleftrightarrow> starts_with ''- '' (trim_start line)"

definition quote_chars :: "char \<Rightarrow> bool" where
  "quote_chars c \<longleftrightarrow> c = CHR 34 \<or> c = CHR 39"

text \<open>The id on a \<open>packet_id:\<close> line, with or without the list marker.\<close>

definition span_id :: "string \<Rightarrow> string option" where
  "span_id line =
     (let trimmed = trim_start line;
          rest = (case strip_prefix ''- packet_id:'' trimmed of
                    Some r \<Rightarrow> Some r
                  | None \<Rightarrow> strip_prefix ''packet_id:'' trimmed)
      in case rest of
           None \<Rightarrow> None
         | Some r \<Rightarrow> (let i = trim_chars quote_chars (trim r) in if i = [] then None else Some i))"

definition span_head :: "string list \<Rightarrow> nat \<Rightarrow> nat \<times> nat" where
  "span_head ls i =
     (let line = ls ! i in
      if is_dash line then (i, indent_of line)
      else (case find (\<lambda>j. is_dash (ls ! j) \<and> indent_of (ls ! j) < indent_of line) (rev [0..<i]) of
              Some j \<Rightarrow> (j, indent_of (ls ! j))
            | None \<Rightarrow> (i, indent_of line)))"

definition ends_item :: "nat \<Rightarrow> string \<Rightarrow> bool" where
  "ends_item head_indent l \<longleftrightarrow>
     \<not> is_blank l \<and>
     (indent_of l < head_indent \<or> (indent_of l = head_indent \<and> is_dash l))"

definition item_end :: "string list \<Rightarrow> nat \<Rightarrow> nat \<Rightarrow> nat" where
  "item_end ls head head_indent =
     (case find (\<lambda>j. ends_item head_indent (ls ! j)) [Suc head..<length ls] of
        Some j \<Rightarrow> j | None \<Rightarrow> length ls)"

fun drop_blank_end :: "string list \<Rightarrow> nat \<Rightarrow> nat \<Rightarrow> nat" where
  "drop_blank_end ls low 0 = 0"
| "drop_blank_end ls low (Suc e) =
     (if low < Suc e \<and> is_blank (ls ! e) then drop_blank_end ls low e else Suc e)"

definition span_at :: "string list \<Rightarrow> nat \<Rightarrow> nat \<times> nat" where
  "span_at ls i =
     (let (head, head_indent) = span_head ls i
      in (Suc head, drop_blank_end ls (Suc head) (item_end ls head head_indent)))"

definition bt_or_insert :: "'k::linorder \<Rightarrow> 'v \<Rightarrow> ('k, 'v) btmap \<Rightarrow> ('k, 'v) btmap" where
  "bt_or_insert k v m = (if map_of m k = None then bt_insert k v m else m)"

definition packet_spans :: "string \<Rightarrow> (string, nat \<times> nat) btmap" where
  "packet_spans raw =
     (let ls = lines raw in
      foldl (\<lambda>spans i.
          case span_id (ls ! i) of
            None \<Rightarrow> spans
          | Some pid \<Rightarrow> bt_or_insert pid (span_at ls i) spans)
        [] [0..<length ls])"

subsection \<open>What the spans say\<close>

lemma span_head_le: "span_head ls i = (h, n) \<Longrightarrow> h \<le> i \<and> n = indent_of (ls ! h)"
  by (auto simp: span_head_def Let_def find_Some_iff split: if_splits option.splits)
    (auto simp: rev_nth)

lemma item_end_bounds: "head < length ls \<Longrightarrow> head < item_end ls head n \<and> item_end ls head n \<le> length ls"
  by (auto simp: item_end_def find_Some_iff split: option.splits)

lemma drop_blank_end_bounds:
  "low \<le> e \<Longrightarrow> low \<le> drop_blank_end ls low e \<and> drop_blank_end ls low e \<le> e"
  by (induction ls low e rule: drop_blank_end.induct) auto

lemma drop_blank_end_keeps:
  "k < e \<Longrightarrow> \<not> is_blank (ls ! k) \<Longrightarrow> k < drop_blank_end ls low e"
  by (induction ls low e rule: drop_blank_end.induct) (auto simp: less_Suc_eq)

lemma span_at_bounds:
  assumes "i < length ls" and "span_at ls i = (s, e)"
  shows "1 \<le> s \<and> s \<le> e \<and> e \<le> length ls \<and> s \<le> Suc i"
proof -
  obtain h n where h: "span_head ls i = (h, n)" by (cases "span_head ls i")
  with span_head_le have "h \<le> i" by blast
  with assms(1) have "h < length ls" by simp
  from item_end_bounds[OF this, of n] have b: "Suc h \<le> item_end ls h n" "item_end ls h n \<le> length ls"
    by auto
  from drop_blank_end_bounds[OF b(1), of ls] b(2) \<open>h \<le> i\<close> assms(2) h show ?thesis
    by (auto simp: span_at_def)
qed

lemma span_id_not_blank:
  assumes "span_id line = Some i"
  shows "\<not> is_blank line"
proof -
  let ?t = "trim_start line"
  from assms have "starts_with ''- packet_id:'' ?t \<or> starts_with ''packet_id:'' ?t"
    by (auto simp: span_id_def strip_prefix_def Let_def split: if_splits option.splits)
  then have "?t \<noteq> [] \<and> hd ?t \<in> {CHR ''-'', CHR ''p''}"
    by (cases ?t) (auto simp: starts_with_def)
  moreover have "\<forall>w \<in> set white_space. hd w \<notin> {CHR ''-'', CHR ''p''}" by code_simp
  ultimately show ?thesis using trim_end_nonempty[of ?t] by (auto simp: is_blank_def trim_def)
qed

text \<open>A line between the item head and the id that leaves the list hides the id from the span.\<close>

definition head_encloses :: "string list \<Rightarrow> nat \<Rightarrow> bool" where
  "head_encloses ls i =
     (let (h, n) = span_head ls i in \<forall>j \<in> {Suc h..<i}. is_blank (ls ! j) \<or> n \<le> indent_of (ls ! j))"

lemma span_at_contains:
  assumes "i < length ls" and "span_id (ls ! i) = Some p" and "head_encloses ls i"
    and "span_at ls i = (s, e)"
  shows "s \<le> Suc i \<and> Suc i \<le> e"
proof -
  obtain h n where h: "span_head ls i = (h, n)" by (cases "span_head ls i")
  from span_head_le[OF h] have hi: "h \<le> i" and n: "n = indent_of (ls ! h)" by auto
  have open_before: "\<not> ends_item n (ls ! j)" if "h < j" "j \<le> i" for j
  proof (cases "j = i")
    case True
    with that h show ?thesis
      by (auto simp: span_head_def ends_item_def Let_def find_Some_iff split: if_splits option.splits)
  next
    case False
    with that have j: "j \<in> {Suc h..<i}" by auto
    have nd: "\<not> (is_dash (ls ! j) \<and> indent_of (ls ! j) = n)"
    proof
      assume dash: "is_dash (ls ! j) \<and> indent_of (ls ! j) = n"
      from h that False have "\<not> is_dash (ls ! i)"
        by (auto simp: span_head_def Let_def split: if_splits)
      with h that False have f: "find (\<lambda>j. is_dash (ls ! j) \<and> indent_of (ls ! j) < indent_of (ls ! i))
          (rev [0..<i]) = Some h"
        by (auto simp: span_head_def Let_def split: if_splits option.splits)
      then obtain k where k: "k < i" "rev [0..<i] ! k = h"
        "indent_of (ls ! h) < indent_of (ls ! i)"
        "\<forall>l < k. \<not> (is_dash (ls ! (rev [0..<i] ! l)) \<and> indent_of (ls ! (rev [0..<i] ! l)) < indent_of (ls ! i))"
        by (auto simp: find_Some_iff)
      from k(1,2) have kh: "h = i - Suc k" by (simp add: rev_nth)
      have "i - Suc j < k" using j kh k(1) by auto
      with k(4) have "\<not> (is_dash (ls ! (rev [0..<i] ! (i - Suc j)))
          \<and> indent_of (ls ! (rev [0..<i] ! (i - Suc j))) < indent_of (ls ! i))" by blast
      moreover have "rev [0..<i] ! (i - Suc j) = j" using j by (simp add: rev_nth)
      ultimately show False using dash k(3) n by simp
    qed
    from assms(3) h j have "is_blank (ls ! j) \<or> n \<le> indent_of (ls ! j)"
      by (auto simp: head_encloses_def)
    with nd show ?thesis by (auto simp: ends_item_def)
  qed
  have "i < item_end ls h n"
  proof (cases "find (\<lambda>j. ends_item n (ls ! j)) [Suc h..<length ls]")
    case (Some j)
    then have "ends_item n (ls ! j)" "h < j" by (auto simp: find_Some_iff)
    with open_before have "\<not> j \<le> i" by blast
    with Some show ?thesis by (simp add: item_end_def)
  qed (use assms(1) in \<open>simp add: item_end_def\<close>)
  from drop_blank_end_keeps[OF this span_id_not_blank[OF assms(2)]] hi assms(4) h
  show ?thesis by (auto simp: span_at_def Suc_le_eq)
qed

lemma map_of_bt_or_insert [simp]:
  "map_of (bt_or_insert k v m) j = (if j = k \<and> map_of m k = None then Some v else map_of m j)"
  by (auto simp: bt_or_insert_def)

lemma packet_spans_Some:
  assumes "map_of (packet_spans raw) p = Some se"
  obtains i where "i < length (lines raw)" and "span_id (lines raw ! i) = Some p"
    and "se = span_at (lines raw) i" and "\<forall>j < i. span_id (lines raw ! j) \<noteq> Some p"
proof -
  let ?ls = "lines raw"
  let ?f = "\<lambda>spans i. case span_id (?ls ! i) of None \<Rightarrow> spans
    | Some pid \<Rightarrow> bt_or_insert pid (span_at ?ls i) spans"
  have "map_of (foldl ?f [] [0..<n]) p = Some se \<Longrightarrow> n \<le> length ?ls \<Longrightarrow>
      \<exists>i < n. span_id (?ls ! i) = Some p \<and> se = span_at ?ls i \<and> (\<forall>j < i. span_id (?ls ! j) \<noteq> Some p)"
    and "map_of (foldl ?f [] [0..<n]) p = None \<Longrightarrow> \<forall>j < n. span_id (?ls ! j) \<noteq> Some p" for n
    by (induction n) (auto simp: less_Suc_eq split: option.splits if_splits)
  from this(1)[of "length ?ls"] assms show ?thesis
    by (auto simp: packet_spans_def Let_def intro: that)
qed

text \<open>Every span the ledger reports lies within the file, and it contains the \<open>packet_id:\<close> line
  it was made from whenever no line between the enclosing list item and that line dedents out of the
  list.\<close>

theorem packet_span_contains_id:
  assumes "map_of (packet_spans raw) p = Some (s, e)"
  shows "1 \<le> s \<and> s \<le> e \<and> e \<le> length (lines raw)
    \<and> (\<exists>i < length (lines raw). span_id (lines raw ! i) = Some p
         \<and> (head_encloses (lines raw) i \<longrightarrow> s \<le> Suc i \<and> Suc i \<le> e))"
  using assms
proof (rule packet_spans_Some)
  fix i assume i: "i < length (lines raw)" "span_id (lines raw ! i) = Some p"
    "(s, e) = span_at (lines raw) i"
  with span_at_bounds[OF i(1) i(3)[symmetric]] span_at_contains[OF i(1,2) _ i(3)[symmetric]]
  show ?thesis by blast
qed

text \<open>A mapping-valued packet below a list of another key.\<close>

definition stray_text :: string where
  "stray_text = concat (map (\<lambda>l. l @ [CHR 10])
     [''notes:'', ''  - a'', ''main:'', ''    packet_id: x''])"

theorem packet_span_contains_id_witness:
  "map_of (packet_spans stray_text) ''x'' = Some (2, 2) \<and> (1::nat) \<le> 2"
proof -
  have "map_of (packet_spans stray_text) ''x'' = Some (2, 2)" by code_simp
  with packet_span_contains_id[OF this] show ?thesis by blast
qed

text \<open>A span can miss the packet it is the citation for: for a packet that is a mapping value
  rather than a list item, the walk back stops at an unrelated list item, and the span ends before
  the \<open>packet_id:\<close> line.\<close>

theorem packet_span_can_miss_id:
  "\<exists>raw s e. map_of (packet_spans raw) ''x'' = Some (s, e)
     \<and> (\<forall>i \<in> {s - 1..<e}. span_id (lines raw ! i) = None)"
proof -
  have "map_of (packet_spans stray_text) ''x'' = Some (2, 2)" by code_simp
  moreover have "span_id (lines stray_text ! 1) = None" by code_simp
  moreover have "{2 - 1..<2::nat} = {1}" by auto
  ultimately show ?thesis by (intro exI[of _ stray_text] exI[of _ 2]) simp
qed

end
