(* ===== verification/Ledger.thy ===== *)
theory Ledger
  imports Spans Ladder
begin

text \<open>
  The plan ledger (\<open>struct Ledger\<close> of \<open>crates/tillandsias-plan/src/lib.rs\<close>): its indexes, the
  archive beside it, resolution of references, and the dependency queries. The YAML parser is a
  parameter; the archive directory is the list of its readable files.
\<close>

subsection \<open>Order tokens\<close>

fun show_number :: "ynumber \<Rightarrow> string" where
  "show_number (PosInt n) = show_nat n"
| "show_number (NegInt i) = (if i < 0 then ''-'' @ show_nat (nat (- i)) else show_nat (nat i))"
| "show_number (FloatText t) = t"

definition normalize_order_token :: "string \<Rightarrow> string" where
  "normalize_order_token r = to_ascii_lowercase (trim r)"

fun order_token :: "yaml \<Rightarrow> string option" where
  "order_token (YNumber n) = Some (normalize_order_token (show_number n))"
| "order_token (YString s) = Some (normalize_order_token s)"
| "order_token _ = None"

definition packet_token :: "yaml \<Rightarrow> string option" where
  "packet_token p = Option.bind (yget p ''order'') order_token"

definition packet_order :: "yaml \<Rightarrow> nat option" where
  "packet_order p = Option.bind (yget p ''order'') as_u64"

subsection \<open>Indexes\<close>

text \<open>Claims on a key: the first claimant and the number of claims.\<close>

type_synonym 'k claims = "('k, string \<times> nat) btmap"

definition claim :: "'k::linorder \<Rightarrow> string \<Rightarrow> 'k claims \<Rightarrow> 'k claims" where
  "claim k i m =
     (case map_of m k of None \<Rightarrow> bt_insert k (i, 1) m | Some (j, n) \<Rightarrow> bt_insert k (j, n + 1) m)"

definition unambiguous :: "'k claims \<Rightarrow> ('k, string) btmap" where
  "unambiguous m = map (\<lambda>(k, (i, _)). (k, i)) (filter (\<lambda>(_, (_, n)). n = 1) m)"

definition claim_packet :: "string \<Rightarrow> yaml \<Rightarrow> nat claims \<times> string claims \<Rightarrow> nat claims \<times> string claims" where
  "claim_packet i p = (\<lambda>(oc, tc).
     ((case packet_order p of None \<Rightarrow> oc | Some n \<Rightarrow> claim n i oc),
      (case packet_token p of None \<Rightarrow> tc | Some t \<Rightarrow> claim t i tc)))"

record lookup =
  lk_by_id :: "(string, nat) btmap"
  lk_by_order :: "(nat, string) btmap"
  lk_by_order_token :: "(string, string) btmap"

definition index_step ::
  "(string, nat) btmap \<times> nat claims \<times> string claims \<Rightarrow> nat \<times> yaml
    \<Rightarrow> (string, nat) btmap \<times> nat claims \<times> string claims" where
  "index_step = (\<lambda>(ids, cl) (idx, p).
     (case get_str p ''packet_id'' of
        None \<Rightarrow> (ids, cl)
      | Some i \<Rightarrow> (bt_insert i idx ids, claim_packet i p cl)))"

text \<open>The loop shared by \<open>from_doc\<close> and \<open>reindex\<close>: the last packet with an id has it, the first
  claimant of an unambiguous order has that.\<close>

definition index_packets :: "yaml list \<Rightarrow> lookup" where
  "index_packets ps =
     (let (ids, oc, tc) = foldl index_step ([], [], []) (zip [0..<length ps] ps)
      in \<lparr>lk_by_id = ids, lk_by_order = unambiguous oc, lk_by_order_token = unambiguous tc\<rparr>)"

subsection \<open>Archive\<close>

record archive =
  ar_packets :: "yaml list"
  ar_lookup :: lookup
  ar_spans :: "(string, string \<times> nat \<times> nat) btmap"

definition empty_lookup :: lookup where
  "empty_lookup = \<lparr>lk_by_id = [], lk_by_order = [], lk_by_order_token = []\<rparr>"

definition empty_archive :: archive where
  "empty_archive = \<lparr>ar_packets = [], ar_lookup = empty_lookup, ar_spans = []\<rparr>"

record archive_acc =
  aa_packets :: "yaml list"
  aa_by_id :: "(string, nat) btmap"
  aa_claims :: "nat claims \<times> string claims"
  aa_spans :: "(string, string \<times> nat \<times> nat) btmap"

definition archive_packet ::
  "string \<Rightarrow> (string, nat \<times> nat) btmap \<Rightarrow> archive_acc \<Rightarrow> yaml \<Rightarrow> archive_acc" where
  "archive_packet file spans acc p =
     (case str_field p ''packet_id'' of
        None \<Rightarrow> acc
      | Some i \<Rightarrow>
          (if map_of (aa_by_id acc) i \<noteq> None then acc
           else \<lparr>aa_packets = aa_packets acc @ [p],
                 aa_by_id = bt_insert i (length (aa_packets acc)) (aa_by_id acc),
                 aa_claims = claim_packet i p (aa_claims acc),
                 aa_spans = (case map_of spans i of
                               None \<Rightarrow> aa_spans acc
                             | Some (s, e) \<Rightarrow> bt_insert i (file, s, e) (aa_spans acc))\<rparr>))"

text \<open>The readable files of the archive directory as (name, text).\<close>

definition collect_archive ::
  "(string \<Rightarrow> (string + yaml)) \<Rightarrow> (string \<times> string) list \<Rightarrow> archive" where
  "collect_archive parse_yaml files =
     (let yaml_files = filter (\<lambda>(name, _). ends_with ''.yaml'' name \<and> name \<noteq> ''.yaml'') files;
          acc = foldl (\<lambda>acc (name, raw).
              (case parse_yaml raw of
                 Inl _ \<Rightarrow> acc
               | Inr doc \<Rightarrow> foldl (archive_packet name (packet_spans raw)) acc (collect_packets doc)))
            \<lparr>aa_packets = [], aa_by_id = [], aa_claims = ([], []), aa_spans = []\<rparr>
            (sort_key fst yaml_files)
      in \<lparr>ar_packets = aa_packets acc,
          ar_lookup = \<lparr>lk_by_id = aa_by_id acc,
                       lk_by_order = unambiguous (fst (aa_claims acc)),
                       lk_by_order_token = unambiguous (snd (aa_claims acc))\<rparr>,
          ar_spans = aa_spans acc\<rparr>)"

subsection \<open>The ledger\<close>

record field_source =
  fs_fragment_name :: string
  fs_line_start :: nat
  fs_line_end :: nat

record ledger =
  lg_packets :: "yaml list"
  lg_lookup :: lookup
  lg_archived_ids :: "string list"
  lg_archive :: archive
  lg_spans :: "(string, nat \<times> nat) btmap"
  lg_source_path :: "string option"
  lg_origin_sources :: "(string, field_source) btmap"
  lg_field_sources :: "(string, field_source) btmap"
  lg_status_leases :: "(string, string \<times> string) btmap"
  lg_corpus_files :: "string list"
  lg_skipped_fragments :: "string list"

definition from_doc :: "string \<Rightarrow> yaml \<Rightarrow> string list \<Rightarrow> ledger" where
  "from_doc raw doc archived =
     (let packets = collect_packets doc
      in \<lparr>lg_packets = packets, lg_lookup = index_packets packets, lg_archived_ids = archived,
          lg_archive = empty_archive, lg_spans = packet_spans raw, lg_source_path = None,
          lg_origin_sources = [], lg_field_sources = [], lg_status_leases = [],
          lg_corpus_files = [], lg_skipped_fragments = []\<rparr>)"

definition parse_ledger :: "(string \<Rightarrow> (string + yaml)) \<Rightarrow> string \<Rightarrow> string list \<Rightarrow> string + ledger" where
  "parse_ledger parse_yaml raw archived =
     (case parse_yaml raw of
        Inl e \<Rightarrow> Inl (''parse: '' @ e)
      | Inr doc \<Rightarrow> Inr (from_doc raw doc archived))"

text \<open>\<open>load_with_doc\<close>, given the file's text (or the error of reading it) and the archive files.\<close>

definition load_with_doc ::
  "(string \<Rightarrow> (string + yaml)) \<Rightarrow> string \<Rightarrow> string + string \<Rightarrow> (string \<times> string) list
    \<Rightarrow> string + (ledger \<times> yaml)" where
  "load_with_doc parse_yaml path contents archive_files =
     (case contents of
        Inl e \<Rightarrow> Inl (''read '' @ path @ '': '' @ e)
      | Inr raw \<Rightarrow>
          (let archive = collect_archive parse_yaml archive_files
           in case parse_yaml raw of
                Inl e \<Rightarrow> Inl (path @ '': parse: '' @ e)
              | Inr doc \<Rightarrow>
                  Inr ((from_doc raw doc (map fst (lk_by_id (ar_lookup archive))))
                         \<lparr>lg_archive := archive, lg_source_path := Some path\<rparr>, doc)))"

definition set_fragment_sources ::
  "(string, field_source) btmap \<Rightarrow> (string, field_source) btmap \<Rightarrow> (string, string \<times> string) btmap
    \<Rightarrow> string list \<Rightarrow> string list \<Rightarrow> ledger \<Rightarrow> ledger" where
  "set_fragment_sources origins wins leases corpus skipped lg =
     lg\<lparr>lg_origin_sources := origins, lg_field_sources := wins, lg_status_leases := leases,
        lg_corpus_files := corpus, lg_skipped_fragments := skipped\<rparr>"

definition reindex :: "ledger \<Rightarrow> ledger" where
  "reindex lg = lg\<lparr>lg_lookup := index_packets (lg_packets lg)\<rparr>"

definition fold_is_complete :: "ledger \<Rightarrow> bool" where
  "fold_is_complete lg \<longleftrightarrow> lg_skipped_fragments lg = []"

definition reference_resolves :: "ledger \<Rightarrow> string \<Rightarrow> bool" where
  "reference_resolves lg r \<longleftrightarrow>
     map_of (lk_by_id (lg_lookup lg)) r \<noteq> None \<or> r \<in> set (lg_archived_ids lg)"

definition is_archived :: "ledger \<Rightarrow> string \<Rightarrow> bool" where
  "is_archived lg i \<longleftrightarrow> map_of (lk_by_id (ar_lookup (lg_archive lg))) i \<noteq> None"

subsection \<open>Resolution\<close>

text \<open>The three lookups, by id, by integer order, by order token, over one packet list.\<close>

definition lookup_index :: "lookup \<Rightarrow> string \<Rightarrow> nat option" where
  "lookup_index lk reference =
     (case map_of (lk_by_id lk) reference of
        Some idx \<Rightarrow> Some idx
      | None \<Rightarrow>
          (case Option.bind (Option.bind (parse_u64 reference) (map_of (lk_by_order lk)))
                  (map_of (lk_by_id lk)) of
             Some idx \<Rightarrow> Some idx
           | None \<Rightarrow> Option.bind (map_of (lk_by_order_token lk) (normalize_order_token reference))
                      (map_of (lk_by_id lk))))"

definition resolve_archived :: "ledger \<Rightarrow> string \<Rightarrow> yaml option" where
  "resolve_archived lg reference =
     map_option ((!) (ar_packets (lg_archive lg))) (lookup_index (ar_lookup (lg_archive lg)) reference)"

definition resolve :: "ledger \<Rightarrow> string \<Rightarrow> yaml option" where
  "resolve lg reference =
     (case lookup_index (lg_lookup lg) reference of
        Some idx \<Rightarrow> Some (lg_packets lg ! idx)
      | None \<Rightarrow> resolve_archived lg reference)"

definition id_of :: "yaml \<Rightarrow> string" where
  "id_of p = unwrap_or ''<missing-id>'' (str_field p ''packet_id'')"

definition active_then_archived :: "ledger \<Rightarrow> yaml list" where
  "active_then_archived lg = lg_packets lg @ ar_packets (lg_archive lg)"

definition ambiguous_claimants :: "ledger \<Rightarrow> string \<Rightarrow> string list" where
  "ambiguous_claimants lg reference =
     (let wanted = normalize_order_token reference;
          ids = List.map_filter (\<lambda>p. str_field p ''packet_id'')
                  (filter (\<lambda>p. packet_token p = Some wanted) (active_then_archived lg))
      in if length ids < 2 then [] else sort ids)"

subsection \<open>Dependency queries\<close>

definition blocked_by :: "ledger \<Rightarrow> string \<Rightarrow> yaml list" where
  "blocked_by lg reference =
     (case resolve lg reference of
        None \<Rightarrow> []
      | Some t \<Rightarrow> filter (\<lambda>p. id_of t \<in> set (str_list p ''depends_on'')) (active_then_archived lg))"

fun open_dependencies :: "ledger \<Rightarrow> string set \<Rightarrow> string list \<Rightarrow> yaml list" where
  "open_dependencies lg seen [] = []"
| "open_dependencies lg seen (d # ds) =
     (if d \<in> seen then open_dependencies lg seen ds
      else let rest = open_dependencies lg (insert d seen) ds in
        if d \<in> set (lg_archived_ids lg) then rest
        else (case resolve lg d of
                None \<Rightarrow> rest
              | Some p \<Rightarrow>
                  (if (case str_field p ''status'' of None \<Rightarrow> False | Some s \<Rightarrow> is_terminal_status s)
                   then rest else p # rest)))"

definition dependencies_of :: "ledger \<Rightarrow> string \<Rightarrow> yaml list option" where
  "dependencies_of lg reference =
     map_option (\<lambda>t. open_dependencies lg {} (str_list t ''depends_on'')) (resolve lg reference)"

text \<open>\<open>ParkedBlock\<close>, as the tuple (dependency, status, dependent, outstanding) that its derived
  order compares.\<close>

type_synonym parked_block = "string \<times> string \<times> string \<times> string"

definition parked_block_new :: "string \<Rightarrow> string \<Rightarrow> string \<Rightarrow> yaml \<Rightarrow> parked_block" where
  "parked_block_new dependent dependency status dep =
     (let outstanding = (case str_field dep ''next_action'' of
            None \<Rightarrow> []
          | Some s \<Rightarrow> trim (unwrap_or [] (find (\<lambda>l. trim l \<noteq> []) (lines s))))
      in (dependency, status, dependent, outstanding))"

definition parked_edges :: "ledger \<Rightarrow> yaml \<Rightarrow> parked_block list" where
  "parked_edges lg packet =
     List.map_filter (\<lambda>d.
         if d \<in> set (lg_archived_ids lg) then None
         else (case resolve lg d of
                 None \<Rightarrow> None
               | Some dep \<Rightarrow>
                   (let status = unwrap_or [] (str_field dep ''status'')
                    in if is_parked_status status
                       then Some (parked_block_new (id_of packet) (id_of dep) status dep) else None)))
       (str_list packet ''depends_on'')"

definition parked_dependencies_of :: "ledger \<Rightarrow> string \<Rightarrow> parked_block list" where
  "parked_dependencies_of lg reference =
     (case resolve lg reference of None \<Rightarrow> [] | Some t \<Rightarrow> sort (parked_edges lg t))"

definition parked_blocks :: "ledger \<Rightarrow> parked_block list" where
  "parked_blocks lg = remdups_adj (sort (concat (map (parked_edges lg) (lg_packets lg))))"

text \<open>\<open>SplitParent\<close>: (parent, status, children).\<close>

type_synonym split_parent = "string \<times> string \<times> (string \<times> string) list"

definition split_parent_of :: "ledger \<Rightarrow> yaml \<Rightarrow> split_parent option" where
  "split_parent_of lg packet =
     (let status = unwrap_or [] (str_field packet ''status'') in
      if status \<noteq> ''ready'' then None
      else if yget packet ''retains_direct_work'' = Some (YBool True) then None
      else let children = List.map_filter (\<lambda>c.
             if c \<in> set (lg_archived_ids lg) then None
             else map_option (\<lambda>p. (id_of p, unwrap_or [] (str_field p ''status''))) (resolve lg c))
           (str_list packet ''split_into'')
        in if children = [] then None
           else Some (id_of packet, status, remdups_adj (sort children)))"

definition split_parents :: "ledger \<Rightarrow> split_parent list" where
  "split_parents lg = sort (List.map_filter (split_parent_of lg) (lg_packets lg))"

definition ready :: "ledger \<Rightarrow> string option \<Rightarrow> yaml list" where
  "ready lg role =
     filter (\<lambda>p. (case role of None \<Rightarrow> True
              | Some r \<Rightarrow> (case str_field p ''pickup_role'' of
                            None \<Rightarrow> False | Some pr \<Rightarrow> pr = r \<or> pr = ''any'')))
       (filter (\<lambda>p. str_field p ''status'' = Some ''ready'') (lg_packets lg))"

definition milestone_children :: "ledger \<Rightarrow> string \<Rightarrow> yaml list" where
  "milestone_children lg reference =
     (case resolve lg reference of
        None \<Rightarrow> []
      | Some t \<Rightarrow> filter (\<lambda>p. str_field p ''release_target'' = Some (id_of t)) (active_then_archived lg))"

definition count_release :: "ledger \<Rightarrow> string \<Rightarrow> nat \<times> nat" where
  "count_release lg release =
     (let mine = filter (\<lambda>p. str_field p ''desired_release'' = Some release) (lg_packets lg)
      in (length (filter (\<lambda>p. \<not> is_terminal_status (unwrap_or [] (str_field p ''status''))) mine),
          length mine))"

subsection \<open>The transitive closure\<close>

text \<open>One dependent met while the node on top of the stack is expanded.\<close>

definition visit ::
  "string set \<times> string list \<times> yaml list \<Rightarrow> yaml \<Rightarrow> string set \<times> string list \<times> yaml list" where
  "visit = (\<lambda>(seen, frontier, result) p.
     (let i = id_of p
      in if i \<in> seen then (seen, frontier, result)
         else (insert i seen, frontier @ [i], result @ [p])))"

definition all_ids :: "ledger \<Rightarrow> string set" where
  "all_ids lg = id_of ` set (active_then_archived lg)"

lemma visit_run:
  "foldl visit (seen, fr, res) ps = (seen', fr', res') \<Longrightarrow>
     \<exists>new. fr' = fr @ map id_of new \<and> res' = res @ new \<and> seen' = seen \<union> id_of ` set new
       \<and> set new \<subseteq> set ps \<and> distinct (map id_of new) \<and> id_of ` set new \<inter> seen = {}
       \<and> id_of ` set ps \<subseteq> seen'"
proof (induction ps arbitrary: seen fr res)
  case (Cons p ps)
  show ?case
  proof (cases "id_of p \<in> seen")
    case True
    with Cons.prems have "foldl visit (seen, fr, res) ps = (seen', fr', res')" by (simp add: visit_def)
    from Cons.IH[OF this] obtain new where "fr' = fr @ map id_of new" "res' = res @ new"
      "seen' = seen \<union> id_of ` set new" "set new \<subseteq> set ps" "distinct (map id_of new)"
      "id_of ` set new \<inter> seen = {}" "id_of ` set ps \<subseteq> seen'" by blast
    with True show ?thesis by (intro exI[of _ new]) auto
  next
    case False
    with Cons.prems
    have "foldl visit (insert (id_of p) seen, fr @ [id_of p], res @ [p]) ps = (seen', fr', res')"
      by (simp add: visit_def Let_def)
    from Cons.IH[OF this] obtain new where "fr' = (fr @ [id_of p]) @ map id_of new"
      "res' = (res @ [p]) @ new" "seen' = insert (id_of p) seen \<union> id_of ` set new" "set new \<subseteq> set ps"
      "distinct (map id_of new)" "id_of ` set new \<inter> insert (id_of p) seen = {}"
      "id_of ` set ps \<subseteq> seen'" by blast
    with False show ?thesis by (intro exI[of _ "p # new"]) auto
  qed
qed (simp add: exI[of _ "[]"])

lemma blocked_by_known: "set (blocked_by lg r) \<subseteq> set (active_then_archived lg)"
  by (auto simp: blocked_by_def split: option.splits)

function closure_loop :: "ledger \<Rightarrow> string set \<Rightarrow> string list \<Rightarrow> yaml list \<Rightarrow> yaml list" where
  "closure_loop lg seen frontier result =
     (if frontier = [] then result
      else (case foldl visit (seen, butlast frontier, result) (blocked_by lg (last frontier)) of
              (seen', frontier', result') \<Rightarrow> closure_loop lg seen' frontier' result'))"
  by pat_completeness auto
termination
proof (relation "measures [\<lambda>(lg, seen, fr, res). card (all_ids lg - seen), \<lambda>(lg, seen, fr, res). length fr]")
  fix lg seen frontier result seen' y frontier' result'
  assume ne: "frontier \<noteq> []"
    and x: "(seen', y) = foldl visit (seen, butlast frontier, result) (blocked_by lg (last frontier))"
    "(frontier', result') = y"
  then have "foldl visit (seen, butlast frontier, result) (blocked_by lg (last frontier)) =
    (seen', frontier', result')" by simp
  from visit_run[OF this] obtain new where new: "frontier' = butlast frontier @ map id_of new"
    "seen' = seen \<union> id_of ` set new" "set new \<subseteq> set (blocked_by lg (last frontier))"
    "id_of ` set new \<inter> seen = {}" by blast
  show "((lg, seen', frontier', result'), lg, seen, frontier, result) \<in>
    measures [\<lambda>(lg, seen, fr, res). card (all_ids lg - seen), \<lambda>(lg, seen, fr, res). length fr]"
  proof (cases new)
    case Nil
    with new ne show ?thesis by simp
  next
    case (Cons p ps)
    with new(3) blocked_by_known have "id_of p \<in> all_ids lg" by (fastforce simp: all_ids_def)
    with Cons new(4) have "id_of p \<in> all_ids lg - seen" by auto
    moreover from Cons new(2) have "all_ids lg - seen' \<subseteq> all_ids lg - seen"
      "id_of p \<notin> all_ids lg - seen'" by auto
    ultimately have "all_ids lg - seen' \<subset> all_ids lg - seen" by blast
    then have "card (all_ids lg - seen') < card (all_ids lg - seen)"
      by (intro psubset_card_mono) (simp_all add: all_ids_def)
    then show ?thesis by simp
  qed
qed simp

declare closure_loop.simps [simp del]

definition blocked_by_closure :: "ledger \<Rightarrow> string \<Rightarrow> yaml list" where
  "blocked_by_closure lg reference =
     closure_loop lg {} (case resolve lg reference of None \<Rightarrow> [] | Some p \<Rightarrow> [id_of p]) []"

end
