(* ===== verification/Ledger_Props.thy ===== *)
theory Ledger_Props
  imports Ledger Fold_Lookup
begin

text \<open>What the indexes of a ledger hold, how references resolve, and the dependency closure.\<close>

subsection \<open>Indexes\<close>

lemma map_of_claims:
  "map_of (foldl (\<lambda>m (k, i). claim k i m) m0 kis) k =
     (case (map_of m0 k, map snd (filter (\<lambda>ki. fst ki = k) kis)) of
        (None, []) \<Rightarrow> None
      | (None, i # is) \<Rightarrow> Some (i, Suc (length is))
      | (Some (j, n), is) \<Rightarrow> Some (j, n + length is))"
proof (induction kis arbitrary: m0)
  case Nil
  then show ?case by (auto split: option.splits)
next
  case (Cons ki kis)
  obtain k' i where ki: "ki = (k', i)" by (cases ki)
  have "map_of (claim k' i m0) k = (if k = k' then
      (case map_of m0 k of None \<Rightarrow> Some (i, 1) | Some (j, n) \<Rightarrow> Some (j, n + 1)) else map_of m0 k)"
    by (auto simp: claim_def split: option.splits)
  with Cons.IH[of "claim k' i m0"] ki show ?case
    by (auto split: option.splits list.splits)
qed

lemma claims_wf: "bt_wf m \<Longrightarrow> bt_wf (foldl (\<lambda>m (k, i). claim k i m) m kis)"
  by (induction kis arbitrary: m) (auto simp: claim_def split: option.splits)

lemma map_of_unambiguous:
  assumes "bt_wf m"
  shows "map_of (unambiguous m) k = (case map_of m k of Some (i, n) \<Rightarrow> if n = 1 then Some i else None | None \<Rightarrow> None)"
proof -
  have "distinct (map fst m) \<Longrightarrow> ?thesis"
  proof (induction m)
    case (Cons x m)
    obtain k' i n where x: "x = (k', i, n)" by (cases x)
    from Cons.prems x have "map_of m k' = None" by (simp add: map_of_eq_None_iff)
    moreover have "map_of (map (\<lambda>(k, (i, _)). (k, i)) (filter (\<lambda>(_, (_, n)). n = 1) m)) k' = None"
      if "map_of m k' = None"
      using that by (force simp: map_of_eq_None_iff)
    ultimately show ?case using Cons x by (auto simp: unambiguous_def split: option.splits)
  qed (simp add: unambiguous_def)
  with bt_wf_distinct[OF assms] show ?thesis by blast
qed

text \<open>The claims a list of packets makes.\<close>

definition claims_on :: "(yaml \<Rightarrow> 'k option) \<Rightarrow> yaml list \<Rightarrow> ('k \<times> string) list" where
  "claims_on key ps =
     List.map_filter (\<lambda>p. case (key p, packet_id_of p) of (Some k, Some i) \<Rightarrow> Some (k, i) | _ \<Rightarrow> None) ps"

lemma claims_on_Cons:
  "claims_on key (p # ps) =
     (case (key p, packet_id_of p) of (Some k, Some i) \<Rightarrow> (k, i) # claims_on key ps | _ \<Rightarrow> claims_on key ps)"
  by (auto simp: claims_on_def List.map_filter_simps split: option.splits)

lemma index_run:
  "foldl index_step (ids, oc, tc) xs =
     (foldl (\<lambda>m (i, idx). bt_insert i idx m) ids
        (List.map_filter (\<lambda>(idx, p). map_option (\<lambda>i. (i, idx)) (packet_id_of p)) xs),
      foldl (\<lambda>m (k, i). claim k i m) oc (claims_on packet_order (map snd xs)),
      foldl (\<lambda>m (k, i). claim k i m) tc (claims_on packet_token (map snd xs)))"
proof (induction xs arbitrary: ids oc tc)
  case (Cons x xs)
  obtain n p where x: "x = (n, p)" by (cases x)
  have step: "index_step (ids, oc, tc) (n, p) =
      (case packet_id_of p of None \<Rightarrow> (ids, oc, tc)
       | Some i \<Rightarrow> (bt_insert i n ids, claim_packet i p (oc, tc)))"
    by (simp add: index_step_def packet_id_of_def)
  show ?case
  proof (cases "packet_id_of p")
    case None
    with step show ?thesis
      by (simp add: x Cons.IH claims_on_Cons List.map_filter_simps split: option.split)
  next
    case (Some i)
    with step show ?thesis
      by (cases "packet_order p"; cases "packet_token p")
        (simp_all add: x Cons.IH claims_on_Cons List.map_filter_simps claim_packet_def)
  qed
qed (simp add: List.map_filter_simps claims_on_def)

lemma index_packets_alt:
  "lk_by_order (index_packets ps) = unambiguous (foldl (\<lambda>m (k, i). claim k i m) [] (claims_on packet_order ps))"
  "lk_by_order_token (index_packets ps) =
     unambiguous (foldl (\<lambda>m (k, i). claim k i m) [] (claims_on packet_token ps))"
  "lk_by_id (index_packets ps) = foldl (\<lambda>m (i, idx). bt_insert i idx m) []
     (List.map_filter (\<lambda>(idx, p). map_option (\<lambda>i. (i, idx)) (packet_id_of p)) (zip [0..<length ps] ps))"
  by (simp_all add: index_packets_def index_run Let_def)

lemma unique_claim:
  "map_of (unambiguous (foldl (\<lambda>m (k, i). claim k i m) [] kis)) k = Some i \<longleftrightarrow>
     map snd (filter (\<lambda>ki. fst ki = k) kis) = [i]"
  by (auto simp: map_of_unambiguous claims_wf map_of_claims split: list.splits if_splits)

text \<open>The index of a packet id: its last packet.\<close>

lemma by_id_spec:
  "map_of (lk_by_id (index_packets ps)) i = Some idx \<longleftrightarrow>
     idx < length ps \<and> packet_id_of (ps ! idx) = Some i \<and> (\<forall>j. idx < j \<and> j < length ps \<longrightarrow> packet_id_of (ps ! j) \<noteq> Some i)"
proof -
  let ?f = "\<lambda>m (i, idx). bt_insert i idx m"
  have "map_of (foldl ?f [] (List.map_filter (\<lambda>(idx, p). map_option (\<lambda>i. (i, idx)) (packet_id_of p))
        (zip [0..<length ps] ps))) i = Some idx \<longleftrightarrow>
     idx < length ps \<and> packet_id_of (ps ! idx) = Some i \<and> (\<forall>j. idx < j \<and> j < length ps \<longrightarrow> packet_id_of (ps ! j) \<noteq> Some i)"
  proof (induction ps rule: rev_induct)
    case (snoc p ps)
    have z: "zip [0..<length (ps @ [p])] (ps @ [p]) = zip [0..<length ps] ps @ [(length ps, p)]"
      by (simp add: zip_append1)
    have mf: "List.map_filter f (xs @ ys) = List.map_filter f xs @ List.map_filter f ys"
      for f :: "nat \<times> yaml \<Rightarrow> (string \<times> nat) option" and xs ys
      by (simp add: List.map_filter_def)
    show ?case
      unfolding z mf foldl_append
      using snoc.IH by (auto simp: List.map_filter_simps nth_append less_Suc_eq split: option.splits)
  qed (simp add: List.map_filter_simps)
  then show ?thesis by (simp add: index_packets_alt)
qed

lemma by_id_None: "map_of (lk_by_id (index_packets ps)) i = None \<longleftrightarrow> Some i \<notin> packet_id_of ` set ps"
proof
  assume none: "map_of (lk_by_id (index_packets ps)) i = None"
  show "Some i \<notin> packet_id_of ` set ps"
  proof
    assume "Some i \<in> packet_id_of ` set ps"
    then have ex: "\<exists>j. j < length ps \<and> packet_id_of (ps ! j) = Some i" by (auto simp: in_set_conv_nth)
    define m where "m = Max {j. j < length ps \<and> packet_id_of (ps ! j) = Some i}"
    have fin: "finite {j. j < length ps \<and> packet_id_of (ps ! j) = Some i}" by simp
    have "m \<in> {j. j < length ps \<and> packet_id_of (ps ! j) = Some i}"
      unfolding m_def by (rule Max_in[OF fin]) (use ex in auto)
    moreover have "\<forall>j. m < j \<and> j < length ps \<longrightarrow> packet_id_of (ps ! j) \<noteq> Some i"
      using Max_ge[OF fin] unfolding m_def by (auto simp: not_le[symmetric])
    ultimately have "map_of (lk_by_id (index_packets ps)) i = Some m" unfolding by_id_spec by auto
    with none show False by simp
  qed
next
  assume "Some i \<notin> packet_id_of ` set ps"
  then have "map_of (lk_by_id (index_packets ps)) i \<noteq> Some idx" for idx
    unfolding by_id_spec by (metis image_eqI nth_mem)
  then show "map_of (lk_by_id (index_packets ps)) i = None" by (metis not_Some_eq)
qed

subsection \<open>Resolution\<close>

definition indexed :: "ledger \<Rightarrow> bool" where
  "indexed lg \<longleftrightarrow> lg_lookup lg = index_packets (lg_packets lg)"

lemma indexed_from_doc: "indexed (from_doc raw doc archived)"
  by (simp add: indexed_def from_doc_def Let_def)

lemma indexed_reindex: "indexed (reindex lg)"
  by (simp add: indexed_def reindex_def)

definition unique_ids :: "ledger \<Rightarrow> bool" where
  "unique_ids lg \<longleftrightarrow> distinct (List.map_filter packet_id_of (lg_packets lg))"

text \<open>The live packets that claim an order token.\<close>

definition claimants :: "ledger \<Rightarrow> string \<Rightarrow> string list" where
  "claimants lg token = map snd (filter (\<lambda>ki. fst ki = token) (claims_on packet_token (lg_packets lg)))"

lemma unique_id_packet:
  assumes "distinct (List.map_filter packet_id_of ps)" and "p \<in> set ps" and "packet_id_of p = Some i"
    and "q \<in> set ps" and "packet_id_of q = Some i"
  shows "p = q"
  using assms
proof (induction ps)
  case (Cons a ps)
  show ?case
  proof (cases "packet_id_of a")
    case None
    with Cons show ?thesis by (auto simp: List.map_filter_simps)
  next
    case (Some j)
    with Cons.prems(1) have d: "j \<notin> set (List.map_filter packet_id_of ps)"
      "distinct (List.map_filter packet_id_of ps)" by (simp_all add: List.map_filter_simps)
    show ?thesis
    proof (cases "j = i")
      case True
      with d(1) have "\<forall>r \<in> set ps. packet_id_of r \<noteq> Some i" by (auto simp: set_map_filter)
      with Cons.prems show ?thesis by auto
    next
      case False
      with Some Cons d(2) show ?thesis by auto
    qed
  qed
qed simp

lemma lookup_by_id:
  assumes "indexed lg" and "p \<in> set (lg_packets lg)" and "packet_id_of p = Some i" and "unique_ids lg"
  obtains idx where "map_of (lk_by_id (lg_lookup lg)) i = Some idx" and "lg_packets lg ! idx = p"
proof -
  have "Some i \<in> packet_id_of ` set (lg_packets lg)" using assms(2,3) by force
  then obtain idx where idx: "map_of (lk_by_id (index_packets (lg_packets lg))) i = Some idx"
    using by_id_None[of "lg_packets lg" i] by fastforce
  then have "idx < length (lg_packets lg)" "packet_id_of (lg_packets lg ! idx) = Some i"
    unfolding by_id_spec by auto
  with unique_id_packet[OF _ assms(2,3), of "lg_packets lg ! idx"] assms(4)
  have "lg_packets lg ! idx = p" by (simp add: unique_ids_def)
  with idx assms(1) that show ?thesis by (simp add: indexed_def)
qed

lemma resolve_unique_id:
  assumes "indexed lg" and "unique_ids lg" and "p \<in> set (lg_packets lg)" and "packet_id_of p = Some i"
  shows "resolve lg i = Some p"
proof -
  from lookup_by_id[OF assms(1,3,4,2)] obtain idx where
    "map_of (lk_by_id (lg_lookup lg)) i = Some idx" "lg_packets lg ! idx = p" .
  then show ?thesis by (simp add: resolve_def lookup_index_def)
qed

text \<open>A packet id always resolves to the live packet that has it, whatever the orders and the
  archive say.\<close>

theorem resolve_packet_id:
  assumes "indexed lg" and "unique_ids lg" and "p \<in> set (lg_packets lg)" and "packet_id_of p = Some i"
  shows "resolve lg i = Some p"
  using assms by (rule resolve_unique_id)

lemma claimants_mem:
  "i \<in> set (claimants lg t) \<longleftrightarrow> (\<exists>p \<in> set (lg_packets lg). packet_id_of p = Some i \<and> packet_token p = Some t)"
  by (auto simp: claimants_def claims_on_def set_map_filter image_iff split: option.splits)

lemma token_lookup:
  assumes "indexed lg" and "Some r \<notin> packet_id_of ` set (lg_packets lg)" and "parse_u64 r = None"
  shows "lookup_index (lg_lookup lg) r =
    (case claimants lg (normalize_order_token r) of
       [i] \<Rightarrow> map_of (lk_by_id (lg_lookup lg)) i | _ \<Rightarrow> None)"
proof -
  let ?t = "normalize_order_token r"
  have none: "map_of (lk_by_id (lg_lookup lg)) r = None"
    using by_id_None assms(1,2) by (simp add: indexed_def)
  have tok: "map_of (lk_by_order_token (lg_lookup lg)) ?t = Some i \<longleftrightarrow> claimants lg ?t = [i]" for i
    using assms(1) by (simp add: indexed_def index_packets_alt unique_claim claimants_def)
  show ?thesis
  proof (cases "map_of (lk_by_order_token (lg_lookup lg)) ?t")
    case None
    with tok have "\<forall>i. claimants lg ?t \<noteq> [i]" by auto
    with None none assms(3) show ?thesis by (auto simp: lookup_index_def split: list.splits)
  next
    case (Some i)
    with tok[of i] none assms(3) show ?thesis by (simp add: lookup_index_def)
  qed
qed

lemma claimants_active:
  assumes "2 \<le> length (claimants lg (normalize_order_token r))"
  shows "set (claimants lg (normalize_order_token r)) \<subseteq> set (ambiguous_claimants lg r)"
proof -
  let ?t = "normalize_order_token r"
  let ?sel = "\<lambda>ps. List.map_filter packet_id_of (filter (\<lambda>p. packet_token p = Some ?t) ps)"
  have "?sel (lg_packets lg) = claimants lg ?t"
  proof -
    have "map snd (filter (\<lambda>ki. fst ki = ?t) (claims_on packet_token ps)) = ?sel ps" for ps
      by (induction ps) (auto simp: claims_on_def List.map_filter_simps split: option.splits)
    then show ?thesis by (simp add: claimants_def)
  qed
  then have "?sel (active_then_archived lg) = claimants lg ?t @ ?sel (ar_packets (lg_archive lg))"
    by (simp add: active_then_archived_def List.map_filter_def)
  moreover have "packet_id_of = (\<lambda>p. str_field p ''packet_id'')"
    by (auto simp: packet_id_of_def str_field_def)
  ultimately show ?thesis using assms by (simp add: ambiguous_claimants_def Let_def)
qed

text \<open>The ambiguity policy for order tokens that are not integers (such as \<open>394a\<close> or
  \<open>575-k3f9\<close>): a token claimed by one live packet resolves to it; a token claimed by several resolves
  to no live packet and \<open>ambiguous_claimants\<close> names every claimant.\<close>

theorem resolve_order_token:
  assumes "indexed lg" and "unique_ids lg" and "Some r \<notin> packet_id_of ` set (lg_packets lg)"
    and "parse_u64 r = None"
  shows "case claimants lg (normalize_order_token r) of
      [] \<Rightarrow> resolve lg r = resolve_archived lg r
    | [i] \<Rightarrow> (\<exists>p \<in> set (lg_packets lg). resolve lg r = Some p \<and> packet_id_of p = Some i
               \<and> packet_token p = Some (normalize_order_token r))
    | is \<Rightarrow> resolve lg r = resolve_archived lg r \<and> set is \<subseteq> set (ambiguous_claimants lg r)"
proof -
  let ?t = "normalize_order_token r"
  note look = token_lookup[OF assms(1,3,4)]
  consider "claimants lg ?t = []" | i where "claimants lg ?t = [i]"
    | i j "is" where "claimants lg ?t = i # j # is"
    by (metis list.exhaust)
  then show ?thesis
  proof cases
    case 1
    with look show ?thesis by (simp add: resolve_def)
  next
    case (2 i)
    then obtain p where p: "p \<in> set (lg_packets lg)" "packet_id_of p = Some i" "packet_token p = Some ?t"
      using claimants_mem[of i lg ?t] by auto
    from lookup_by_id[OF assms(1) p(1,2) assms(2)] obtain idx where
      "map_of (lk_by_id (lg_lookup lg)) i = Some idx" "lg_packets lg ! idx = p" .
    with look 2 p show ?thesis by (simp add: resolve_def)
  next
    case (3 i j "is")
    with look claimants_active[of lg r] show ?thesis by (simp add: resolve_def)
  qed
qed

text \<open>A ledger whose packets carry the given ids and orders.\<close>

definition order_ledger :: "(string \<times> yaml) list \<Rightarrow> ledger" where
  "order_ledger os = from_doc [] (YMapping [(YString ''packets'', YSequence
     (map (\<lambda>(i, v). YMapping [(YString ''packet_id'', YString i), (YString ''order'', v)]) os))]) []"

lemma indexed_order_ledger: "indexed (order_ledger os)"
  unfolding order_ledger_def by (rule indexed_from_doc)

theorem resolve_packet_id_witness:
  "resolve (order_ledger [(''a'', YString ''7''), (''7'', YString ''b'')]) ''7'' =
     Some (YMapping [(YString ''packet_id'', YString ''7''), (YString ''order'', YString ''b'')])"
  by (rule resolve_packet_id[OF indexed_order_ledger]; code_simp)

theorem resolve_order_token_witness:
  "resolve (order_ledger [(''a'', YString ''394a''), (''b'', YString ''394a'')]) ''394A'' = None
   \<and> (\<exists>p. resolve (order_ledger [(''a'', YString ''394a''), (''b'', YString ''395a'')]) '' 395a'' = Some p)"
proof
  let ?two = "order_ledger [(''a'', YString ''394a''), (''b'', YString ''394a'')]"
  let ?one = "order_ledger [(''a'', YString ''394a''), (''b'', YString ''395a'')]"
  have u: "unique_ids ?two" "unique_ids ?one" by code_simp+
  have n: "Some ''394A'' \<notin> packet_id_of ` set (lg_packets ?two)"
    "Some '' 395a'' \<notin> packet_id_of ` set (lg_packets ?one)" by code_simp+
  have p: "parse_u64 ''394A'' = None" "parse_u64 '' 395a'' = None" by code_simp+
  have "claimants ?two (normalize_order_token ''394A'') = [''a'', ''b'']" by code_simp
  moreover have "resolve_archived ?two ''394A'' = None" by code_simp
  ultimately show "resolve ?two ''394A'' = None"
    using resolve_order_token[OF indexed_order_ledger u(1) n(1) p(1)] by simp
  have "claimants ?one (normalize_order_token '' 395a'') = [''b'']" by code_simp
  then show "\<exists>p. resolve ?one '' 395a'' = Some p"
    using resolve_order_token[OF indexed_order_ledger u(2) n(2) p(2)] by auto
qed

text \<open>The policy does not hold across the two order indexes: with one packet at the integer order
  160 and another at the string order "160", the reference 160 has two claimants and still resolves
  to one of them.\<close>

theorem resolve_mixed_order_ambiguous:
  "\<exists>lg p. indexed lg \<and> unique_ids lg \<and> length (ambiguous_claimants lg ''160'') = 2
     \<and> resolve lg ''160'' = Some p"
proof -
  let ?lg = "order_ledger [(''a'', YNumber (PosInt 160)), (''b'', YString ''160'')]"
  have "unique_ids ?lg" "length (ambiguous_claimants ?lg ''160'') = 2"
    by code_simp+
  moreover have "map_of (lk_by_id (lg_lookup ?lg)) ''160'' = None"
    "map_of (lk_by_order (lg_lookup ?lg)) 160 = Some ''a''"
    "map_of (lk_by_id (lg_lookup ?lg)) ''a'' = Some 0"
    by code_simp+
  moreover have "parse_u64 ''160'' = Some 160"
    by (simp add: string_eval parse_u64_def)
  ultimately show ?thesis
    using indexed_order_ledger
    by (intro exI[of _ ?lg] exI[of _ "lg_packets ?lg ! 0"]) (simp add: resolve_def lookup_index_def)
qed

subsection \<open>The dependency closure\<close>

definition depends_edge :: "ledger \<Rightarrow> (string \<times> string) set" where
  "depends_edge lg = {(a, b). \<exists>p \<in> set (blocked_by lg a). id_of p = b}"

lemma closure_loop_reach:
  assumes "set fr \<subseteq> insert t seen" and "seen = id_of ` set res" and "distinct (map id_of res)"
    and "\<forall>a \<in> insert t seen. a \<in> set fr \<or> depends_edge lg `` {a} \<subseteq> seen"
    and "\<forall>b \<in> seen. (t, b) \<in> (depends_edge lg)\<^sup>+"
  shows "id_of ` set (closure_loop lg seen fr res) = {b. (t, b) \<in> (depends_edge lg)\<^sup>+}
    \<and> distinct (map id_of (closure_loop lg seen fr res))"
  using assms
proof (induction lg seen fr res rule: closure_loop.induct)
  case (1 lg seen fr res)
  let ?E = "depends_edge lg"
  show ?case
  proof (cases "fr = []")
    case True
    have "b \<in> seen" if "(t, b) \<in> ?E\<^sup>+" for b
      using that "1.prems"(4) True by (induction rule: trancl_induct) auto
    with "1.prems" True show ?thesis by (subst closure_loop.simps, subst closure_loop.simps) auto
  next
    case False
    obtain seen' fr' res' where run:
      "foldl visit (seen, butlast fr, res) (blocked_by lg (last fr)) = (seen', fr', res')"
      by (metis prod_cases3)
    from visit_run[OF run] obtain new where new: "fr' = butlast fr @ map id_of new" "res' = res @ new"
      "seen' = seen \<union> id_of ` set new" "set new \<subseteq> set (blocked_by lg (last fr))"
      "distinct (map id_of new)" "id_of ` set new \<inter> seen = {}"
      "id_of ` set (blocked_by lg (last fr)) \<subseteq> seen'" by blast
    have succ: "?E `` {last fr} \<subseteq> seen'" using new(7) by (auto simp: depends_edge_def)
    have "set fr = set (butlast fr @ [last fr])" using False by simp
    then have fr: "set fr = insert (last fr) (set (butlast fr))" by simp
    have fr_sub: "last fr = t \<or> last fr \<in> seen" using "1.prems"(1) fr by auto
    have step: "(t, b) \<in> ?E\<^sup>+" if "b \<in> id_of ` set new" for b
    proof -
      from that new(4) have "(last fr, b) \<in> ?E" by (auto simp: depends_edge_def)
      with fr_sub "1.prems"(5) show ?thesis by (meson r_into_trancl' trancl_into_trancl)
    qed
    have "id_of ` set (closure_loop lg seen' fr' res') = {b. (t, b) \<in> ?E\<^sup>+}
        \<and> distinct (map id_of (closure_loop lg seen' fr' res'))"
    proof (rule "1.IH"[OF False run[symmetric] refl])
      show "set fr' \<subseteq> insert t seen'" using "1.prems"(1) new(1,3) fr by auto
      show "seen' = id_of ` set res'" using "1.prems"(2) new(2,3) by auto
      show "distinct (map id_of res')" using "1.prems"(2,3) new(2,5,6) by auto
      show "\<forall>a \<in> insert t seen'. a \<in> set fr' \<or> ?E `` {a} \<subseteq> seen'"
      proof
        fix a assume "a \<in> insert t seen'"
        then consider "a \<in> id_of ` set new" | "a \<in> insert t seen" using new(3) by auto
        then show "a \<in> set fr' \<or> ?E `` {a} \<subseteq> seen'"
        proof cases
          case 1
          with new(1) show ?thesis by auto
        next
          case 2
          with "1.prems"(4) have "a \<in> set fr \<or> ?E `` {a} \<subseteq> seen" by blast
          with fr succ new(1,3) show ?thesis by auto
        qed
      qed
      show "\<forall>b \<in> seen'. (t, b) \<in> ?E\<^sup>+" using "1.prems"(5) new(3) step by blast
    qed
    moreover have "closure_loop lg seen fr res = closure_loop lg seen' fr' res'"
      using False run by (subst closure_loop.simps) simp
    ultimately show ?thesis by simp
  qed
qed

text \<open>C31. \<open>blocked_by_closure\<close> ends on every ledger, dependency cycles included, and returns one packet
  for every id that is downstream of the reference by one or more \<open>depends_on\<close> edges, and no other.\<close>

theorem blocked_by_closure_is_reachability:
  "id_of ` set (blocked_by_closure lg r) =
     (case resolve lg r of None \<Rightarrow> {} | Some t \<Rightarrow> {b. (id_of t, b) \<in> (depends_edge lg)\<^sup>+})
   \<and> distinct (map id_of (blocked_by_closure lg r))"
proof (cases "resolve lg r")
  case None
  then show ?thesis by (simp add: blocked_by_closure_def closure_loop.simps)
next
  case (Some t)
  with closure_loop_reach[of "[id_of t]" "id_of t" "{}" "[]" lg] show ?thesis
    by (simp add: blocked_by_closure_def)
qed

text \<open>\<open>dependencies_of\<close> lists exactly the direct prerequisites that still block: declared,
  not archived, resolvable and in a non-terminal status.\<close>

theorem dependencies_are_the_open_ones:
  "map_option set (dependencies_of lg r) =
     (case resolve lg r of
        None \<Rightarrow> None
      | Some t \<Rightarrow> Some {p. \<exists>d \<in> set (str_list t ''depends_on''). d \<notin> set (lg_archived_ids lg)
          \<and> resolve lg d = Some p
          \<and> (case str_field p ''status'' of None \<Rightarrow> True | Some s \<Rightarrow> \<not> is_terminal_status s)})"
proof -
  have still: "(case str_field p ''status'' of None \<Rightarrow> True | Some s \<Rightarrow> \<not> is_terminal_status s) \<longleftrightarrow>
      (\<forall>s. str_field p ''status'' = Some s \<longrightarrow> \<not> is_terminal_status s)" for p
    by (cases "str_field p ''status''") auto
  have "set (open_dependencies lg seen ds) =
      {p. \<exists>d \<in> set ds - seen. d \<notin> set (lg_archived_ids lg) \<and> resolve lg d = Some p
          \<and> (\<forall>s. str_field p ''status'' = Some s \<longrightarrow> \<not> is_terminal_status s)}" for seen ds
    by (induction lg seen ds rule: open_dependencies.induct)
      (auto simp: Let_def split: option.splits if_splits)
  then show ?thesis unfolding still by (cases "resolve lg r") (simp_all add: dependencies_of_def)
qed

end
