(* ===== verification/Rust_Std.thy ===== *)
theory Rust_Std
  imports Base "HOL-Library.Word"
begin

text \<open>
  Further operations of the Rust standard library that several components call: substring search,
  \<open>split_whitespace\<close>, and the saturating arithmetic of \<open>u64\<close>. The arithmetic is computed over
  \<open>int\<close> and cut back to the width.
\<close>

subsection \<open>Text\<close>

fun contains_text :: "string \<Rightarrow> string \<Rightarrow> bool" where
  "contains_text needle [] = (needle = [])"
| "contains_text needle (c # s) = (starts_with needle (c # s) \<or> contains_text needle s)"

text \<open>\<open>split_once\<close> and \<open>rsplit_once\<close> with a string.\<close>

fun split_once_text :: "string \<Rightarrow> string \<Rightarrow> (string \<times> string) option" where
  "split_once_text p [] = (if p = [] then Some ([], []) else None)"
| "split_once_text p (c # s) =
     (if starts_with p (c # s) then Some ([], drop (length p) (c # s))
      else map_option (\<lambda>(a, b). (c # a, b)) (split_once_text p s))"

definition rsplit_once_text :: "string \<Rightarrow> string \<Rightarrow> (string \<times> string) option" where
  "rsplit_once_text p s = map_option (\<lambda>(a, b). (rev b, rev a)) (split_once_text (rev p) (rev s))"

lemma split_once_text_Some: "split_once_text p s = Some (a, b) \<Longrightarrow> s = a @ p @ b"
  by (induction p s arbitrary: a rule: split_once_text.induct)
    (auto simp: starts_with_def split: if_splits, metis append_take_drop_id)

text \<open>The word up to the next white space, and what is left.\<close>

fun take_word :: "string \<Rightarrow> string \<times> string" where
  "take_word [] = ([], [])"
| "take_word (c # s) =
     (if list_ex (\<lambda>p. starts_with p (c # s)) white_space then ([], c # s)
      else (let (w, r) = take_word s in (c # w, r)))"

lemma take_word_split: "take_word s = (w, r) \<Longrightarrow> s = w @ r"
  by (induction s arbitrary: w r) (auto split: if_splits prod.splits)

lemma drop_prefixes_length: "length (drop_prefixes ps s) \<le> length s"
proof (induction ps s rule: drop_prefixes.induct)
  case (1 ps s)
  show ?case
  proof (cases "find (\<lambda>p. p \<noteq> [] \<and> starts_with p s) ps")
    case None
    then show ?thesis by (subst drop_prefixes.simps) simp
  next
    case (Some p)
    from "1.IH"[OF Some] have "length (drop_prefixes ps (drop (length p) s)) \<le> length s" by simp
    with Some show ?thesis by (subst drop_prefixes.simps) simp
  qed
qed

lemma white_space_nonempty: "p \<in> set white_space \<Longrightarrow> p \<noteq> []"
  by (auto simp: white_space_def)

lemma take_word_shorter:
  assumes "trim_start s \<noteq> []" and "take_word (trim_start s) = (w, r)"
  shows "length r < length s"
proof -
  obtain c t where t: "trim_start s = c # t" using assms(1) by (cases "trim_start s") auto
  have "\<not> list_ex (\<lambda>p. starts_with p (c # t)) white_space"
    using drop_prefixes_done[of _ white_space s] white_space_nonempty t
    by (auto simp: list_ex_iff trim_start_def)
  with assms(2) t take_word_split have "length r < length (trim_start s)"
    by (fastforce split: prod.splits)
  with drop_prefixes_length[of white_space s] show ?thesis by (simp add: trim_start_def)
qed

function split_whitespace :: "string \<Rightarrow> string list" where
  "split_whitespace s =
     (if trim_start s = [] then []
      else fst (take_word (trim_start s)) # split_whitespace (snd (take_word (trim_start s))))"
  by pat_completeness auto
termination
  by (relation "measure length") (auto intro: take_word_shorter[OF _ prod.collapse[symmetric]])

declare split_whitespace.simps [simp del]

lemma starts_with_Cons:
  "p \<noteq> [] \<Longrightarrow> starts_with p (c # s) \<Longrightarrow> c = hd p"
  by (cases p) (auto simp: starts_with_def)

lemma token_byte_no_start:
  assumes "token_byte c"
  shows "\<not> list_ex (\<lambda>p. starts_with p (c # s)) white_space"
proof
  assume "list_ex (\<lambda>p. starts_with p (c # s)) white_space"
  then obtain p where p: "p \<in> set white_space" "starts_with p (c # s)" by (auto simp: list_ex_iff)
  with starts_with_Cons white_space_nonempty[OF p(1)] have "c \<in> set p" by fastforce
  with token_byte_not_space[OF assms p(1)] show False by simp
qed

lemma trim_start_token: "token_byte c \<Longrightarrow> trim_start (c # s) = c # s"
  unfolding trim_start_def
  by (rule drop_prefixes_stop) (use token_byte_no_start in \<open>auto simp: list_ex_iff\<close>)

lemma space_starts: "list_ex (\<lambda>p. starts_with p (CHR 32 # s)) white_space"
  by (simp add: list_ex_iff white_space_def starts_with_def)

lemma trim_start_space [simp]: "trim_start (CHR 32 # s) = trim_start s"
proof -
  have "find (\<lambda>p. p \<noteq> [] \<and> starts_with p (CHR 32 # s)) white_space = Some [CHR 32]"
    by (simp add: white_space_def starts_with_def)
  then show ?thesis unfolding trim_start_def by (subst drop_prefixes.simps) simp
qed

lemma take_word_visible: "list_all token_byte w \<Longrightarrow> take_word w = (w, [])"
  by (induction w) (auto simp: token_byte_no_start)

lemma take_word_space: "list_all token_byte w \<Longrightarrow> take_word (w @ CHR 32 # s) = (w, CHR 32 # s)"
  by (induction w) (auto simp: token_byte_no_start space_starts)

lemma trim_start_Nil [simp]: "trim_start [] = []"
  by (simp add: trim_start_def drop_prefixes_stop starts_with_def)

lemma split_whitespace_Nil [simp]: "split_whitespace [] = []"
  by (subst split_whitespace.simps) simp

lemma split_whitespace_Space [simp]: "split_whitespace (CHR 32 # s) = split_whitespace s"
  by (subst (1 2) split_whitespace.simps) simp

lemma split_whitespace_single:
  "list_all token_byte w \<Longrightarrow> w \<noteq> [] \<Longrightarrow> split_whitespace w = [w]"
  by (subst split_whitespace.simps) (cases w; simp add: trim_start_token take_word_visible token_byte_no_start)

lemma split_whitespace_word:
  assumes "list_all token_byte w" and "w \<noteq> []"
  shows "split_whitespace (w @ CHR 32 # s) = w # split_whitespace s"
proof -
  obtain c v where w: "w = c # v" using assms(2) by (cases w) auto
  have "trim_start (w @ CHR 32 # s) = w @ CHR 32 # s"
    using assms(1) trim_start_token unfolding w by simp
  then show ?thesis
    using take_word_space[OF assms(1)] assms(2) by (subst split_whitespace.simps) simp
qed

text \<open>A text made of lines, each ended by a line feed, is read back as those lines.\<close>

definition unlines :: "string list \<Rightarrow> string" where
  "unlines ls = concat (map (\<lambda>l. l @ [CHR 10]) ls)"

lemma lines_unlines:
  "list_all (\<lambda>l. CHR 10 \<notin> set l \<and> CHR 13 \<notin> set l) ls \<Longrightarrow> lines (unlines ls) = ls"
proof (induction ls)
  case Nil
  then show ?case by (simp add: unlines_def)
next
  case (Cons l ls)
  then have "last l \<noteq> CHR 13" if "l \<noteq> []" using last_in_set[OF that] by auto
  then have "strip_cr l = l" by (auto simp: strip_cr_def)
  with Cons lines_Cons[of l "unlines ls"] show ?case by (simp add: unlines_def)
qed

subsection \<open>Machine integers\<close>

definition saturating_sub :: "64 word \<Rightarrow> 64 word \<Rightarrow> 64 word" where
  "saturating_sub a b = (if b \<le> a then a - b else 0)"

definition saturating_add :: "64 word \<Rightarrow> 64 word \<Rightarrow> 64 word" where
  "saturating_add a b = word_of_int (min (2 ^ 64 - 1) (uint a + uint b))"

definition saturating_mul :: "64 word \<Rightarrow> 64 word \<Rightarrow> 64 word" where
  "saturating_mul a b = word_of_int (min (2 ^ 64 - 1) (uint a * uint b))"

lemma uint_saturating_add: "uint (saturating_add a b) = min (2 ^ 64 - 1) (uint a + uint b)"
  unfolding saturating_add_def by (simp add: uint_word_of_int_eq take_bit_int_eq_self)

lemma uint_saturating_mul: "uint (saturating_mul a b) = min (2 ^ 64 - 1) (uint a * uint b)"
  unfolding saturating_mul_def by (simp add: uint_word_of_int_eq take_bit_int_eq_self)

text \<open>\<open>parse::<u64>()\<close> and \<open>parse::<u32>()\<close>, and the decimal rendering of a word.\<close>

definition parse_word64 :: "string \<Rightarrow> 64 word option" where
  "parse_word64 s = map_option word_of_nat (parse_u64 s)"

definition parse_word32 :: "string \<Rightarrow> 32 word option" where
  "parse_word32 s =
     (case parse_u64 s of Some n \<Rightarrow> if n < 2 ^ 32 then Some (word_of_nat n) else None | None \<Rightarrow> None)"

definition show_word :: "'a::len word \<Rightarrow> string" where
  "show_word w = show_nat (unat w)"

lemma parse_word64_show [simp]: "parse_word64 (show_word w) = Some w"
proof -
  have "unat w < 2 ^ 64" using unsigned_less[of w] by simp
  then show ?thesis by (simp add: parse_word64_def show_word_def parse_u64_show_nat)
qed

lemma parse_word32_show [simp]: "parse_word32 (show_word w) = Some w"
proof -
  have "unat w < 2 ^ 32" using unsigned_less[of w] by simp
  then show ?thesis by (simp add: parse_word32_def show_word_def parse_u64_show_nat)
qed

lemma ascii_digit_visible: "is_ascii_digit c \<Longrightarrow> token_byte c"
  by (auto simp: is_ascii_digit_def token_byte_def)

lemma show_word_visible: "list_all token_byte (show_word w)" and show_word_nonempty [simp]: "show_word w \<noteq> []"
  using show_nat_digits[of "unat w"] by (auto simp: show_word_def list_all_iff ascii_digit_visible)

lemma token_byte_no_newline: "list_all token_byte w \<Longrightarrow> CHR 10 \<notin> set w \<and> CHR 13 \<notin> set w"
  by (auto simp: list_all_iff token_byte_def)

lemma show_word_no_newline [simp]: "CHR 10 \<notin> set (show_word w)" "CHR 13 \<notin> set (show_word w)"
  using token_byte_no_newline[OF show_word_visible] by auto

end
