(* ===== verification/Load.thy ===== *)
theory Load
  imports Fold_Props Ledger_Props Rust_Std
begin

text \<open>
  Loading a ledger with its fragments (\<open>fragments.rs\<close>: \<open>load_all\<close>, \<open>malformed\<close>,
  \<open>fragment_item_span\<close>, \<open>Ledger::load_with_fragments\<close>). A directory listing is a list of file
  names, paths and contents (\<open>None\<close> for a file that cannot be read); the YAML parser and the cached
  ledger are arguments.
\<close>

type_synonym fragment_file = "string \<times> string \<times> string option"

definition yaml_extension :: "string \<Rightarrow> bool" where
  "yaml_extension name \<longleftrightarrow> ends_with ''.yaml'' name \<and> name \<noteq> ''.yaml''"

definition yaml_files :: "fragment_file list \<Rightarrow> fragment_file list" where
  "yaml_files files = filter (\<lambda>(name, _). yaml_extension name) files"

definition load_file :: "(string \<Rightarrow> string + yaml) \<Rightarrow> fragment_file \<Rightarrow> fragment option" where
  "load_file parse_yaml = (\<lambda>(name, path, contents).
     (case contents of
        None \<Rightarrow> None
      | Some raw \<Rightarrow>
          (case parse_yaml raw of
             Inl _ \<Rightarrow> None
           | Inr doc \<Rightarrow>
               Some \<lparr>frag_name = name, frag_path = path, frag_doc = doc, frag_raw = raw\<rparr>)))"

definition load_all :: "(string \<Rightarrow> string + yaml) \<Rightarrow> fragment_file list \<Rightarrow> fragment list" where
  "load_all parse_yaml files =
     sort_key frag_name (List.map_filter (load_file parse_yaml) (yaml_files files))"

definition malformed :: "(string \<Rightarrow> string + yaml) \<Rightarrow> fragment_file list \<Rightarrow> string list" where
  "malformed parse_yaml files =
     sort (map (\<lambda>(_, path, _). path)
       (filter (\<lambda>(_, _, contents). (case contents of
            None \<Rightarrow> True
          | Some raw \<Rightarrow> (case parse_yaml raw of Inl _ \<Rightarrow> True | Inr _ \<Rightarrow> False)))
         (yaml_files files)))"

definition fragment_paths :: "fragment_file list \<Rightarrow> string list" where
  "fragment_paths files = sort (map (\<lambda>(_, path, _). path) (yaml_files files))"

subsection \<open>Spans inside a fragment\<close>

text \<open>The list items of a section: \<open>section_scan i ls want cur items\<close> reads the lines from number
  \<open>i\<close> on, with the item indent (once seen), the start of the open item and the closed items.\<close>

definition close_item :: "nat option \<Rightarrow> nat \<Rightarrow> (nat \<times> nat) list \<Rightarrow> (nat \<times> nat) list" where
  "close_item cur e its = its @ (case cur of None \<Rightarrow> [] | Some s \<Rightarrow> [(s, e - 1)])"

fun section_scan ::
  "nat \<Rightarrow> string list \<Rightarrow> nat option \<Rightarrow> nat option \<Rightarrow> (nat \<times> nat) list \<Rightarrow> (nat \<times> nat) list" where
  "section_scan i [] want cur its = close_item cur i its"
| "section_scan i (l # ls) want cur its =
     (let t = trim_start l;
          indent = length l - length t;
          column_zero_item = (indent = 0 \<and> starts_with ''- '' t \<and> (want = None \<or> want = Some 0))
      in if t = [] then section_scan (Suc i) ls want cur its
         else if indent = 0 \<and> \<not> column_zero_item then close_item cur i its
         else if starts_with ''- '' t \<and> (want = None \<or> want = Some indent)
           then section_scan (Suc i) ls (Some indent) (Some i) (close_item cur i its)
         else section_scan (Suc i) ls want cur its)"

fun tight_end :: "string list \<Rightarrow> nat \<Rightarrow> nat \<Rightarrow> nat" where
  "tight_end ls start 0 = 0"
| "tight_end ls start (Suc e) =
     (if start < Suc e \<and> is_blank (ls ! Suc e) then tight_end ls start e else Suc e)"

definition names_item :: "string \<Rightarrow> string \<Rightarrow> bool" where
  "names_item pid l \<longleftrightarrow>
     trim_end (trim_start_matches ''- '' (trim_start l)) = ''packet_id: '' @ pid"

definition item_matches :: "string list \<Rightarrow> string \<Rightarrow> string list \<Rightarrow> nat \<times> nat \<Rightarrow> bool" where
  "item_matches ls pid must_contain = (\<lambda>(s, e).
     (let block = join [CHR 10] (map ((!) ls) [s..<Suc e])
      in list_ex (names_item pid) (lines block)
         \<and> list_all (\<lambda>n. contains_text n block) must_contain))"

definition fragment_item_span ::
  "string \<Rightarrow> string \<Rightarrow> string \<Rightarrow> string list \<Rightarrow> (nat \<times> nat) option" where
  "fragment_item_span raw section_name pid must_contain =
     (let ls = lines raw in
      case find (\<lambda>i. trim_end (ls ! i) = section_name @ '':'') [0..<length ls] of
        None \<Rightarrow> None
      | Some start \<Rightarrow>
          map_option (\<lambda>(s, e). (Suc s, Suc e))
            (find (item_matches ls pid must_contain)
              (map (\<lambda>(s, e). (s, tight_end ls s e))
                (section_scan (Suc start) (drop (Suc start) ls) None None []))))"

subsection \<open>Layering the fragments on a base ledger\<close>

definition span_source :: "fragment \<Rightarrow> nat \<times> nat \<Rightarrow> field_source" where
  "span_source frag = (\<lambda>(s, e).
     \<lparr>fs_fragment_name = frag_name frag, fs_line_start = s, fs_line_end = e\<rparr>)"

definition origin_sources :: "fragment list \<Rightarrow> fold_provenance \<Rightarrow> (string, field_source) btmap" where
  "origin_sources frags prov =
     foldl (\<lambda>m (pid, idx).
         (case fragment_item_span (frag_raw (frags ! idx)) ''packets'' pid [] of
            None \<Rightarrow> m
          | Some se \<Rightarrow> bt_insert pid (span_source (frags ! idx) se) m))
       [] (fp_new_packets prov)"

definition win_key :: "string \<Rightarrow> (string \<times> string) option" where
  "win_key key = (case split_on sep key of pid # field # _ \<Rightarrow> Some (pid, field) | _ \<Rightarrow> None)"

definition win_needles :: "string \<Rightarrow> string \<Rightarrow> string \<Rightarrow> string list" where
  "win_needles field ts host =
     [''field: '' @ field] @ (if ts \<noteq> [] then [ts] else []) @ (if host \<noteq> [] then [host] else [])"

definition field_sources :: "fragment list \<Rightarrow> fold_provenance \<Rightarrow> (string, field_source) btmap" where
  "field_sources frags prov =
     foldl (\<lambda>m (key, (idx, ts, host)).
         (case win_key key of
            None \<Rightarrow> m
          | Some (pid, field) \<Rightarrow>
              (case fragment_item_span (frag_raw (frags ! idx)) ''status'' pid (win_needles field ts host) of
                 None \<Rightarrow> m
               | Some se \<Rightarrow> bt_insert key (span_source (frags ! idx) se) m)))
       [] (fp_lww_wins prov)"

definition status_leases :: "fold_provenance \<Rightarrow> (string, string \<times> string) btmap" where
  "status_leases prov =
     foldl (\<lambda>m (key, (idx, ts, host)).
         (case win_key key of
            None \<Rightarrow> m
          | Some (pid, field) \<Rightarrow> if field = ''status'' then bt_insert pid (host, ts) m else m))
       [] (fp_lww_wins prov)"

definition layer_fragments ::
  "ledger \<Rightarrow> yaml \<Rightarrow> fragment list \<Rightarrow> string list \<Rightarrow> string list \<Rightarrow> ledger" where
  "layer_fragments lg base frags corpus skipped =
     (if frags = [] then set_fragment_sources [] [] [] corpus skipped lg
      else (let (merged, prov) = fold_with_sources base frags
            in set_fragment_sources (origin_sources frags prov) (field_sources frags prov)
                 (status_leases prov) corpus skipped
                 (reindex (lg\<lparr>lg_packets := collect_packets merged\<rparr>))))"

definition load_with_fragments ::
  "(string \<Rightarrow> string + yaml) \<Rightarrow> ledger option \<Rightarrow> string \<Rightarrow> string + string \<Rightarrow> (string \<times> string) list
    \<Rightarrow> fragment_file list \<Rightarrow> string + ledger" where
  "load_with_fragments parse_yaml cached path contents archive_files files =
     (case cached of
        Some lg \<Rightarrow> Inr lg
      | None \<Rightarrow>
          (case load_with_doc parse_yaml path contents archive_files of
             Inl e \<Rightarrow> Inl e
           | Inr (lg, base) \<Rightarrow>
               (let frags = load_all parse_yaml files;
                    corpus = fragment_paths files;
                    parsed = map frag_path frags
                in Inr (layer_fragments lg base frags corpus
                          (filter (\<lambda>p. p \<notin> set parsed) corpus)))))"

subsection \<open>Spans\<close>

lemma close_item_ok:
  assumes "\<forall>(a, b) \<in> set its. a \<le> b \<and> b < n" and "\<forall>s. cur = Some s \<longrightarrow> s < e" and "e \<le> n"
  shows "\<forall>(a, b) \<in> set (close_item cur e its). a \<le> b \<and> b < n"
  using assms by (auto simp: close_item_def split: option.splits)

lemma section_scan_bounds:
  assumes "\<forall>(a, b) \<in> set its. a \<le> b \<and> b < i + length ls" and "\<forall>s. cur = Some s \<longrightarrow> s < i"
  shows "\<forall>(a, b) \<in> set (section_scan i ls want cur its). a \<le> b \<and> b < i + length ls"
  using assms
proof (induction i ls want cur its rule: section_scan.induct)
  case (1 i want cur its)
  then show ?case using close_item_ok[of its i cur i] by simp
next
  case (2 i l ls want cur its)
  let ?n = "i + length (l # ls)"
  have c: "\<forall>(a, b) \<in> set (close_item cur i its). a \<le> b \<and> b < ?n"
    using 2(4,5) by (intro close_item_ok) auto
  have next_ok: "\<forall>(a, b) \<in> set its. a \<le> b \<and> b < Suc i + length ls"
      "\<forall>s. cur = Some s \<longrightarrow> s < Suc i" "\<forall>(a, b) \<in> set (close_item cur i its). a \<le> b \<and> b < Suc i + length ls"
    using 2(4,5) c by (auto simp: less_Suc_eq)
  show ?case
    using c 2(1)[OF refl refl refl _ next_ok(1,2)] 2(2)[OF refl refl refl _ _ _ next_ok(3)]
      2(3)[OF refl refl refl _ _ _ next_ok(1,2)]
    by (auto simp: Let_def)
qed

lemma tight_end_bounds: "s \<le> e \<Longrightarrow> s \<le> tight_end ls s e \<and> tight_end ls s e \<le> e"
  by (induction ls s e rule: tight_end.induct) auto

lemma lines_of_join:
  assumes "l \<in> set (lines (join [CHR 10] ls))" and "\<forall>x \<in> set ls. CHR 10 \<notin> set x"
  shows "\<exists>x \<in> set ls. l = x \<or> l = strip_cr x"
proof (cases "ls = []")
  case False
  then have "split_on (CHR 10) (join [CHR 10] ls) = ls" using assms(2) by (rule split_on_join)
  with assms(1) False show ?thesis
    by (auto simp: lines_def Let_def dest: in_set_butlastD split: if_splits)
qed (use assms in simp)

lemma fragment_item_span_names:
  assumes "fragment_item_span raw sec pid ns = Some (s, e)"
  shows "1 \<le> s \<and> s \<le> e \<and> e \<le> length (lines raw)
    \<and> (\<exists>i. s \<le> Suc i \<and> Suc i \<le> e
         \<and> (names_item pid (lines raw ! i) \<or> names_item pid (strip_cr (lines raw ! i))))"
proof -
  let ?ls = "lines raw"
  obtain start where f: "find (\<lambda>i. trim_end (?ls ! i) = sec @ '':'') [0..<length ?ls] = Some start"
    using assms by (auto simp: fragment_item_span_def Let_def split: option.splits)
  then have start: "start < length ?ls" using find_SomeD[OF f] by simp
  from assms f have "map_option (\<lambda>(s, e). (Suc s, Suc e)) (find (item_matches ?ls pid ns)
        (map (\<lambda>(s, e). (s, tight_end ?ls s e)) (section_scan (Suc start) (drop (Suc start) ?ls) None None [])))
      = Some (s, e)"
    by (simp add: fragment_item_span_def Let_def)
  then obtain s' e0 where m: "item_matches ?ls pid ns (s', tight_end ?ls s' e0)"
    and it: "(s', e0) \<in> set (section_scan (Suc start) (drop (Suc start) ?ls) None None [])"
    and se: "s = Suc s'" "e = Suc (tight_end ?ls s' e0)"
    by (auto dest!: find_SomeD)
  have "s' \<le> e0 \<and> e0 < length ?ls"
    using section_scan_bounds[of "[]" "Suc start" "drop (Suc start) ?ls" None None] it start by auto
  with tight_end_bounds[of s' e0 ?ls] have b: "s' \<le> tight_end ?ls s' e0" "tight_end ?ls s' e0 < length ?ls"
    by auto
  let ?part = "map ((!) ?ls) [s'..<Suc (tight_end ?ls s' e0)]"
  from m obtain l where "l \<in> set (lines (join [CHR 10] ?part))" "names_item pid l"
    by (auto simp: item_matches_def Let_def list_ex_iff)
  moreover have "\<forall>x \<in> set ?part. CHR 10 \<notin> set x"
    using b(2) lines_no_newline[of _ raw] by auto
  ultimately obtain i where "s' \<le> i" "i < Suc (tight_end ?ls s' e0)"
    "names_item pid (?ls ! i) \<or> names_item pid (strip_cr (?ls ! i))"
    using lines_of_join[of l ?part] by auto
  with b se show ?thesis by auto
qed


subsection \<open>What a loaded ledger holds\<close>

lemma load_fresh:
  assumes "load_with_fragments parse_yaml None path (Inr raw) archive files = Inr lg"
    and "parse_yaml raw = Inr base"
  shows "\<exists>lg0. lg0 = fst (projr (load_with_doc parse_yaml path (Inr raw) archive))
    \<and> lg_packets lg0 = collect_packets base \<and> indexed lg0
    \<and> lg = layer_fragments lg0 base (load_all parse_yaml files) (fragment_paths files)
        (filter (\<lambda>p. p \<notin> frag_path ` set (load_all parse_yaml files)) (fragment_paths files))"
  using assms
  by (auto simp: load_with_fragments_def load_with_doc_def from_doc_def indexed_def Let_def)

lemma layer_packets:
  assumes "lg_packets lg0 = collect_packets base" and "indexed lg0"
  shows "indexed (layer_fragments lg0 base frags corpus skipped)"
    and "lg_packets (layer_fragments lg0 base frags corpus skipped) =
      (if frags = [] then collect_packets base else collect_packets (fold_ledger base frags))"
  using assms
  by (auto simp: layer_fragments_def set_fragment_sources_def reindex_def indexed_def fold_ledger_def
      split: prod.splits)

lemma resolve_some_packet:
  assumes "indexed lg" and "Some i \<in> packet_id_of ` set (lg_packets lg)"
  shows "\<exists>p \<in> set (lg_packets lg). packet_id_of p = Some i \<and> resolve lg i = Some p"
proof -
  from assms(2) obtain idx where idx: "map_of (lk_by_id (index_packets (lg_packets lg))) i = Some idx"
    using by_id_None[of "lg_packets lg" i] by fastforce
  then have "idx < length (lg_packets lg)" "packet_id_of (lg_packets lg ! idx) = Some i"
    unfolding by_id_spec by auto
  moreover have "resolve lg i = Some (lg_packets lg ! idx)"
    using assms(1) idx by (simp add: resolve_def lookup_index_def indexed_def)
  ultimately show ?thesis by auto
qed

lemma merged_ids:
  assumes "accepts_packets base" and "''packet_id'' \<notin> written_fields frags"
    and "i \<in> packet_ids base \<union> declared_ids frags"
  shows "Some i \<in> packet_id_of ` set (collect_packets (fold_ledger base frags))"
proof -
  have "set (map packet_id_of (collect_packets (fold_ledger base frags))) =
      set (map packet_id_of (collect_packets base)) \<union> set (map packet_id_of (added_packets base frags))"
    using fold_ids[OF assms(1,2)] by (rule set_inserted)
  moreover have "Some i \<in> set (map packet_id_of (collect_packets base)) \<or>
      Some i \<in> set (map packet_id_of (added_packets base frags))"
    using assms(3) packet_ids_alt[of base] added_packets_spec(3)[of base frags]
    by (cases "i \<in> packet_ids base") auto
  ultimately show ?thesis by auto
qed

text \<open>C24. Every packet of the base and every packet some fragment declares is addressable in the ledger
  that \<open>load_with_fragments\<close> builds: its id resolves to a live packet with that id.\<close>

theorem loaded_packets_resolve:
  assumes "load_with_fragments parse_yaml None path (Inr raw) archive files = Inr lg"
    and "parse_yaml raw = Inr base" and "accepts_packets base"
    and "''packet_id'' \<notin> written_fields (load_all parse_yaml files)"
    and "i \<in> packet_ids base \<union> declared_ids (load_all parse_yaml files)"
  shows "\<exists>p \<in> set (lg_packets lg). packet_id_of p = Some i \<and> resolve lg i = Some p"
proof -
  let ?frags = "load_all parse_yaml files"
  from load_fresh[OF assms(1,2)] obtain lg0 skipped where lg0: "lg_packets lg0 = collect_packets base"
    "indexed lg0" and lg: "lg = layer_fragments lg0 base ?frags (fragment_paths files) skipped" by blast
  have "Some i \<in> packet_id_of ` set (lg_packets lg)"
  proof (cases "?frags = []")
    case True
    then have "i \<in> packet_ids base" using assms(5) by (simp add: declared_ids_def declared_def)
    with True packet_ids_alt[of base] show ?thesis unfolding lg layer_packets(2)[OF lg0] by auto
  next
    case False
    then show ?thesis unfolding lg layer_packets(2)[OF lg0] using merged_ids[OF assms(3-5)] by simp
  qed
  with layer_packets(1)[OF lg0] show ?thesis unfolding lg by (intro resolve_some_packet)
qed


subsection \<open>Citations\<close>

lemma set_bt_insert_subset: "set (bt_insert k v m) \<subseteq> insert (k, v) (set m)"
  by (induction k v m rule: bt_insert.induct) (auto split: if_splits)

text \<open>Every fragment number the fold records is one of its fragments.\<close>

definition sources_below :: "nat \<Rightarrow> fold_acc \<Rightarrow> bool" where
  "sources_below n acc \<longleftrightarrow> (\<forall>x \<in> set (fa_prov_new acc). snd x < n)
     \<and> (\<forall>x \<in> set (fa_lww acc). snd (snd (snd (snd x))) < n)"

interpretation fold_packets: machine "fold_packet bi idx" "\<lambda>acc. idx < n \<longrightarrow> sources_below n acc"
  for bi idx n
proof unfold_locales
  fix acc p assume "idx < n \<longrightarrow> sources_below n acc"
  then show "idx < n \<longrightarrow> sources_below n (fold_packet bi idx acc p)"
    using set_bt_insert_subset[of _ idx "fa_prov_new acc"]
    by (fastforce simp: sources_below_def fold_packet_def split: option.splits)
qed

interpretation fold_events: machine fold_event "sources_below n" for n
  by unfold_locales (auto simp: sources_below_def fold_event_def Let_def split: option.splits)

interpretation fold_writes: machine "fold_lww bi frag idx" "\<lambda>acc. idx < n \<longrightarrow> sources_below n acc"
  for bi frag idx n
proof unfold_locales
  fix acc u assume "idx < n \<longrightarrow> sources_below n acc"
  then show "idx < n \<longrightarrow> sources_below n (fold_lww bi frag idx acc u)"
    using set_bt_insert_subset[of _ _ "fa_lww acc"]
    by (fastforce simp: sources_below_def fold_lww_def Let_def split: option.splits)
qed

interpretation fold_replaces: machine "fold_replace idx" "\<lambda>acc. idx < n \<longrightarrow> sources_below n acc"
  for idx n
proof unfold_locales
  fix acc r assume "idx < n \<longrightarrow> sources_below n acc"
  then show "idx < n \<longrightarrow> sources_below n (fold_replace idx acc r)"
    using set_bt_insert_subset[of _ _ "fa_lww acc"]
    by (fastforce simp: sources_below_def fold_replace_def Let_def)
qed

lemma fold_fragment_sources:
  assumes "idx < n" and "sources_below n acc"
  shows "sources_below n (fold_fragment bi acc (idx, frag))"
  using assms fold_packets.run_inv[of idx n acc bi] fold_events.run_inv[of n]
    fold_writes.run_inv[of idx n _ bi frag] fold_replaces.run_inv[of idx n]
  by (simp add: fold_fragment_def)

lemma fold_fragments_sources: "sources_below (length frags) (fold_fragments base frags)"
proof -
  have run: "sources_below n (foldl (fold_fragment bi) acc xs)"
    if "sources_below n acc" "\<forall>x \<in> set xs. fst x < n" for bi acc n xs
    using that
  proof (induction xs arbitrary: acc)
    case (Cons x xs)
    then show ?case by (cases x) (simp add: fold_fragment_sources)
  qed simp
  show ?thesis
    unfolding fold_fragments_def Let_def
    by (rule run) (auto simp: sources_below_def dest: set_zip_leftD)
qed

lemma foldl_insert_subset:
  "set (foldl (\<lambda>m x. bt_insert (k x) (v x) m) m0 xs) \<subseteq> set m0 \<union> (\<lambda>x. (k x, v x)) ` set xs"
proof (induction xs arbitrary: m0)
  case (Cons x xs)
  then show ?case using set_bt_insert_subset[of "k x" "v x" m0] by fastforce
qed simp

lemma provenance_sources:
  assumes "fold_with_sources base frags = (merged, prov)"
  shows "\<forall>x \<in> set (fp_new_packets prov). snd x < length frags"
    and "\<forall>x \<in> set (fp_lww_wins prov). fst (snd x) < length frags"
proof -
  let ?acc = "fold_fragments base frags"
  have wins: "(\<lambda>m (key, (ts, host, u, idx)). bt_insert key (idx, ts, host) m) =
      (\<lambda>m x. bt_insert (fst x) ((\<lambda>(ts, host, _, idx). (idx, ts, host)) (snd x)) m)"
    by (auto simp: fun_eq_iff)
  have "fp_new_packets prov = fa_prov_new ?acc"
    "fp_lww_wins prov = foldl (\<lambda>m (key, (ts, host, u, idx)). bt_insert key (idx, ts, host) m) [] (fa_lww ?acc)"
    using assms by (auto simp: fold_with_sources_def Let_def)
  then show "\<forall>x \<in> set (fp_new_packets prov). snd x < length frags"
    "\<forall>x \<in> set (fp_lww_wins prov). fst (snd x) < length frags"
    using fold_fragments_sources[of frags base]
      foldl_insert_subset[of fst "\<lambda>x. (\<lambda>(ts, host, _, idx). (idx, ts, host)) (snd x)" "[]" "fa_lww ?acc"]
    unfolding wins sources_below_def by fastforce+
qed

text \<open>A citation is sound when it names one of the fragments and a range of its lines that has the
  \<open>packet_id:\<close> line of the packet.\<close>

definition cites_packet :: "fragment list \<Rightarrow> string \<Rightarrow> field_source \<Rightarrow> bool" where
  "cites_packet frags pid src \<longleftrightarrow>
     (\<exists>frag \<in> set frags. fs_fragment_name src = frag_name frag
        \<and> 1 \<le> fs_line_start src \<and> fs_line_start src \<le> fs_line_end src
        \<and> fs_line_end src \<le> length (lines (frag_raw frag))
        \<and> (\<exists>i. fs_line_start src \<le> Suc i \<and> Suc i \<le> fs_line_end src
             \<and> (names_item pid (lines (frag_raw frag) ! i)
                  \<or> names_item pid (strip_cr (lines (frag_raw frag) ! i)))))"

lemma span_cites:
  assumes "idx < length frags"
    and "fragment_item_span (frag_raw (frags ! idx)) sec pid ns = Some se"
  shows "cites_packet frags pid (span_source (frags ! idx) se)"
proof -
  obtain s e where se: "se = (s, e)" by (cases se)
  from fragment_item_span_names[OF assms(2)[unfolded se]] assms(1) show ?thesis
    unfolding cites_packet_def se by (intro bexI[of _ "frags ! idx"]) (auto simp: span_source_def)
qed

lemma origin_sources_cite:
  assumes "\<forall>x \<in> set (fp_new_packets prov). snd x < length frags"
    and "map_of (origin_sources frags prov) pid = Some src"
  shows "cites_packet frags pid src"
proof -
  let ?step = "\<lambda>m (pid, idx).
         (case fragment_item_span (frag_raw (frags ! idx)) ''packets'' pid [] of
            None \<Rightarrow> m
          | Some se \<Rightarrow> bt_insert pid (span_source (frags ! idx) se) m)"
  have "\<forall>p src. map_of (foldl ?step m xs) p = Some src \<longrightarrow> cites_packet frags p src"
    if "\<forall>p src. map_of m p = Some src \<longrightarrow> cites_packet frags p src" "\<forall>x \<in> set xs. snd x < length frags"
    for m xs
    using that
  proof (induction xs arbitrary: m)
    case (Cons x xs)
    obtain q idx where x: "x = (q, idx)" by (cases x)
    have "\<forall>p src. map_of (?step m x) p = Some src \<longrightarrow> cites_packet frags p src"
      using Cons.prems span_cites[of idx frags "''packets''" q "[]"] unfolding x
      by (auto split: option.splits if_splits)
    with Cons show ?case by simp
  qed simp
  with assms show ?thesis unfolding origin_sources_def by force
qed

text \<open>Every origin that a loaded ledger reports for a packet born in a fragment is a sound citation:
  it names a loaded fragment and lines of it that include the packet's own \<open>packet_id:\<close> line.\<close>

theorem loaded_origin_cites:
  assumes "load_with_fragments parse_yaml None path (Inr raw) archive files = Inr lg"
    and "parse_yaml raw = Inr base" and "map_of (lg_origin_sources lg) pid = Some src"
  shows "cites_packet (load_all parse_yaml files) pid src"
proof -
  let ?frags = "load_all parse_yaml files"
  obtain merged prov where f: "fold_with_sources base ?frags = (merged, prov)"
    by (cases "fold_with_sources base ?frags")
  from load_fresh[OF assms(1,2)] assms(3) f have "map_of (origin_sources ?frags prov) pid = Some src"
    by (auto simp: layer_fragments_def set_fragment_sources_def split: if_splits)
  then show ?thesis by (rule origin_sources_cite[OF provenance_sources(1)[OF f]])
qed


subsection \<open>What the fold could not read\<close>

definition file_path :: "fragment_file \<Rightarrow> string" where
  "file_path f = fst (snd f)"

lemma sort_Nil_iff: "sort xs = [] \<longleftrightarrow> xs = []"
proof
  assume "sort xs = []"
  then have "set (sort xs) = {}" by simp
  then show "xs = []" by simp
qed simp

lemma path_case: "(\<lambda>(_, path, _). path) = file_path"
  by (auto simp: file_path_def)

lemma load_file_path: "load_file parse_yaml f = Some frag \<Longrightarrow> frag_path frag = file_path f"
  by (cases f) (auto simp: load_file_def file_path_def split: option.splits sum.splits)

lemma malformed_alt:
  "malformed parse_yaml files = sort (map file_path (filter (\<lambda>f. load_file parse_yaml f = None) (yaml_files files)))"
proof -
  have "(\<lambda>(_, _, contents). (case contents of
            None \<Rightarrow> True
          | Some raw \<Rightarrow> (case parse_yaml raw of Inl _ \<Rightarrow> True | Inr _ \<Rightarrow> False))) =
      (\<lambda>f :: fragment_file. load_file parse_yaml f = None)"
    by (auto simp: fun_eq_iff load_file_def split: option.splits sum.splits)
  then show ?thesis by (simp add: malformed_def path_case)
qed

lemma loaded_paths:
  "frag_path ` set (load_all parse_yaml files) =
     file_path ` {f \<in> set (yaml_files files). load_file parse_yaml f \<noteq> None}"
  by (fastforce simp: load_all_def set_map_filter load_file_path image_iff)

text \<open>The files a loaded ledger lists as skipped are those the stand-alone scan \<open>malformed\<close> finds, so
  the fold is reported complete exactly when every fragment file could be read and parsed. Required:
  no path is listed twice.\<close>

theorem skipped_are_malformed:
  assumes "load_with_fragments parse_yaml None path (Inr raw) archive files = Inr lg"
    and "parse_yaml raw = Inr base" and "distinct (map file_path files)"
  shows "lg_skipped_fragments lg = malformed parse_yaml files
    \<and> (fold_is_complete lg \<longleftrightarrow> list_all (\<lambda>f. load_file parse_yaml f \<noteq> None) (yaml_files files))"
proof -
  let ?S = "frag_path ` set (load_all parse_yaml files)"
  have inj: "inj_on file_path (set files)" using assms(3) by (simp add: distinct_map)
  have sub: "set (yaml_files files) \<subseteq> set files" by (auto simp: yaml_files_def)
  have out: "file_path f \<notin> ?S \<longleftrightarrow> load_file parse_yaml f = None" if "f \<in> set (yaml_files files)" for f
  proof -
    have "file_path f \<in> ?S \<longleftrightarrow> load_file parse_yaml f \<noteq> None"
    proof
      assume "file_path f \<in> ?S"
      then obtain g where g: "file_path f = file_path g" "g \<in> set (yaml_files files)"
        "load_file parse_yaml g \<noteq> None" unfolding loaded_paths by blast
      then have "f = g" using that sub by (intro inj_onD[OF inj]) auto
      with g show "load_file parse_yaml f \<noteq> None" by simp
    next
      assume "load_file parse_yaml f \<noteq> None"
      with that show "file_path f \<in> ?S" unfolding loaded_paths by blast
    qed
    then show ?thesis by blast
  qed
  from load_fresh[OF assms(1,2)]
  have "lg_skipped_fragments lg = filter (\<lambda>p. p \<notin> ?S) (fragment_paths files)"
    by (auto simp: layer_fragments_def set_fragment_sources_def split: prod.splits if_splits)
  also have "\<dots> = sort (map file_path (filter (\<lambda>f. file_path f \<notin> ?S) (yaml_files files)))"
    unfolding fragment_paths_def path_case by (simp add: filter_sort filter_map comp_def)
  also have "filter (\<lambda>f. file_path f \<notin> ?S) (yaml_files files) =
      filter (\<lambda>f. load_file parse_yaml f = None) (yaml_files files)"
    by (rule filter_cong[OF refl]) (rule out)
  finally have "lg_skipped_fragments lg = malformed parse_yaml files" unfolding malformed_alt .
  moreover have "malformed parse_yaml files = [] \<longleftrightarrow>
      list_all (\<lambda>f. load_file parse_yaml f \<noteq> None) (yaml_files files)"
    unfolding malformed_alt sort_Nil_iff by (simp add: filter_empty_conv list_all_iff)
  ultimately show ?thesis by (simp add: fold_is_complete_def)
qed

subsection \<open>A small directory\<close>

definition tiny_parse :: "string \<Rightarrow> string + yaml" where
  "tiny_parse raw =
     (if raw = ''base'' then Inr (YMapping [(YString ''packets'', YSequence [])])
      else if raw = ''broken'' then Inl ''bad''
      else Inr (YMapping [(YString ''packets'', YSequence [YMapping [(YString ''packet_id'', YString ''a'')]])]))"

definition tiny_raw :: string where
  "tiny_raw = ''packets:'' @ [CHR 10] @ ''  - packet_id: a'' @ [CHR 10]"

definition tiny_files :: "fragment_file list" where
  "tiny_files = [(''1.yaml'', ''d/1.yaml'', Some tiny_raw), (''2.yaml'', ''d/2.yaml'', Some ''broken'')]"

definition tiny_ledger :: ledger where
  "tiny_ledger = projr (load_with_fragments tiny_parse None ''i'' (Inr ''base'') [] tiny_files)"

lemma tiny_load:
  "load_with_fragments tiny_parse None ''i'' (Inr ''base'') [] tiny_files = Inr tiny_ledger"
  "tiny_parse ''base'' = Inr (YMapping [(YString ''packets'', YSequence [])])"
proof -
  show b: "tiny_parse ''base'' = Inr (YMapping [(YString ''packets'', YSequence [])])"
    by (simp add: tiny_parse_def)
  then show "load_with_fragments tiny_parse None ''i'' (Inr ''base'') [] tiny_files = Inr tiny_ledger"
    by (simp add: tiny_ledger_def load_with_fragments_def load_with_doc_def Let_def)
qed

theorem loaded_packets_resolve_witness:
  "\<exists>p \<in> set (lg_packets tiny_ledger). packet_id_of p = Some ''a'' \<and> resolve tiny_ledger ''a'' = Some p"
proof (rule loaded_packets_resolve[OF tiny_load])
  show "accepts_packets (YMapping [(YString ''packets'', YSequence [])])" by (simp add: accepts_packets_def contains_key_def)
  show "''packet_id'' \<notin> written_fields (load_all tiny_parse tiny_files)" by code_simp
  have "Some ''a'' \<in> packet_id_of ` set (declared (load_all tiny_parse tiny_files))" by code_simp
  then show "''a'' \<in> packet_ids (YMapping [(YString ''packets'', YSequence [])])
      \<union> declared_ids (load_all tiny_parse tiny_files)" by (simp add: declared_ids_def)
qed

theorem loaded_origin_cites_witness:
  "cites_packet (load_all tiny_parse tiny_files) ''a''
     \<lparr>fs_fragment_name = ''1.yaml'', fs_line_start = 2, fs_line_end = 2\<rparr>"
proof (rule loaded_origin_cites[OF tiny_load])
  show "map_of (lg_origin_sources tiny_ledger) ''a''
      = Some \<lparr>fs_fragment_name = ''1.yaml'', fs_line_start = 2, fs_line_end = 2\<rparr>"
    by code_simp
qed

theorem skipped_are_malformed_witness:
  "lg_skipped_fragments tiny_ledger = malformed tiny_parse tiny_files \<and> \<not> fold_is_complete tiny_ledger"
proof -
  have "distinct (map file_path tiny_files)" by code_simp
  moreover have "\<not> list_all (\<lambda>f. load_file tiny_parse f \<noteq> None) (yaml_files tiny_files)" by code_simp
  ultimately show ?thesis using skipped_are_malformed[OF tiny_load] by blast
qed

end
