(* ===== verification/Edit.thy ===== *)
theory Edit
  imports Spans
begin

text \<open>
  Format-preserving ledger edits (\<open>mod edit\<close> of \<open>crates/tillandsias-plan/src/lib.rs\<close>): locating the
  lines of a packet, inserting events into them, and building an event's lines.
\<close>

definition newline :: string where
  "newline = [CHR 10]"

definition is_item :: "string \<Rightarrow> bool" where
  "is_item l \<longleftrightarrow> starts_with ''    - '' l"

definition item_starts :: "string list \<Rightarrow> nat list" where
  "item_starts ls = filter (\<lambda>i. is_item (ls ! i)) [0..<length ls]"

text \<open>The items as \<open>[start, end)\<close>: from one item line to the next or to the end.\<close>

definition items :: "string list \<Rightarrow> (nat \<times> nat) list" where
  "items ls = (let st = item_starts ls in if st = [] then [] else zip st (tl st @ [length ls]))"

definition names_packet :: "string \<Rightarrow> string \<Rightarrow> bool" where
  "names_packet target l \<longleftrightarrow>
     (let t = trim l; want = ''packet_id: '' @ target
      in t = want \<or> strip_prefix ''- '' t = Some want)"

definition item_span :: "string \<Rightarrow> string \<Rightarrow> (nat \<times> nat) option" where
  "item_span raw target =
     (let ls = lines raw
      in find (\<lambda>(s, e). list_ex (names_packet target) (map ((!) ls) [s..<e])) (items ls))"

definition base_hosts_packet :: "string \<Rightarrow> string \<Rightarrow> bool" where
  "base_hosts_packet raw target \<longleftrightarrow> item_span raw target \<noteq> None"

definition events_header :: string where
  "events_header = ''      events:''"

definition insert_lines :: "nat \<Rightarrow> string list \<Rightarrow> string list \<Rightarrow> string list" where
  "insert_lines k ins ls = take k ls @ ins @ drop k ls"

definition text_of :: "string list \<Rightarrow> string" where
  "text_of ls = join newline ls @ newline"

datatype edit_error = PacketNotFound string | EmptyEventBlock

definition append_event :: "string \<Rightarrow> string \<Rightarrow> string \<Rightarrow> edit_error + string" where
  "append_event raw target block =
     (let ls = lines raw in
      case item_span raw target of
        None \<Rightarrow> Inl (PacketNotFound target)
      | Some (s, e) \<Rightarrow>
          (if lines block = [] then Inl EmptyEventBlock
           else Inr (text_of
             (case find (\<lambda>i. ls ! i = events_header) [s..<e] of
                Some ei \<Rightarrow> insert_lines (Suc ei) (lines block) ls
              | None \<Rightarrow> insert_lines e (events_header # lines block) ls))))"

text \<open>A field of the packet itself: exactly six columns deep.\<close>

definition is_field_line :: "string \<Rightarrow> bool" where
  "is_field_line l \<longleftrightarrow> starts_with ''      '' l \<and> \<not> starts_with ''        '' l"

definition end_of_events :: "string list \<Rightarrow> nat \<Rightarrow> nat \<Rightarrow> nat" where
  "end_of_events ls ei e =
     (case find (\<lambda>i. is_field_line (ls ! i)) [Suc ei..<e] of Some i \<Rightarrow> i | None \<Rightarrow> e)"

definition push_lines :: "string list \<Rightarrow> nat \<times> nat \<Rightarrow> string list \<Rightarrow> string list" where
  "push_lines ls = (\<lambda>(s, e) block.
     (case find (\<lambda>i. ls ! i = events_header) [s..<e] of
        Some ei \<Rightarrow> insert_lines (end_of_events ls ei e) block ls
      | None \<Rightarrow> insert_lines e (events_header # block) ls))"

definition push_event :: "string \<Rightarrow> string \<Rightarrow> string \<Rightarrow> edit_error + string" where
  "push_event raw target block =
     (case item_span raw target of
        None \<Rightarrow> Inl (PacketNotFound target)
      | Some se \<Rightarrow>
          (if lines block = [] then Inl EmptyEventBlock
           else Inr (text_of (push_lines (lines raw) se (lines block)))))"

subsection \<open>Many events in one pass\<close>

definition line_packet_id :: "string \<Rightarrow> string option" where
  "line_packet_id l =
     (let t = trim l; t' = unwrap_or t (strip_prefix ''- '' t)
      in strip_prefix ''packet_id: '' t')"

definition span_table :: "string list \<Rightarrow> (string \<times> (nat \<times> nat)) list" where
  "span_table ls =
     concat (map (\<lambda>(s, e). map (\<lambda>i. (i, (s, e))) (List.map_filter line_packet_id
       (map ((!) ls) [s..<e]))) (items ls))"

text \<open>Groups in order of first mention; \<open>slot\<close> is the packet a group was opened for.\<close>

type_synonym group = "string \<times> (nat \<times> nat) \<times> string list"

fun add_to_group :: "string \<Rightarrow> nat \<times> nat \<Rightarrow> string list \<Rightarrow> group list \<Rightarrow> group list" where
  "add_to_group pid se bl [] = [(pid, se, bl)]"
| "add_to_group pid se bl ((q, se', bl') # gs) =
     (if q = pid then (q, se', bl' @ bl) # gs else (q, se', bl') # add_to_group pid se bl gs)"

fun group_blocks ::
  "(string \<times> (nat \<times> nat)) list \<Rightarrow> (string \<times> string) list \<Rightarrow> group list \<Rightarrow> edit_error + group list" where
  "group_blocks table [] gs = Inr gs"
| "group_blocks table ((pid, block) # events) gs =
     (case map_of table pid of
        None \<Rightarrow> Inl (PacketNotFound pid)
      | Some se \<Rightarrow>
          (if lines block = [] then Inl EmptyEventBlock
           else group_blocks table events (add_to_group pid se (lines block) gs)))"

text \<open>A stable sort by descending start.\<close>

definition bottom_up :: "group list \<Rightarrow> group list" where
  "bottom_up gs = sort_key (\<lambda>(_, (s, _), _). - int s) gs"

definition push_events :: "string \<Rightarrow> (string \<times> string) list \<Rightarrow> edit_error + string" where
  "push_events raw events =
     (let ls = lines raw in
      case group_blocks (span_table ls) events [] of
        Inl err \<Rightarrow> Inl err
      | Inr gs \<Rightarrow> Inr (text_of (foldl (\<lambda>ls (_, se, block). push_lines ls se block) ls (bottom_up gs))))"

subsection \<open>Building an event\<close>

definition trim_end_newlines :: "string \<Rightarrow> string" where
  "trim_end_newlines s = trim_end_chars (\<lambda>c. c = CHR 10) s"

definition quote :: string where
  "quote = [CHR 34]"

definition event_head :: "string \<Rightarrow> string \<Rightarrow> string \<Rightarrow> string \<Rightarrow> string" where
  "event_head etype ts agent_id host =
     ''        - type: '' @ etype @ newline
     @ ''          ts: '' @ quote @ ts @ quote @ newline
     @ ''          agent_id: '' @ quote @ agent_id @ quote @ newline
     @ ''          host: '' @ host @ newline"

definition event_block :: "string \<Rightarrow> string \<Rightarrow> string \<Rightarrow> string \<Rightarrow> string \<Rightarrow> string" where
  "event_block etype ts agent_id host summary =
     event_head etype ts agent_id host @
     (if trim summary = [] then ''          summary: '' @ quote @ quote @ newline
      else ''          summary: |'' @ newline
        @ concat (map (\<lambda>line. if trim line = [] then newline else ''            '' @ line @ newline)
            (lines (trim_end_newlines summary))))"

subsection \<open>Where an event goes\<close>

lemma items_bounds:
  assumes "(s, e) \<in> set (items ls)"
  shows "s < e \<and> e \<le> length ls \<and> is_item (ls ! s)"
proof -
  let ?st = "item_starts ls"
  from assms obtain n where n: "n < length ?st" "s = ?st ! n" "e = (tl ?st @ [length ls]) ! n"
    by (auto simp: items_def Let_def set_zip split: if_splits)
  have "sorted_wrt (<) ?st" unfolding item_starts_def by (rule sorted_wrt_filter) simp
  moreover have mem: "s \<in> set ?st" using n by simp
  then have s: "s < length ls" "is_item (ls ! s)" by (auto simp: item_starts_def)
  moreover have "s < e \<and> e \<le> length ls"
  proof (cases "Suc n < length ?st")
    case True
    then have "n < length (tl ?st)" by simp
    then have e: "e = ?st ! Suc n" using n(3) by (simp add: nth_append nth_tl)
    then have "e \<in> set ?st" using True by simp
    then have "e < length ls" by (auto simp: item_starts_def)
    moreover have "?st ! n < ?st ! Suc n"
      using \<open>sorted_wrt (<) ?st\<close> True by (simp add: sorted_wrt_nth_less)
    ultimately show ?thesis using e n by simp
  next
    case False
    with n have "\<not> n < length (tl ?st)" "n - length (tl ?st) = 0" by auto
    with n(3) have "e = length ls" by (simp only: nth_append if_False) simp
    with s show ?thesis by simp
  qed
  ultimately show ?thesis by blast
qed

lemma item_span_bounds:
  assumes "item_span raw target = Some (s, e)"
  shows "s < e \<and> e \<le> length (lines raw) \<and> is_item (lines raw ! s)"
proof (rule items_bounds)
  show "(s, e) \<in> set (items (lines raw))"
    using find_SomeD[OF assms[unfolded item_span_def Let_def]] by blast
qed

lemma append_event_place:
  assumes "append_event raw target block = Inr out"
  shows "\<exists>s e k ins. item_span raw target = Some (s, e) \<and> s < k \<and> k \<le> e
    \<and> out = text_of (take k (lines raw) @ ins @ drop k (lines raw))
    \<and> (ins = lines block \<and> lines raw ! (k - 1) = events_header
       \<or> ins = events_header # lines block \<and> events_header \<notin> (!) (lines raw) ` {s..<e})"
proof -
  from assms obtain s e where se: "item_span raw target = Some (s, e)"
    by (auto simp: append_event_def Let_def split: option.splits)
  show ?thesis
  proof (cases "find (\<lambda>i. lines raw ! i = events_header) [s..<e]")
    case None
    then have "events_header \<notin> (!) (lines raw) ` {s..<e}" by (auto simp: find_None_iff)
    with None assms se item_span_bounds[OF se] show ?thesis
      by (intro exI[of _ s] exI[of _ e] exI[of _ e] exI[of _ "events_header # lines block"])
        (auto simp: append_event_def Let_def insert_lines_def split: if_splits)
  next
    case (Some ei)
    then have "s \<le> ei" "ei < e" "lines raw ! ei = events_header" by (auto simp: find_Some_iff)
    with Some assms se show ?thesis
      by (intro exI[of _ s] exI[of _ e] exI[of _ "Suc ei"] exI[of _ "lines block"])
        (auto simp: append_event_def Let_def insert_lines_def split: if_splits)
  qed
qed

text \<open>An appended event goes inside the lines of the item that names the packet and nowhere else:
  the result is the text's lines with one block of lines inserted at a place of that item, every
  other line kept in order.\<close>

theorem append_event_inserts_in_item:
  assumes "append_event raw target block = Inr out"
  shows "\<exists>s e k ins. item_span raw target = Some (s, e) \<and> s < k \<and> k \<le> e
    \<and> out = text_of (take k (lines raw) @ ins @ drop k (lines raw))
    \<and> (ins = lines block \<and> lines raw ! (k - 1) = events_header
       \<or> ins = events_header # lines block \<and> events_header \<notin> (!) (lines raw) ` {s..<e})"
  using assms by (rule append_event_place)

lemma append_ok:
  "(\<exists>out. append_event raw target block = Inr out) \<longleftrightarrow> base_hosts_packet raw target \<and> lines block \<noteq> []"
  by (auto simp: append_event_def base_hosts_packet_def Let_def split: option.splits)

text \<open>Appending succeeds exactly when the base text hosts the packet and the block has a line.\<close>

theorem append_event_ok_iff:
  "(\<exists>out. append_event raw target block = Inr out) \<longleftrightarrow> base_hosts_packet raw target \<and> lines block \<noteq> []"
  by (rule append_ok)


definition deep :: "string \<Rightarrow> bool" where
  "deep l \<longleftrightarrow> l = [] \<or> starts_with ''        '' l"

lemma deep_append: "deep (''        '' @ l)"
  by (simp add: deep_def starts_with_def)

lemma strip_cr_deep: "l \<noteq> [] \<Longrightarrow> hd l \<noteq> CHR 13 \<Longrightarrow> \<exists>r. strip_cr (''        '' @ l) = ''        '' @ r"
  by (auto simp: strip_cr_def butlast_append)

lemma deep_strip_cr: "\<exists>r. strip_cr (''         '' @ l) = ''        '' @ r"
proof (cases l rule: rev_cases)
  case Nil
  then show ?thesis by (auto simp: strip_cr_def)
next
  case (snoc xs x)
  then show ?thesis by (auto simp: strip_cr_def butlast_append)
qed

lemma deep_nine: "deep (strip_cr (''         '' @ l))"
  using deep_strip_cr[of l] deep_append by auto

lemma deep_body:
  "\<forall>l \<in> set ls. CHR 10 \<notin> set l \<Longrightarrow>
     \<forall>l \<in> set (lines (concat (map (\<lambda>line. if trim line = [] then newline else ''            '' @ line @ newline) ls))).
       deep l"
proof (induction ls)
  case (Cons l ls)
  then have no: "CHR 10 \<notin> set l" by simp
  show ?case
  proof (cases "trim l = []")
    case True
    with Cons lines_Cons[of "[]"] show ?thesis by (simp add: newline_def strip_cr_def deep_def)
  next
    case False
    with no Cons lines_Cons[of "''            '' @ l"] deep_nine[of "''   '' @ l"]
    show ?thesis by (simp add: newline_def)
  qed
qed simp

lemma lines_event_head:
  assumes "CHR 10 \<notin> set etype" and "CHR 10 \<notin> set ts" and "CHR 10 \<notin> set agent_id" and "CHR 10 \<notin> set host"
  shows "lines (event_head etype ts agent_id host @ rest) =
     strip_cr (''        - type: '' @ etype) # strip_cr (''          ts: '' @ quote @ ts @ quote)
     # strip_cr (''          agent_id: '' @ quote @ agent_id @ quote)
     # strip_cr (''          host: '' @ host) # lines rest"
  using assms lines_Cons[of "''        - type: '' @ etype"] lines_Cons[of "''          ts: '' @ quote @ ts @ quote"]
    lines_Cons[of "''          agent_id: '' @ quote @ agent_id @ quote"] lines_Cons[of "''          host: '' @ host"]
  by (simp add: event_head_def newline_def quote_def)

lemma deep_dash: "deep (strip_cr (''        - type: '' @ l))"
  by (cases l rule: rev_cases) (auto simp: strip_cr_def butlast_append deep_def starts_with_def)

lemma event_lines_deep:
  assumes "CHR 10 \<notin> set etype" and "CHR 10 \<notin> set ts" and "CHR 10 \<notin> set agent_id" and "CHR 10 \<notin> set host"
    and "l \<in> set (lines (event_block etype ts agent_id host summary))"
  shows "deep l"
proof (cases "trim summary = []")
  case True
  then have "lines (event_block etype ts agent_id host summary) =
      lines (event_head etype ts agent_id host @ ((''          summary: '' @ quote @ quote) @ CHR 10 # []))"
    by (simp add: event_block_def newline_def)
  also have "\<dots> = strip_cr (''        - type: '' @ etype) # strip_cr (''          ts: '' @ quote @ ts @ quote)
     # strip_cr (''          agent_id: '' @ quote @ agent_id @ quote)
     # strip_cr (''          host: '' @ host) # [strip_cr (''          summary: '' @ quote @ quote)]"
    unfolding lines_event_head[OF assms(1-4)] by (subst lines_Cons) (simp_all add: quote_def)
  finally show ?thesis
    using assms(5) deep_dash[of etype] deep_nine[of "'' ts: '' @ quote @ ts @ quote"]
      deep_nine[of "'' agent_id: '' @ quote @ agent_id @ quote"] deep_nine[of "'' host: '' @ host"]
      deep_nine[of "'' summary: '' @ quote @ quote"]
    by auto
next
  case False
  let ?body = "concat (map (\<lambda>line. if trim line = [] then newline else ''            '' @ line @ newline)
    (lines (trim_end_newlines summary)))"
  have "lines (event_block etype ts agent_id host summary) =
      lines (event_head etype ts agent_id host @ (''          summary: |'' @ CHR 10 # ?body))"
    using False by (simp add: event_block_def newline_def)
  also have "\<dots> = strip_cr (''        - type: '' @ etype) # strip_cr (''          ts: '' @ quote @ ts @ quote)
     # strip_cr (''          agent_id: '' @ quote @ agent_id @ quote)
     # strip_cr (''          host: '' @ host) # strip_cr ''          summary: |'' # lines ?body"
    unfolding lines_event_head[OF assms(1-4)] by (subst lines_Cons) simp_all
  finally show ?thesis
    using assms(5) deep_dash[of etype] deep_nine[of "'' ts: '' @ quote @ ts @ quote"]
      deep_nine[of "'' agent_id: '' @ quote @ agent_id @ quote"] deep_nine[of "'' host: '' @ host"]
      deep_nine[of "'' summary: |''"]
      deep_body[of "lines (trim_end_newlines summary)"] lines_no_newline
    by auto
qed

text \<open>Every line of an event block is empty or at least eight columns deep, for every summary, so
  that an event neither opens an item nor a field of the packet.\<close>

theorem event_block_lines_deep:
  assumes "CHR 10 \<notin> set etype" and "CHR 10 \<notin> set ts" and "CHR 10 \<notin> set agent_id" and "CHR 10 \<notin> set host"
    and "l \<in> set (lines (event_block etype ts agent_id host summary))"
  shows "deep l"
  using assms by (rule event_lines_deep)

lemma deep_not_item:
  assumes "deep l"
  shows "\<not> is_item l"
proof (cases "l = []")
  case True
  then show ?thesis by (simp add: is_item_def starts_with_def)
next
  case False
  with assms have "starts_with ''        '' l" by (simp add: deep_def)
  then obtain r where "l = ''        '' @ r" by (rule starts_withE)
  then show ?thesis by (simp add: is_item_def starts_with_def)
qed

lemma append_event_filter:
  assumes "append_event raw target block = Inr out" and "\<forall>l \<in> set (lines block). \<not> P l"
    and "\<not> P events_header"
  shows "\<exists>ls. out = text_of ls \<and> filter P ls = filter P (lines raw)"
proof -
  from append_event_place[OF assms(1)] obtain k ins where
    out: "out = text_of (take k (lines raw) @ ins @ drop k (lines raw))"
    and ins: "ins = lines block \<or> ins = events_header # lines block" by blast
  from ins assms(2,3) have "filter P ins = []" by (auto simp: filter_empty_conv)
  then have "filter P (take k (lines raw) @ ins @ drop k (lines raw)) = filter P (take k (lines raw) @ drop k (lines raw))"
    by (simp only: filter_append append_Nil)
  with out show ?thesis by (metis append_take_drop_id)
qed

text \<open>Appending an event built by \<open>event_block\<close> neither adds, removes nor reorders a list item of
  the ledger text.\<close>

theorem append_event_keeps_items:
  assumes "CHR 10 \<notin> set etype" and "CHR 10 \<notin> set ts" and "CHR 10 \<notin> set agent_id" and "CHR 10 \<notin> set host"
    and "append_event raw target (event_block etype ts agent_id host summary) = Inr out"
  shows "\<exists>ls. out = text_of ls \<and> filter is_item ls = filter is_item (lines raw)"
proof (rule append_event_filter[OF assms(5)])
  show "\<forall>l \<in> set (lines (event_block etype ts agent_id host summary)). \<not> is_item l"
    using event_lines_deep[OF assms(1-4)] deep_not_item by blast
  show "\<not> is_item events_header" by code_simp
qed

text \<open>A text with two packets.\<close>

definition two_packets :: string where
  "two_packets = concat (map (\<lambda>l. l @ newline)
     [''packets:'', ''    - packet_id: a'', ''      title: x'', ''    - packet_id: b'', ''      events:''])"

theorem append_event_inserts_in_item_witness:
  "\<exists>out. append_event two_packets ''a'' ''        - type: note'' = Inr out
    \<and> (\<exists>k ins. 1 < k \<and> k \<le> 3 \<and> out = text_of (take k (lines two_packets) @ ins @ drop k (lines two_packets)))"
proof -
  have "base_hosts_packet two_packets ''a'' \<and> lines ''        - type: note'' \<noteq> []" by code_simp
  then obtain out where out: "append_event two_packets ''a'' ''        - type: note'' = Inr out"
    unfolding append_ok[symmetric] by blast
  from append_event_inserts_in_item[OF this] obtain s e k ins where
    "item_span two_packets ''a'' = Some (s, e)" "s < k" "k \<le> e"
    "out = text_of (take k (lines two_packets) @ ins @ drop k (lines two_packets))" by blast
  moreover have "item_span two_packets ''a'' = Some (1, 3)" by code_simp
  ultimately show ?thesis using out by (intro exI[of _ out] conjI exI[of _ k] exI[of _ ins]) simp_all
qed

theorem event_block_lines_deep_witness:
  "deep ''            go''"
proof (rule event_block_lines_deep)
  show "''            go'' \<in> set (lines (event_block ''note'' ''t'' ''a'' ''h'' ''go''))" by code_simp
qed code_simp+

theorem append_event_keeps_items_witness:
  "\<exists>out ls. append_event two_packets ''b'' (event_block ''note'' ''t'' ''a'' ''h'' ''go'') = Inr out
    \<and> out = text_of ls \<and> filter is_item ls = [''    - packet_id: a'', ''    - packet_id: b'']"
proof -
  have "base_hosts_packet two_packets ''b'' \<and> lines (event_block ''note'' ''t'' ''a'' ''h'' ''go'') \<noteq> []"
    by code_simp
  then obtain out where out: "append_event two_packets ''b'' (event_block ''note'' ''t'' ''a'' ''h'' ''go'') = Inr out"
    unfolding append_ok[symmetric] by blast
  have "CHR 10 \<notin> set ''note''" "CHR 10 \<notin> set ''t''" "CHR 10 \<notin> set ''a''" "CHR 10 \<notin> set ''h''" by code_simp+
  from append_event_keeps_items[OF this out] obtain ls where
    "out = text_of ls" "filter is_item ls = filter is_item (lines two_packets)" by blast
  moreover have "filter is_item (lines two_packets) = [''    - packet_id: a'', ''    - packet_id: b'']"
    by code_simp
  ultimately show ?thesis using out by auto
qed

lemma map_sum_Inr: "map_sum id f x = Inr y \<Longrightarrow> \<exists>z. x = Inr z \<and> f z = y"
  by (cases x) auto

text \<open>An event can capture another packet: after an event whose summary has the line
  \<open>packet_id: b\<close> is appended to the first packet, appending to packet \<open>b\<close> writes into the first
  packet's lines.\<close>

theorem event_summary_can_capture_packet:
  "\<exists>raw raw'. append_event raw ''a'' (event_block ''note'' ''t'' ''w'' ''h'' ''packet_id: b'') = Inr raw'
     \<and> item_span raw ''a'' \<noteq> item_span raw ''b'' \<and> item_span raw' ''a'' = item_span raw' ''b''
     \<and> item_span raw ''b'' \<noteq> None"
proof -
  have ev: "map_sum id (\<lambda>t. (item_span t ''a'', item_span t ''b''))
      (append_event two_packets ''a'' (event_block ''note'' ''t'' ''w'' ''h'' ''packet_id: b''))
    = Inr (Some (1, 10), Some (1, 10))"
    by code_simp
  have "item_span two_packets ''a'' = Some (1, 3)" "item_span two_packets ''b'' = Some (3, 5)"
    by code_simp+
  note spans = this
  from map_sum_Inr[OF ev] obtain raw' where raw':
    "append_event two_packets ''a'' (event_block ''note'' ''t'' ''w'' ''h'' ''packet_id: b'') = Inr raw'"
    "item_span raw' ''a'' = Some (1, 10)" "item_span raw' ''b'' = Some (1, 10)"
    unfolding prod.inject by blast
  have "item_span two_packets ''a'' \<noteq> item_span two_packets ''b''"
    "item_span raw' ''a'' = item_span raw' ''b''" "item_span two_packets ''b'' \<noteq> None"
    unfolding spans raw' by simp_all
  with raw'(1) show ?thesis by (intro exI[of _ two_packets] exI[of _ raw'] conjI)
qed

text \<open>One pass is not always the sequence of single pushes: for two packets named by lines of the
  same item, the one-pass insertion puts the second packet's event before the first's.\<close>

definition nested_ids :: string where
  "nested_ids = concat (map (\<lambda>l. l @ newline)
     [''    - packet_id: a'', ''      note: |'', ''        packet_id: b'', ''      events:''])"

theorem push_events_not_sequential:
  "push_events nested_ids [(''a'', ''        - e1''), (''b'', ''        - e2'')] \<noteq>
     (case push_event nested_ids ''a'' ''        - e1'' of
        Inl err \<Rightarrow> Inl err | Inr raw \<Rightarrow> push_event raw ''b'' ''        - e2'')"
  by code_simp

end
