(* ===== verification/Integrity.thy ===== *)
theory Integrity
  imports Ledger_Props
begin

text \<open>
  The invariant core of \<open>check\<close> (\<open>check_integrity\<close>), the tier vocabularies, schema validation and
  the flush guard of \<open>crates/tillandsias-plan/src/lib.rs\<close>. Messages are constructors that carry what
  the code formats into them.
\<close>

subsection \<open>Reports\<close>

datatype issue =
  MissingPacketId
| DuplicatePacketId string
| DuplicateOrder string "string list"
| ProseAnnotation string string string
| UnresolvedReference string string string
| RetiredUnresolvedReference string string string
| MissingReciprocal string string
| RetiredMissingReciprocal string string

record integrity_report =
  violations :: "issue list"
  warnings :: "issue list"

definition violation :: "issue \<Rightarrow> integrity_report \<Rightarrow> integrity_report" where
  "violation i r = r\<lparr>violations := violations r @ [i]\<rparr>"

definition warning :: "issue \<Rightarrow> integrity_report \<Rightarrow> integrity_report" where
  "warning i r = r\<lparr>warnings := warnings r @ [i]\<rparr>"

definition is_id_shaped :: "string \<Rightarrow> bool" where
  "is_id_shaped r \<longleftrightarrow> r \<noteq> [] \<and>
     list_all (\<lambda>c. is_ascii_lowercase c \<or> is_ascii_digit c \<or> c \<in> {CHR ''.'', CHR ''_'', CHR ''/'', CHR ''-''}) r"

definition live_statuses :: "string list" where
  "live_statuses = [''ready'', ''pending'', ''claimed'', ''blocked'']"

definition is_live :: "yaml \<Rightarrow> bool" where
  "is_live p \<longleftrightarrow> (case str_field p ''status'' of None \<Rightarrow> False | Some s \<Rightarrow> s \<in> set live_statuses)"

text \<open>First pass: every packet has an id and no id occurs twice.\<close>

definition check_id :: "string set \<times> integrity_report \<Rightarrow> yaml \<Rightarrow> string set \<times> integrity_report" where
  "check_id = (\<lambda>(seen, r) p.
     (case str_field p ''packet_id'' of
        None \<Rightarrow> (seen, violation MissingPacketId r)
      | Some i \<Rightarrow> if i \<in> seen then (seen, violation (DuplicatePacketId i) r) else (insert i seen, r)))"

text \<open>Second pass: order tokens claimed by several packets, in token order.\<close>

definition order_claim_lists :: "yaml list \<Rightarrow> (string, string list) btmap" where
  "order_claim_lists ps =
     foldl (\<lambda>m p. (case packet_token p of
          None \<Rightarrow> m
        | Some t \<Rightarrow>
            (if t = ''provisional'' then m
             else (case str_field p ''packet_id'' of
                     None \<Rightarrow> m
                   | Some i \<Rightarrow> bt_insert t (unwrap_or [] (map_of m t) @ [i]) m))))
       [] ps"

definition check_orders :: "yaml list \<Rightarrow> integrity_report \<Rightarrow> integrity_report" where
  "check_orders ps r =
     foldl (\<lambda>r (t, ids). if 1 < length ids then warning (DuplicateOrder t ids) r else r)
       r (order_claim_lists ps)"

text \<open>Third pass: the references of each packet.\<close>

definition refs_of :: "yaml \<Rightarrow> string \<Rightarrow> string list" where
  "refs_of p field =
     (case yget p field of
        Some (YString s) \<Rightarrow> [s]
      | Some (YSequence _) \<Rightarrow> str_list p field
      | _ \<Rightarrow> [])"

definition has_reciprocal :: "ledger \<Rightarrow> string \<Rightarrow> yaml option \<Rightarrow> bool" where
  "has_reciprocal lg i target =
     (case target of
        None \<Rightarrow> False
      | Some tp \<Rightarrow> list_ex (\<lambda>dep. dep = i \<or> map_option id_of (resolve lg dep) = Some i)
                     (str_list tp ''depends_on''))"

definition check_ref ::
  "ledger \<Rightarrow> string \<Rightarrow> bool \<Rightarrow> string \<Rightarrow> integrity_report \<Rightarrow> string \<Rightarrow> integrity_report" where
  "check_ref lg i live field r ref =
     (if \<not> reference_resolves lg ref then
        (if \<not> is_id_shaped ref then warning (ProseAnnotation i field ref) r
         else if live then violation (UnresolvedReference i field ref) r
         else warning (RetiredUnresolvedReference i field ref) r)
      else if field = ''blocks'' then
        (let target = resolve lg ref;
             target_id = (case target of Some tp \<Rightarrow> id_of tp | None \<Rightarrow> ref)
         in if has_reciprocal lg i target then r
            else if live then violation (MissingReciprocal i target_id) r
            else warning (RetiredMissingReciprocal i target_id) r)
      else r)"

definition check_refs :: "ledger \<Rightarrow> string list \<Rightarrow> integrity_report \<Rightarrow> yaml \<Rightarrow> integrity_report" where
  "check_refs lg reference_fields r p =
     foldl (\<lambda>r field. foldl (check_ref lg (id_of p) (is_live p) field) r (refs_of p field))
       r reference_fields"

definition check_integrity :: "ledger \<Rightarrow> string list \<Rightarrow> integrity_report" where
  "check_integrity lg reference_fields =
     (let r1 = snd (foldl check_id ({}, \<lparr>violations = [], warnings = []\<rparr>) (lg_packets lg));
          r2 = check_orders (lg_packets lg) r1
      in foldl (check_refs lg reference_fields) r2 (lg_packets lg))"

subsection \<open>Tier vocabularies and schema\<close>

definition tier_fields :: "(string \<times> string list) list" where
  "tier_fields =
     [(''size'', [''S'', ''M'', ''L'']),
      (''implementer_tier'', [''local'', ''haiku'', ''sonnet'', ''opus''])]"

text \<open>\<open>to_text\<close> is \<open>serde_yaml::to_string\<close>.\<close>

definition tier_value :: "(yaml \<Rightarrow> string option) \<Rightarrow> yaml \<Rightarrow> string option" where
  "tier_value to_text v =
     (case v of YString s \<Rightarrow> Some s | other \<Rightarrow> map_option trim (to_text other))"

definition tier_field :: "(yaml \<Rightarrow> string option) \<Rightarrow> yaml \<Rightarrow> string \<Rightarrow> string option" where
  "tier_field to_text packet field =
     (case yget packet field of
        Some v \<Rightarrow> tier_value to_text v
      | None \<Rightarrow>
          (case map_of tier_fields field of
             None \<Rightarrow> None
           | Some vocab \<Rightarrow>
               (case str_field packet ''notes'' of
                  None \<Rightarrow> None
                | Some notes \<Rightarrow>
                    Option.bind
                      (find (\<lambda>x. x \<noteq> None)
                        (map (\<lambda>line.
                            (case strip_prefix (field @ '':'') (trim line) of
                               None \<Rightarrow> None
                             | Some v \<Rightarrow> if trim v \<in> set vocab then Some (trim v) else None))
                          (lines notes)))
                      id)))"

definition tier_vocabulary_refusal :: "string \<Rightarrow> string \<Rightarrow> (string \<times> string \<times> string list) option" where
  "tier_vocabulary_refusal field value =
     (case map_of tier_fields field of
        None \<Rightarrow> None
      | Some vocab \<Rightarrow> if value \<in> set vocab then None else Some (field, value, vocab))"

definition tier_vocabulary_violations ::
  "(yaml \<Rightarrow> string option) \<Rightarrow> ledger \<Rightarrow> (string \<times> string \<times> string \<times> string list) list" where
  "tier_vocabulary_violations to_text lg =
     concat (map (\<lambda>p.
         List.map_filter (\<lambda>(field, _).
             Option.bind (yget p field) (\<lambda>v.
               map_option (Pair (id_of p))
                 (tier_vocabulary_refusal field (unwrap_or [] (tier_value to_text v)))))
           tier_fields)
       (lg_packets lg))"

record schema =
  sc_required_fields :: "string list"
  sc_statuses :: "string list"
  sc_reference_fields :: "string list"

definition schema_of_doc :: "yaml \<Rightarrow> schema" where
  "schema_of_doc doc =
     \<lparr>sc_required_fields = str_list doc ''required_fields'', sc_statuses = str_list doc ''statuses'',
      sc_reference_fields = str_list doc ''reference_fields''\<rparr>"

definition schema_minimal :: schema where
  "schema_minimal =
     \<lparr>sc_required_fields = [], sc_statuses = [],
      sc_reference_fields = [''depends_on'', ''release_target'', ''split_into'', ''blocks'']\<rparr>"

datatype schema_violation = MissingRequired string string | StatusNotInSchema string string

definition validate_against_schema :: "ledger \<Rightarrow> schema \<Rightarrow> schema_violation list" where
  "validate_against_schema lg schema =
     concat (map (\<lambda>p.
         map (MissingRequired (id_of p)) (filter (\<lambda>req. yget p req = None) (sc_required_fields schema))
         @ (case str_field p ''status'' of
              None \<Rightarrow> []
            | Some s \<Rightarrow>
                (if sc_statuses schema \<noteq> [] \<and> s \<notin> set (sc_statuses schema)
                 then [StatusNotInSchema (id_of p) s] else [])))
       (lg_packets lg))"

text \<open>The flush guard: what makes a candidate text a broken ledger.\<close>

datatype flush_violation = ParseError string | Broken issue

definition validate_candidate ::
  "(string \<Rightarrow> (string + yaml)) \<Rightarrow> string \<Rightarrow> string list \<Rightarrow> string list \<Rightarrow> flush_violation list" where
  "validate_candidate parse_yaml candidate archived reference_fields =
     (case parse_ledger parse_yaml candidate archived of
        Inl e \<Rightarrow> [ParseError e]
      | Inr lg \<Rightarrow> map Broken (violations (check_integrity lg reference_fields)))"

subsection \<open>What a clean report means\<close>

lemma report_simps [simp]:
  "violations (violation i r) = violations r @ [i]" "warnings (violation i r) = warnings r"
  "violations (warning i r) = violations r" "warnings (warning i r) = warnings r @ [i]"
  by (simp_all add: violation_def warning_def)

lemma str_field_id: "str_field p ''packet_id'' = packet_id_of p"
  by (simp add: str_field_def packet_id_of_def)

lemma check_ids_clean:
  "violations (snd (foldl check_id (seen, r) ps)) = [] \<longleftrightarrow>
     violations r = [] \<and> None \<notin> packet_id_of ` set ps
     \<and> distinct (List.map_filter packet_id_of ps)
     \<and> set (List.map_filter packet_id_of ps) \<inter> seen = {}"
proof (induction ps arbitrary: seen r)
  case (Cons p ps)
  show ?case
  proof (cases "packet_id_of p")
    case None
    with Cons.IH show ?thesis by (simp add: check_id_def str_field_id)
  next
    case (Some i)
    with Cons.IH show ?thesis
      by (cases "i \<in> seen") (auto simp: check_id_def str_field_id List.map_filter_simps)
  qed
qed (simp add: List.map_filter_simps)

lemma check_orders_violations [simp]: "violations (check_orders ps r) = violations r"
proof -
  have "violations (foldl (\<lambda>r (t, ids). if 1 < length ids then warning (DuplicateOrder t ids) r else r) r m)
      = violations r" for m
    by (induction m arbitrary: r) auto
  then show ?thesis by (simp add: check_orders_def)
qed

text \<open>A reference of a live packet that the check accepts.\<close>

definition sound_ref :: "ledger \<Rightarrow> string \<Rightarrow> string \<Rightarrow> string \<Rightarrow> bool" where
  "sound_ref lg i field ref \<longleftrightarrow>
     (if reference_resolves lg ref then field = ''blocks'' \<longrightarrow> has_reciprocal lg i (resolve lg ref)
      else \<not> is_id_shaped ref)"

lemma check_ref_clean:
  "violations (check_ref lg i live field r ref) = [] \<longleftrightarrow>
     violations r = [] \<and> (live \<longrightarrow> sound_ref lg i field ref)"
  by (auto simp: check_ref_def sound_ref_def Let_def)

lemma foldl_clean:
  assumes "\<And>r x. violations (f r x) = [] \<longleftrightarrow> violations r = [] \<and> P x"
  shows "violations (foldl f r xs) = [] \<longleftrightarrow> violations r = [] \<and> (\<forall>x \<in> set xs. P x)"
  by (induction xs arbitrary: r) (auto simp: assms)

lemma check_refs_clean:
  "violations (check_refs lg rfs r p) = [] \<longleftrightarrow> violations r = []
     \<and> (\<forall>field \<in> set rfs. \<forall>ref \<in> set (refs_of p field). is_live p \<longrightarrow> sound_ref lg (id_of p) field ref)"
  unfolding check_refs_def
  by (intro foldl_clean foldl_clean check_ref_clean)

lemma integrity_clean:
  "violations (check_integrity lg rfs) = [] \<longleftrightarrow>
     None \<notin> packet_id_of ` set (lg_packets lg) \<and> unique_ids lg
     \<and> (\<forall>p \<in> set (lg_packets lg). is_live p \<longrightarrow>
          (\<forall>field \<in> set rfs. \<forall>ref \<in> set (refs_of p field). sound_ref lg (id_of p) field ref))"
proof -
  let ?r = "check_orders (lg_packets lg)
    (snd (foldl check_id ({}, \<lparr>violations = [], warnings = []\<rparr>) (lg_packets lg)))"
  have "violations ?r = [] \<longleftrightarrow> None \<notin> packet_id_of ` set (lg_packets lg) \<and> unique_ids lg"
    by (simp add: check_ids_clean unique_ids_def)
  moreover have "violations (check_integrity lg rfs) = [] \<longleftrightarrow> violations ?r = [] \<and>
      (\<forall>p \<in> set (lg_packets lg). \<forall>field \<in> set rfs. \<forall>ref \<in> set (refs_of p field).
          is_live p \<longrightarrow> sound_ref lg (id_of p) field ref)"
    unfolding check_integrity_def Let_def
    by (rule foldl_clean) (rule check_refs_clean)
  ultimately show ?thesis by blast
qed


text \<open>C33. A candidate text that the flush guard accepts parses to a ledger in which every packet
  resolves by its own id.\<close>

theorem flushed_ledger_resolves:
  assumes "validate_candidate parse_yaml raw archived rfs = []"
  shows "\<exists>lg. parse_ledger parse_yaml raw archived = Inr lg
    \<and> (\<forall>p \<in> set (lg_packets lg). \<exists>i. packet_id_of p = Some i \<and> resolve lg i = Some p)"
proof -
  from assms obtain lg where lg: "parse_ledger parse_yaml raw archived = Inr lg"
    "violations (check_integrity lg rfs) = []"
    by (auto simp: validate_candidate_def split: sum.splits)
  from lg(1) obtain doc where "lg = from_doc raw doc archived"
    by (auto simp: parse_ledger_def split: sum.splits)
  then have "indexed lg" by (simp add: indexed_from_doc)
  moreover have "unique_ids lg" "None \<notin> packet_id_of ` set (lg_packets lg)"
    using lg(2) unfolding integrity_clean by auto
  ultimately show ?thesis
    using lg(1) resolve_unique_id by (metis image_eqI not_Some_eq)
qed

definition sample_parse :: "string \<Rightarrow> string + yaml" where
  "sample_parse raw = Inr (YSequence [YMapping [(YString ''packet_id'', YString raw)]])"

theorem flushed_ledger_resolves_witness:
  "\<exists>lg. parse_ledger sample_parse ''a'' [] = Inr lg
    \<and> (\<forall>p \<in> set (lg_packets lg). \<exists>i. packet_id_of p = Some i \<and> resolve lg i = Some p)"
proof (rule flushed_ledger_resolves)
  show "validate_candidate sample_parse ''a'' [] [] = []" by code_simp
qed

text \<open>Archived history never becomes schedulable work: what \<open>ready\<close> offers does not depend on the
  archive, and every packet it offers is a live one in status \<open>ready\<close> whose role matches.\<close>

theorem ready_is_live_work:
  "ready (lg\<lparr>lg_archive := a\<rparr>) role = ready lg role
   \<and> (p \<in> set (ready lg role) \<longleftrightarrow> p \<in> set (lg_packets lg) \<and> get_str p ''status'' = Some ''ready''
        \<and> (role = None \<or> get_str p ''pickup_role'' = role \<or> get_str p ''pickup_role'' = Some ''any''))"
  by (auto simp: ready_def str_field_def split: option.splits)

end
