(* ===== verification/Allocate.thy ===== *)
theory Allocate
  imports Integrity
begin

text \<open>
  Order-token allocation (\<open>mod allocate\<close> of \<open>crates/tillandsias-plan/src/lib.rs\<close>). The hasher that
  serves as entropy is a parameter: \<open>src k\<close> is the k-th 64-bit value drawn, and every operation
  returns how many values have been drawn.
\<close>

definition alphabet :: string where
  "alphabet = ''abcdefghijkmnpqrstuvwxyz23456789''"

definition suffix_len :: nat where
  "suffix_len = 4"

fun suffix_loop :: "(nat \<Rightarrow> nat) \<Rightarrow> nat \<Rightarrow> nat \<Rightarrow> nat \<Rightarrow> string \<times> nat" where
  "suffix_loop src 0 k bits = ([], k)"
| "suffix_loop src (Suc n) k bits =
     (let c = alphabet ! (bits mod length alphabet);
          b = bits div length alphabet;
          (b', k') = (if b < length alphabet then (src k, Suc k) else (b, k));
          (rest, k'') = suffix_loop src n k' b'
      in (c # rest, k''))"

definition random_suffix :: "(nat \<Rightarrow> nat) \<Rightarrow> nat \<Rightarrow> string \<times> nat" where
  "random_suffix src k = suffix_loop src suffix_len (Suc k) (src k)"

definition token_prefix :: "string \<Rightarrow> nat option" where
  "token_prefix t = parse_u64 (takeWhile is_ascii_digit t)"

definition highest_prefix :: "ledger \<Rightarrow> nat" where
  "highest_prefix lg =
     foldl max 0 (List.map_filter token_prefix (List.map_filter packet_token (lg_packets lg)))"

text \<open>\<open>highest_prefix(ledger) + 1\<close> in \<open>u64\<close>, wrapping as a release build does.\<close>

definition next_prefix :: "ledger \<Rightarrow> nat" where
  "next_prefix lg = (highest_prefix lg + 1) mod 2 ^ 64"

definition unclaimed :: "ledger \<Rightarrow> string set \<Rightarrow> string \<Rightarrow> bool" where
  "unclaimed lg reserved token \<longleftrightarrow>
     token \<notin> reserved \<and> resolve lg token = None \<and> ambiguous_claimants lg token = []"

fun mint_loop ::
  "ledger \<Rightarrow> string set \<Rightarrow> nat \<Rightarrow> (nat \<Rightarrow> nat) \<Rightarrow> nat \<Rightarrow> nat \<Rightarrow> string option \<times> nat" where
  "mint_loop lg reserved seq src 0 k = (None, k)"
| "mint_loop lg reserved seq src (Suc n) k =
     (let (s, k') = random_suffix src k;
          token = show_nat seq @ ''-'' @ s
      in if unclaimed lg reserved token then (Some token, k')
         else mint_loop lg reserved seq src n k')"

definition mint_avoiding ::
  "ledger \<Rightarrow> nat option \<Rightarrow> string set \<Rightarrow> (nat \<Rightarrow> nat) \<Rightarrow> nat \<Rightarrow> (string + string) \<times> nat" where
  "mint_avoiding lg prefix reserved src k =
     (let seq = (case prefix of Some p \<Rightarrow> p | None \<Rightarrow> next_prefix lg)
      in case mint_loop lg reserved seq src 64 k of
           (Some token, k') \<Rightarrow> (Inr token, k')
         | (None, k') \<Rightarrow>
             (Inl (''could not mint an unclaimed order token for prefix '' @ show_nat seq @ '' in 64 attempts ''
               @ [CHR 0xE2, CHR 0x80, CHR 0x94] @ '' this indicates a bug, not exhaustion''), k'))"

definition mint :: "ledger \<Rightarrow> nat option \<Rightarrow> (nat \<Rightarrow> nat) \<Rightarrow> nat \<Rightarrow> (string + string) \<times> nat" where
  "mint lg prefix src k = mint_avoiding lg prefix {} src k"

fun mint_batch_loop ::
  "ledger \<Rightarrow> nat option \<Rightarrow> (nat \<Rightarrow> nat) \<Rightarrow> nat \<Rightarrow> string set \<Rightarrow> string list \<Rightarrow> nat
    \<Rightarrow> (string + string list) \<times> nat" where
  "mint_batch_loop lg prefix src 0 issued out k = (Inr out, k)"
| "mint_batch_loop lg prefix src (Suc n) issued out k =
     (case mint_avoiding lg prefix issued src k of
        (Inl e, k') \<Rightarrow> (Inl e, k')
      | (Inr token, k') \<Rightarrow>
          mint_batch_loop lg prefix src n (insert token issued) (out @ [token]) k')"

definition mint_batch ::
  "ledger \<Rightarrow> nat option \<Rightarrow> nat \<Rightarrow> (nat \<Rightarrow> nat) \<Rightarrow> nat \<Rightarrow> (string + string list) \<times> nat" where
  "mint_batch lg prefix count src k = mint_batch_loop lg prefix src count {} [] k"

subsection \<open>Shape of a token\<close>

definition token_char :: "char \<Rightarrow> bool" where
  "token_char c \<longleftrightarrow> is_ascii_digit c \<or> is_ascii_lowercase c \<or> c = CHR ''-''"

lemma alphabet_chars: "list_all (\<lambda>c. is_ascii_digit c \<or> is_ascii_lowercase c) alphabet"
  by code_simp

lemma length_alphabet [simp]: "length alphabet = 32"
  by code_simp

lemma suffix_loop_shape:
  "suffix_loop src n k bits = (s, k') \<Longrightarrow> length s = n \<and> set s \<subseteq> set alphabet"
proof (induction n arbitrary: k bits s k')
  case (Suc n)
  then obtain b k1 r k2 where r: "suffix_loop src n k1 b = (r, k2)"
    "s = alphabet ! (bits mod length alphabet) # r"
    by (auto simp: Let_def split: prod.splits if_splits)
  moreover have "alphabet ! (bits mod length alphabet) \<in> set alphabet" by (intro nth_mem) simp
  ultimately show ?case using Suc.IH[OF r(1)] by simp
qed simp

lemma random_suffix_shape:
  "random_suffix src k = (s, k') \<Longrightarrow> length s = 4 \<and> list_all token_char s"
  using suffix_loop_shape[of src suffix_len "Suc k" "src k" s k'] alphabet_chars
  by (auto simp: random_suffix_def suffix_len_def list_all_iff token_char_def)

lemma token_chars: "random_suffix src k = (s, k') \<Longrightarrow> list_all token_char (show_nat n @ ''-'' @ s)"
  using random_suffix_shape[of src k s k'] show_nat_digits[of n]
  by (auto simp: list_all_iff token_char_def)

lemma token_char_lower: "token_char c \<Longrightarrow> ascii_lower c = c"
  by (auto simp: token_char_def ascii_lower_def is_ascii_uppercase_def is_ascii_digit_def
      is_ascii_lowercase_def)

lemma token_char_visible: "token_char c \<Longrightarrow> token_byte c"
  by (auto simp: token_char_def token_byte_def is_ascii_digit_def is_ascii_lowercase_def)

lemma trim_token: "list_all token_char s \<Longrightarrow> trim s = s"
  by (rule trim_visible) (auto simp: list_all_iff token_char_visible)

lemma normalize_token: "list_all token_char s \<Longrightarrow> normalize_order_token s = s"
proof -
  assume s: "list_all token_char s"
  then have "map ascii_lower s = s" by (induction s) (auto simp: token_char_lower)
  with trim_token[OF s] show ?thesis by (simp add: normalize_order_token_def to_ascii_lowercase_def)
qed

lemma parse_dash: "CHR ''-'' \<in> set s \<Longrightarrow> parse_u64 s = None"
proof -
  have "CHR ''-'' \<in> set d \<Longrightarrow> \<not> list_all is_ascii_digit d" for d
    by (auto simp: list_all_iff is_ascii_digit_def intro!: bexI[of _ "CHR ''-''"])
  then show "CHR ''-'' \<in> set s \<Longrightarrow> parse_u64 s = None"
    by (cases s) (auto simp: parse_u64_def Let_def is_ascii_digit_def)
qed

text \<open>A minted token, in terms of the attempts.\<close>

lemma mint_loop_Some:
  "mint_loop lg reserved seq src n k = (Some token, k') \<Longrightarrow>
     unclaimed lg reserved token \<and> list_all token_char token \<and> CHR ''-'' \<in> set token
     \<and> (\<exists>s. length s = 4 \<and> token = show_nat seq @ ''-'' @ s)"
proof (induction lg reserved seq src n k rule: mint_loop.induct)
  case (2 lg reserved seq src n k)
  obtain s k1 where s: "random_suffix src k = (s, k1)" by (cases "random_suffix src k")
  show ?case
  proof (cases "unclaimed lg reserved (show_nat seq @ ''-'' @ s)")
    case True
    with "2.prems" s have "token = show_nat seq @ ''-'' @ s" by simp
    with True token_chars[OF s, of seq] random_suffix_shape[OF s] show ?thesis by auto
  next
    case False
    with "2.prems" s have "mint_loop lg reserved seq src n k1 = (Some token, k')" by simp
    with "2.IH"[OF refl s[symmetric] refl False] show ?thesis by simp
  qed
qed simp

lemma mint_avoiding_Inr:
  assumes "mint_avoiding lg prefix reserved src k = (Inr token, k')"
  shows "unclaimed lg reserved token" "list_all token_char token" "CHR ''-'' \<in> set token"
    "\<exists>seq s. length s = 4 \<and> token = show_nat seq @ ''-'' @ s
       \<and> seq = (case prefix of Some p \<Rightarrow> p | None \<Rightarrow> next_prefix lg)"
  using assms mint_loop_Some[of lg reserved _ src 64 k token k']
  by (auto simp: mint_avoiding_def Let_def split: prod.splits option.splits)

text \<open>A ledger with one more packet, indexed.\<close>

definition add_packet :: "yaml \<Rightarrow> ledger \<Rightarrow> ledger" where
  "add_packet p lg = reindex (lg\<lparr>lg_packets := lg_packets lg @ [p]\<rparr>)"

lemma unresolved_no_claimant:
  assumes "indexed lg" and "unique_ids lg" and "unclaimed lg reserved t"
    and "normalize_order_token t = t" and "parse_u64 t = None"
  shows "claimants lg t = []" and "Some t \<notin> packet_id_of ` set (lg_packets lg)"
proof -
  from assms(3) have none: "resolve lg t = None" "ambiguous_claimants lg t = []"
    by (simp_all add: unclaimed_def)
  show notid: "Some t \<notin> packet_id_of ` set (lg_packets lg)"
  proof
    assume "Some t \<in> packet_id_of ` set (lg_packets lg)"
    then obtain p where "p \<in> set (lg_packets lg)" "packet_id_of p = Some t" by auto
    with resolve_unique_id[OF assms(1,2)] none(1) show False by simp
  qed
  show "claimants lg t = []"
  proof (rule ccontr)
    assume ne: "claimants lg t \<noteq> []"
    show False
    proof (cases "2 \<le> length (claimants lg t)")
      case True
      with claimants_active[of lg t] assms(4) none(2) ne show False by auto
    next
      case False
      with ne obtain i where i: "claimants lg t = [i]"
        by (cases "claimants lg t") (auto simp: Suc_le_eq)
      then obtain p where p: "p \<in> set (lg_packets lg)" "packet_id_of p = Some i"
        using claimants_mem[of i lg t] by auto
      from lookup_by_id[OF assms(1) p assms(2)] token_lookup[OF assms(1) notid assms(5)] i assms(4)
      have "\<exists>idx. lookup_index (lg_lookup lg) t = Some idx" by auto
      with none(1) show False by (auto simp: resolve_def)
    qed
  qed
qed

text \<open>A minted token addresses the packet it is given to: filing a packet with a new id under a
  freshly minted token makes the token, in any case or padding, resolve to exactly that packet.\<close>

theorem minted_token_addresses:
  assumes "indexed lg" and "unique_ids lg"
    and "mint_avoiding lg prefix reserved src k = (Inr token, k')"
    and "packet_id_of p = Some i" and "Some i \<notin> packet_id_of ` set (lg_packets lg)"
    and "yget p ''order'' = Some (YString token)" and "normalize_order_token r = token"
    and "Some r \<notin> packet_id_of ` set (lg_packets (add_packet p lg))" and "parse_u64 r = None"
  shows "resolve (add_packet p lg) r = Some p"
proof -
  let ?lg = "add_packet p lg"
  note m = mint_avoiding_Inr[OF assms(3)]
  have tok: "normalize_order_token token = token" "parse_u64 token = None"
    using normalize_token[OF m(2)] parse_dash[OF m(3)] by simp_all
  have pk: "lg_packets ?lg = lg_packets lg @ [p]" by (simp add: add_packet_def reindex_def)
  have ind: "indexed ?lg" by (simp add: add_packet_def indexed_reindex)
  have uniq: "unique_ids ?lg"
    using assms(2,4,5) by (force simp: unique_ids_def pk List.map_filter_def)
  have "claims_on packet_token (ps @ [p]) = claims_on packet_token ps @ [(token, i)]" for ps
    using assms(4,6) tok(1)
    by (induction ps) (auto simp: claims_on_def List.map_filter_simps packet_token_def split: option.splits)
  with unresolved_no_claimant(1)[OF assms(1,2) m(1) tok] have "claimants ?lg token = [i]"
    by (simp add: claimants_def pk)
  with token_lookup[OF ind assms(8,9)] assms(7)
  have look: "lookup_index (lg_lookup ?lg) r = map_of (lk_by_id (lg_lookup ?lg)) i" by simp
  from lookup_by_id[OF ind _ assms(4) uniq] pk obtain idx where
    "map_of (lk_by_id (lg_lookup ?lg)) i = Some idx" "lg_packets ?lg ! idx = p" by auto
  with look show ?thesis by (simp add: resolve_def)
qed

text \<open>A batch of minted tokens has the requested length, no token twice, and none that the ledger
  already knows.\<close>

theorem mint_batch_distinct:
  assumes "mint_batch lg prefix count src k = (Inr tokens, k')"
  shows "length tokens = count \<and> distinct tokens
    \<and> (\<forall>t \<in> set tokens. resolve lg t = None \<and> ambiguous_claimants lg t = [])"
proof -
  have "mint_batch_loop lg prefix src n issued out k = (Inr tokens, k') \<Longrightarrow>
      distinct out \<Longrightarrow> set out = issued \<Longrightarrow>
      \<exists>new. tokens = out @ new \<and> length new = n \<and> distinct tokens
        \<and> (\<forall>t \<in> set new. resolve lg t = None \<and> ambiguous_claimants lg t = [])"
    for n issued out k
  proof (induction n arbitrary: issued out k)
    case (Suc n)
    from Suc.prems(1) obtain t k1 where t: "mint_avoiding lg prefix issued src k = (Inr t, k1)"
      "mint_batch_loop lg prefix src n (insert t issued) (out @ [t]) k1 = (Inr tokens, k')"
      by (auto split: prod.splits sum.splits)
    from mint_avoiding_Inr(1)[OF t(1)] have u: "t \<notin> issued" "resolve lg t = None"
      "ambiguous_claimants lg t = []" by (simp_all add: unclaimed_def)
    with Suc.prems(2,3) have "distinct (out @ [t])" "set (out @ [t]) = insert t issued" by auto
    from Suc.IH[OF t(2) this] obtain new where "tokens = (out @ [t]) @ new" "length new = n"
      "distinct tokens" "\<forall>t \<in> set new. resolve lg t = None \<and> ambiguous_claimants lg t = []" by blast
    with u show ?case by (intro exI[of _ "t # new"]) auto
  qed auto
  from this[of count "{}" "[]" k] assms show ?thesis by (auto simp: mint_batch_def)
qed

text \<open>The candidate suffixes of \<open>n\<close> attempts.\<close>

fun draws :: "(nat \<Rightarrow> nat) \<Rightarrow> nat \<Rightarrow> nat \<Rightarrow> string list" where
  "draws src 0 k = []"
| "draws src (Suc n) k = (let (s, k') = random_suffix src k in s # draws src n k')"

lemma mint_loop_None:
  "fst (mint_loop lg reserved seq src n k) = None \<longleftrightarrow>
     (\<forall>s \<in> set (draws src n k). \<not> unclaimed lg reserved (show_nat seq @ ''-'' @ s))"
  by (induction n arbitrary: k) (auto simp: Let_def split: prod.splits)

lemma length_draws: "length (draws src n k) = n"
  by (induction n arbitrary: k) (auto split: prod.splits)

text \<open>Minting fails exactly when all 64 candidates it draws are taken; one free candidate is
  enough for it to succeed.\<close>

theorem mint_fails_iff_exhausted:
  "(\<exists>e. fst (mint_avoiding lg prefix reserved src k) = Inl e) \<longleftrightarrow>
     \<not> list_ex (\<lambda>s. unclaimed lg reserved
        (show_nat (case prefix of Some p \<Rightarrow> p | None \<Rightarrow> next_prefix lg) @ ''-'' @ s)) (draws src 64 k)"
proof -
  have "\<not> list_ex (\<lambda>s. unclaimed lg reserved (show_nat n @ ''-'' @ s)) (draws src 64 k) \<longleftrightarrow>
      fst (mint_loop lg reserved n src 64 k) = None" for n
    unfolding mint_loop_None by (auto simp: list_ex_iff)
  then show ?thesis by (auto simp: mint_avoiding_def Let_def split: prod.splits option.splits)
qed

lemma foldl_max_ge: "(a::nat) \<le> foldl max a xs"
proof (induction xs arbitrary: a)
  case (Cons x xs)
  from Cons[of "max a x"] show ?case by simp
qed simp

lemma foldl_max_mem: "(n::nat) \<in> set xs \<Longrightarrow> n \<le> foldl max a xs"
proof (induction xs arbitrary: a)
  case (Cons x xs)
  show ?case
  proof (cases "n = x")
    case True
    with foldl_max_ge[of "max a x" xs] show ?thesis by simp
  next
    case False
    with Cons show ?thesis by simp
  qed
qed simp

text \<open>A default token sorts after every order already filed: its sequence number is above every
  integer prefix in the ledger, as long as that is below the top of the 64-bit range.\<close>

theorem next_prefix_above_all:
  assumes "highest_prefix lg < 2 ^ 64 - 1"
    and "p \<in> set (lg_packets lg)" and "packet_token p = Some t" and "token_prefix t = Some n"
  shows "n < next_prefix lg"
proof -
  have "n \<in> set (List.map_filter token_prefix (List.map_filter packet_token (lg_packets lg)))"
    using assms(2-4) by (force simp: set_map_filter)
  then have "n \<le> highest_prefix lg" unfolding highest_prefix_def by (rule foldl_max_mem)
  with assms(1) show ?thesis by (simp add: next_prefix_def)
qed

subsection \<open>Concrete ledgers\<close>

definition two_orders :: ledger where
  "two_orders = order_ledger [(''a'', YString ''575-k3f9''), (''b'', YString ''392b'')]"

definition minted_packet :: yaml where
  "minted_packet = YMapping [(YString ''packet_id'', YString ''new''), (YString ''order'', YString ''576-aaaa'')]"

theorem minted_token_addresses_witness:
  "resolve (add_packet minted_packet two_orders) '' 576-AAAA'' = Some minted_packet"
proof (rule minted_token_addresses)
  show "indexed two_orders" unfolding two_orders_def by (rule indexed_order_ledger)
  show "mint_avoiding two_orders (Some 576) {} (\<lambda>_. 0) 0 = (Inr ''576-aaaa'', 5)" by code_simp
  show "unique_ids two_orders" "packet_id_of minted_packet = Some ''new''"
    "Some ''new'' \<notin> packet_id_of ` set (lg_packets two_orders)"
    "yget minted_packet ''order'' = Some (YString ''576-aaaa'')"
    "normalize_order_token '' 576-AAAA'' = ''576-aaaa''"
    "Some '' 576-AAAA'' \<notin> packet_id_of ` set (lg_packets (add_packet minted_packet two_orders))"
    "parse_u64 '' 576-AAAA'' = None"
    by code_simp+
qed

theorem mint_batch_distinct_witness:
  "length [''7-aaaa'', ''7-abbb''] = 2 \<and> distinct [''7-aaaa'', ''7-abbb'']"
proof -
  have "mint_batch two_orders (Some 7) 2 (\<lambda>k. if k < 6 then 0 else 1) 0 = (Inr [''7-aaaa'', ''7-abbb''], 10)"
    by code_simp
  from mint_batch_distinct[OF this] show ?thesis by simp
qed

theorem next_prefix_above_all_witness: "575 < next_prefix two_orders"
proof (rule next_prefix_above_all)
  have tok: "List.map_filter packet_token (lg_packets two_orders) = [''575-k3f9'', ''392b'']" by code_simp
  have pre: "token_prefix ''575-k3f9'' = Some 575" "token_prefix ''392b'' = Some 392"
    by (simp_all add: token_prefix_def string_eval)
  then show "highest_prefix two_orders < 2 ^ 64 - 1"
    by (simp add: highest_prefix_def tok List.map_filter_simps)
  show "hd (lg_packets two_orders) \<in> set (lg_packets two_orders)"
    "packet_token (hd (lg_packets two_orders)) = Some ''575-k3f9''"
    by code_simp+
  show "token_prefix ''575-k3f9'' = Some 575" by (rule pre)
qed

end
