(* ===== verification/Obligation.thy ===== *)
theory Obligation
  imports Base
begin

text \<open>
  The obligation lattice of \<open>crates/tillandsias-plan/src/obligation.rs\<close>: the seven-state chain,
  the componentwise comparison of spec and project states with tombstones, and the refinement
  operator with its bounded iteration. The rule set of \<open>obligation_props.rs\<close> is modelled too.
\<close>

subsection \<open>The chain\<close>

datatype obligation_state =
  Absent | Declared | Traced | PositivelyTested | NegativelyTested | RuntimeObserved
  | EvidenceBundled

text \<open>The derived \<open>Ord\<close>: declaration position.\<close>

primrec obligation_rank :: "obligation_state \<Rightarrow> nat" where
  "obligation_rank Absent = 0"
| "obligation_rank Declared = 1"
| "obligation_rank Traced = 2"
| "obligation_rank PositivelyTested = 3"
| "obligation_rank NegativelyTested = 4"
| "obligation_rank RuntimeObserved = 5"
| "obligation_rank EvidenceBundled = 6"

lemma obligation_rank_inj: "obligation_rank a = obligation_rank b \<Longrightarrow> a = b"
  by (cases a; cases b; simp)


instantiation obligation_state :: linorder
begin

definition less_eq_obligation_state :: "obligation_state \<Rightarrow> obligation_state \<Rightarrow> bool" where
  "less_eq_obligation_state a b \<longleftrightarrow> obligation_rank a \<le> obligation_rank b"

definition less_obligation_state :: "obligation_state \<Rightarrow> obligation_state \<Rightarrow> bool" where
  "less_obligation_state a b \<longleftrightarrow> obligation_rank a < obligation_rank b"

instance
  by standard
    (auto simp: less_eq_obligation_state_def less_obligation_state_def dest: obligation_rank_inj)

end

lemmas obligation_order = less_eq_obligation_state_def less_obligation_state_def

lemma Absent_least [simp]: "Absent \<le> s"
  by (simp add: less_eq_obligation_state_def)

definition all_states :: "obligation_state list" where
  "all_states = [Absent, Declared, Traced, PositivelyTested, NegativelyTested, RuntimeObserved,
     EvidenceBundled]"

fun state_as_str :: "obligation_state \<Rightarrow> string" where
  "state_as_str Absent = ''absent''"
| "state_as_str Declared = ''declared''"
| "state_as_str Traced = ''traced''"
| "state_as_str PositivelyTested = ''positively_tested''"
| "state_as_str NegativelyTested = ''negatively_tested''"
| "state_as_str RuntimeObserved = ''runtime_observed''"
| "state_as_str EvidenceBundled = ''evidence_bundled''"

definition state_from_str_exact :: "string \<Rightarrow> obligation_state option" where
  "state_from_str_exact s = find (\<lambda>v. state_as_str v = s) all_states"

definition state_bottom :: obligation_state where
  "state_bottom = Absent"

subsection \<open>Spec states\<close>

record spec_state =
  obligations :: "(string, obligation_state) btmap"
  tombstoned :: "string set"

definition spec_new :: spec_state where
  "spec_new = \<lparr>obligations = [], tombstoned = {}\<rparr>"

definition spec_set :: "string \<Rightarrow> obligation_state \<Rightarrow> spec_state \<Rightarrow> spec_state" where
  "spec_set i st s = s\<lparr>obligations := bt_insert i st (obligations s)\<rparr>"

definition spec_with :: "spec_state \<Rightarrow> string \<Rightarrow> obligation_state \<Rightarrow> spec_state" where
  "spec_with s i st = s\<lparr>obligations := bt_insert i st (obligations s)\<rparr>"

definition spec_get :: "spec_state \<Rightarrow> string \<Rightarrow> obligation_state" where
  "spec_get s i = (case map_of (obligations s) i of None \<Rightarrow> state_bottom | Some st \<Rightarrow> st)"

definition spec_ids :: "spec_state \<Rightarrow> string list" where
  "spec_ids s = map fst (obligations s)"

definition spec_is_empty :: "spec_state \<Rightarrow> bool" where
  "spec_is_empty s \<longleftrightarrow> obligations s = []"

definition spec_tombstone :: "string \<Rightarrow> spec_state \<Rightarrow> spec_state" where
  "spec_tombstone i s = s\<lparr>tombstoned := insert i (tombstoned s)\<rparr>"

definition spec_is_tombstoned :: "spec_state \<Rightarrow> string \<Rightarrow> bool" where
  "spec_is_tombstoned s i \<longleftrightarrow> i \<in> tombstoned s"

definition aligned_ids :: "spec_state \<Rightarrow> spec_state \<Rightarrow> string list" where
  "aligned_ids s t =
     bt_set (filter (\<lambda>i. i \<notin> tombstoned s \<and> i \<notin> tombstoned t) (spec_ids s @ spec_ids t))"

text \<open>
  The loop of both \<open>partial_cmp\<close> functions: fold the components' orderings, with the early return
  as soon as both directions, or an incomparable component, were seen.
\<close>

fun product_cmp :: "ordering option list \<Rightarrow> bool \<Rightarrow> bool \<Rightarrow> ordering option" where
  "product_cmp [] saw_less saw_greater =
     (if \<not> saw_less \<and> \<not> saw_greater then Some Equal
      else if \<not> saw_greater then Some Less
      else Some Greater)"
| "product_cmp (c # cs) saw_less saw_greater =
     (case c of
        None \<Rightarrow> None
      | Some c' \<Rightarrow>
          (let l = (saw_less \<or> c' = Less); g = (saw_greater \<or> c' = Greater)
           in if l \<and> g then None else product_cmp cs l g))"

definition spec_partial_cmp :: "spec_state \<Rightarrow> spec_state \<Rightarrow> ordering option" where
  "spec_partial_cmp s t =
     product_cmp (map (\<lambda>i. Some (cmp (spec_get s i) (spec_get t i))) (aligned_ids s t)) False False"

text \<open>\<open>s <= t\<close> as Rust derives it from \<open>partial_cmp\<close>.\<close>

definition spec_le :: "spec_state \<Rightarrow> spec_state \<Rightarrow> bool" where
  "spec_le s t \<longleftrightarrow> spec_partial_cmp s t \<in> {Some Less, Some Equal}"

subsection \<open>Project states\<close>

record project_state =
  specs :: "(string, spec_state) btmap"

definition project_new :: project_state where
  "project_new = \<lparr>specs = []\<rparr>"

definition project_with :: "project_state \<Rightarrow> string \<Rightarrow> spec_state \<Rightarrow> project_state" where
  "project_with p i s = p\<lparr>specs := bt_insert i s (specs p)\<rparr>"

definition project_get :: "project_state \<Rightarrow> string \<Rightarrow> spec_state" where
  "project_get p i = (case map_of (specs p) i of None \<Rightarrow> spec_new | Some s \<Rightarrow> s)"

definition project_spec_ids :: "project_state \<Rightarrow> string list" where
  "project_spec_ids p = map fst (specs p)"

definition project_partial_cmp :: "project_state \<Rightarrow> project_state \<Rightarrow> ordering option" where
  "project_partial_cmp p q =
     product_cmp
       (map (\<lambda>i. spec_partial_cmp (project_get p i) (project_get q i))
         (bt_set (project_spec_ids p @ project_spec_ids q)))
       False False"

subsection \<open>Refinement\<close>

record rule =
  rule_id :: string
  rule_to :: obligation_state
  rule_applies :: "spec_state \<Rightarrow> bool"

definition rule_new :: "string \<Rightarrow> obligation_state \<Rightarrow> (spec_state \<Rightarrow> bool) \<Rightarrow> rule" where
  "rule_new i t p = \<lparr>rule_id = i, rule_to = t, rule_applies = p\<rparr>"

definition rule_always :: "string \<Rightarrow> obligation_state \<Rightarrow> rule" where
  "rule_always i t = rule_new i t (\<lambda>_. True)"

datatype refine_outcome = Fixed nat | Unstable nat

definition apply_rule :: "spec_state \<Rightarrow> spec_state \<Rightarrow> rule \<Rightarrow> spec_state" where
  "apply_rule s acc r =
     (if rule_applies r s \<and> spec_get acc (rule_id r) < rule_to r
      then spec_set (rule_id r) (rule_to r) acc else acc)"

definition refiner_step :: "rule list \<Rightarrow> spec_state \<Rightarrow> spec_state" where
  "refiner_step rules s = foldl (apply_rule s) s rules"

definition refine_bound :: nat where
  "refine_bound = 64"

text \<open>\<open>refine_loop rules n k s\<close>: the \<open>for\<close> loop with \<open>n\<close> turns left, at turn number \<open>k\<close>.\<close>

fun refine_loop :: "rule list \<Rightarrow> nat \<Rightarrow> nat \<Rightarrow> spec_state \<Rightarrow> spec_state \<times> refine_outcome" where
  "refine_loop rules 0 k s = (s, Unstable refine_bound)"
| "refine_loop rules (Suc n) k s =
     (let t = refiner_step rules s
      in if t = s then (s, Fixed k) else refine_loop rules n (Suc k) t)"

definition refine :: "rule list \<Rightarrow> spec_state \<Rightarrow> spec_state \<times> refine_outcome" where
  "refine rules s = refine_loop rules refine_bound 0 s"

definition monotone_rules :: "rule list" where
  "monotone_rules =
     [rule_always ''req-a'' Declared,
      rule_new ''req-b'' Traced (\<lambda>s. Declared \<le> spec_get s ''req-a''),
      rule_new ''req-c'' PositivelyTested (\<lambda>s. Traced \<le> spec_get s ''req-b'')]"


subsection \<open>Lemmas: the chain and the maps\<close>

lemma state_round_trip: "state_from_str_exact (state_as_str v) = Some v"
  by (cases v) (simp_all add: state_from_str_exact_def all_states_def)

lemma spec_get_set: "spec_get (spec_set i st s) j = (if j = i then st else spec_get s j)"
  by (simp add: spec_get_def spec_set_def)

lemma tombstoned_set [simp]: "tombstoned (spec_set i st s) = tombstoned s"
  by (simp add: spec_set_def)

lemma ids_set [simp]: "set (spec_ids (spec_set i st s)) = insert i (set (spec_ids s))"
  by (simp add: spec_ids_def spec_set_def)

lemma spec_get_no_id: "i \<notin> set (spec_ids s) \<Longrightarrow> spec_get s i = Absent"
  by (simp add: spec_get_def spec_ids_def state_bottom_def map_of_eq_None_iff[THEN iffD2])

lemma spec_get_less_id: "x < spec_get t i \<Longrightarrow> i \<in> set (spec_ids t)"
  by (rule ccontr) (simp add: spec_get_no_id less_obligation_state_def)

lemma set_aligned_ids [simp]:
  "set (aligned_ids s t) =
     (set (spec_ids s) \<union> set (spec_ids t)) - (tombstoned s \<union> tombstoned t)"
  by (auto simp: aligned_ids_def)

subsection \<open>Lemmas: the product comparison\<close>

lemma product_cmp_char:
  assumes "\<not> (l \<and> g)"
  shows "product_cmp cs l g =
     (let l' = (l \<or> Some Less \<in> set cs); g' = (g \<or> Some Greater \<in> set cs)
      in if None \<in> set cs \<or> l' \<and> g' then None
         else if l' then Some Less else if g' then Some Greater else Some Equal)"
  using assms
proof (induction cs arbitrary: l g)
  case Nil
  then show ?case by simp
next
  case (Cons c cs)
  show ?case
  proof (cases c)
    case None
    then show ?thesis by simp
  next
    case (Some c')
    show ?thesis
    proof (cases "(l \<or> c' = Less) \<and> (g \<or> c' = Greater)")
      case True
      with Some show ?thesis by (auto simp: Let_def)
    next
      case False
      from Cons.IH[OF False] False Some show ?thesis
        by (cases c') (auto simp: Let_def)
    qed
  qed
qed

lemma reverse_option_iff:
  "map_option ordering_reverse c = Some Less \<longleftrightarrow> c = Some Greater"
  "map_option ordering_reverse c = Some Greater \<longleftrightarrow> c = Some Less"
  "map_option ordering_reverse c = None \<longleftrightarrow> c = None"
  by (auto elim: ordering_reverse.elims)

lemma reverse_option_in_map:
  "Some Less \<in> set (map (map_option ordering_reverse) cs) \<longleftrightarrow> Some Greater \<in> set cs"
  "Some Greater \<in> set (map (map_option ordering_reverse) cs) \<longleftrightarrow> Some Less \<in> set cs"
  "None \<in> set (map (map_option ordering_reverse) cs) \<longleftrightarrow> None \<in> set cs"
  by (metis (mono_tags, lifting) image_iff list.set_map reverse_option_iff(1))
    (metis (mono_tags, lifting) image_iff list.set_map reverse_option_iff(2),
     metis (mono_tags, lifting) image_iff list.set_map reverse_option_iff(3))

lemma product_cmp_reverse:
  "product_cmp (map (map_option ordering_reverse) cs) False False
     = map_option ordering_reverse (product_cmp cs False False)"
  by (simp add: product_cmp_char reverse_option_in_map Let_def del: set_map)

lemma spec_cmp_iff:
  "spec_partial_cmp s t =
     (let l = (\<exists>i \<in> set (aligned_ids s t). spec_get s i < spec_get t i);
          g = (\<exists>i \<in> set (aligned_ids s t). spec_get t i < spec_get s i)
      in if l \<and> g then None else if l then Some Less else if g then Some Greater else Some Equal)"
  unfolding spec_partial_cmp_def
  by (simp add: product_cmp_char image_iff Let_def del: set_aligned_ids)

lemma aligned_ids_commute: "aligned_ids s t = aligned_ids t s"
  by (auto simp: aligned_ids_def bt_set_def intro!: sorted_distinct_set_unique)

text \<open>Outside the aligned ids the components agree, so the comparison is over every id that
  neither side has tombstoned.\<close>

lemma spec_le_iff:
  "spec_le s t \<longleftrightarrow>
     (\<forall>i. i \<notin> tombstoned s \<longrightarrow> i \<notin> tombstoned t \<longrightarrow> spec_get s i \<le> spec_get t i)"
proof -
  have "spec_le s t \<longleftrightarrow> \<not> (\<exists>i \<in> set (aligned_ids s t). spec_get t i < spec_get s i)"
    by (simp add: spec_le_def spec_cmp_iff Let_def del: set_aligned_ids)
  also have "\<dots> \<longleftrightarrow> (\<forall>i \<in> set (aligned_ids s t). spec_get s i \<le> spec_get t i)"
    by (simp add: not_less del: set_aligned_ids)
  also have "\<dots> \<longleftrightarrow>
     (\<forall>i. i \<notin> tombstoned s \<longrightarrow> i \<notin> tombstoned t \<longrightarrow> spec_get s i \<le> spec_get t i)"
    using spec_get_less_id[of "spec_get t _" s] by (auto simp: not_less[symmetric])
  finally show ?thesis .
qed

subsection \<open>Lemmas: one refinement step\<close>

text \<open>The pointwise order, on every id.\<close>

definition spec_below :: "spec_state \<Rightarrow> spec_state \<Rightarrow> bool" where
  "spec_below s t \<longleftrightarrow> (\<forall>i. spec_get s i \<le> spec_get t i)"

lemma spec_below_refl [simp]: "spec_below s s"
  by (simp add: spec_below_def)

lemma spec_below_trans: "spec_below s t \<Longrightarrow> spec_below t u \<Longrightarrow> spec_below s u"
  unfolding spec_below_def by (meson order_trans)

lemma spec_below_le: "spec_below s t \<Longrightarrow> spec_le s t"
  by (simp add: spec_below_def spec_le_iff)

lemma apply_rule_below: "spec_below acc (apply_rule s acc r)"
  by (auto simp: apply_rule_def spec_below_def spec_get_set)

lemma apply_rules_below: "spec_below acc (foldl (apply_rule s) acc rs)"
  by (induction rs arbitrary: acc) (auto intro: spec_below_trans apply_rule_below)

lemma step_below: "spec_below s (refiner_step rules s)"
  by (simp add: refiner_step_def apply_rules_below)

lemma apply_rules_tombstoned: "tombstoned (foldl (apply_rule s) acc rs) = tombstoned acc"
  by (induction rs arbitrary: acc) (auto simp: apply_rule_def)

lemma step_tombstoned [simp]: "tombstoned (refiner_step rules s) = tombstoned s"
  by (simp add: refiner_step_def apply_rules_tombstoned)

lemma apply_rules_reach:
  "r \<in> set rs \<Longrightarrow> rule_applies r s \<Longrightarrow> rule_to r \<le> spec_get (foldl (apply_rule s) acc rs) (rule_id r)"
proof (induction rs arbitrary: acc)
  case Nil
  then show ?case by simp
next
  case (Cons q rs)
  show ?case
  proof (cases "r = q")
    case True
    with Cons.prems have "rule_to r \<le> spec_get (apply_rule s acc q) (rule_id r)"
      by (auto simp: apply_rule_def spec_get_set)
    also have "\<dots> \<le> spec_get (foldl (apply_rule s) (apply_rule s acc q) rs) (rule_id r)"
      using apply_rules_below by (auto simp: spec_below_def)
    finally show ?thesis by simp
  next
    case False
    with Cons show ?thesis by simp
  qed
qed

lemma apply_rules_upper:
  assumes "\<forall>r \<in> set rs. rule_applies r s \<longrightarrow> rule_to r \<le> spec_get t (rule_id r)"
    and "spec_below acc t"
  shows "spec_below (foldl (apply_rule s) acc rs) t"
  using assms
proof (induction rs arbitrary: acc)
  case Nil
  then show ?case by simp
next
  case (Cons r rs)
  then have "spec_below (apply_rule s acc r) t"
    by (auto simp: apply_rule_def spec_below_def spec_get_set)
  with Cons show ?case by simp
qed

lemma fixed_point_rules:
  assumes "refiner_step rules t = t" and "r \<in> set rules" and "rule_applies r t"
  shows "rule_to r \<le> spec_get t (rule_id r)"
  using apply_rules_reach[OF assms(2,3), of t] assms(1) by (simp add: refiner_step_def)

subsection \<open>Lemmas: the bounded iteration\<close>







lemma refine_loop_fixed:
  assumes "refine_loop rules n k s = (t, Fixed m)"
  shows "\<exists>j < n. m = k + j \<and> t = (refiner_step rules ^^ j) s \<and> refiner_step rules t = t"
  using assms
proof (induction rules n k s rule: refine_loop.induct)
  case (1 rules k s)
  then show ?case by simp
next
  case (2 rules n k s)
  show ?case
  proof (cases "refiner_step rules s = s")
    case True
    with "2.prems" show ?thesis by (auto simp: Let_def)
  next
    case False
    with "2.prems" have "refine_loop rules n (Suc k) (refiner_step rules s) = (t, Fixed m)"
      by (simp add: Let_def)
    from "2.IH"[OF refl False this] obtain j where "j < n" and "m = Suc k + j"
      and "t = (refiner_step rules ^^ j) (refiner_step rules s)" and "refiner_step rules t = t"
      by blast
    then show ?thesis
      by (intro exI[of _ "Suc j"]) (simp del: funpow.simps add: funpow_Suc_right)
  qed
qed

lemma refine_loop_unstable:
  "(\<forall>j < n. refiner_step rules ((refiner_step rules ^^ j) s) \<noteq> (refiner_step rules ^^ j) s)
    \<Longrightarrow> refine_loop rules n k s = ((refiner_step rules ^^ n) s, Unstable refine_bound)"
proof (induction rules n k s rule: refine_loop.induct)
  case (1 rules k s)
  then show ?case by simp
next
  case (2 rules n k s)
  have ne: "refiner_step rules s \<noteq> s" using "2.prems" by (metis funpow_0 zero_less_Suc)
  have "\<forall>j < n. refiner_step rules ((refiner_step rules ^^ j) (refiner_step rules s))
      \<noteq> (refiner_step rules ^^ j) (refiner_step rules s)"
    using "2.prems" by (metis Suc_less_eq funpow_Suc_right comp_apply)
  from "2.IH"[OF refl ne this] ne show ?case
    by (simp del: funpow.simps add: funpow_Suc_right Let_def)
qed


lemma iterate_below: "spec_below s ((refiner_step rules ^^ n) s)"
  by (induction n) (auto intro: spec_below_trans step_below)

subsection \<open>Properties\<close>

text \<open>
  The comparison of two spec states is componentwise: it is \<open>None\<close> exactly when each side
  is stronger somewhere, \<open>Less\<close> or \<open>Greater\<close> when only one is, \<open>Equal\<close> when none is, over
  exactly the obligation ids that neither side has tombstoned; an id nobody recorded counts as
  \<open>Absent\<close>.
\<close>

theorem spec_partial_cmp_componentwise:
  "spec_partial_cmp s t =
     (let live = (\<lambda>i. i \<notin> tombstoned s \<and> i \<notin> tombstoned t);
          below = (\<exists>i. live i \<and> spec_get s i < spec_get t i);
          above = (\<exists>i. live i \<and> spec_get t i < spec_get s i)
      in if below \<and> above then None else if below then Some Less
         else if above then Some Greater else Some Equal)"
proof -
  have l: "(\<exists>i \<in> set (aligned_ids s t). spec_get s i < spec_get t i)
      \<longleftrightarrow> (\<exists>i. (i \<notin> tombstoned s \<and> i \<notin> tombstoned t) \<and> spec_get s i < spec_get t i)"
    using spec_get_less_id[of "spec_get s _" t] by auto
  have g: "(\<exists>i \<in> set (aligned_ids s t). spec_get t i < spec_get s i)
      \<longleftrightarrow> (\<exists>i. (i \<notin> tombstoned s \<and> i \<notin> tombstoned t) \<and> spec_get t i < spec_get s i)"
    using spec_get_less_id[of "spec_get t _" s] by auto
  show ?thesis
    unfolding spec_cmp_iff l g Let_def by (rule refl)
qed

text \<open>
  Comparing in the other direction gives the reversed answer, for spec states and for whole
  projects: \<open>Less\<close> and \<open>Greater\<close> swap, \<open>Equal\<close> and "incomparable" stay.
\<close>

theorem project_partial_cmp_dual:
  "project_partial_cmp q p = map_option ordering_reverse (project_partial_cmp p q)
    \<and> spec_partial_cmp t s = map_option ordering_reverse (spec_partial_cmp s t)"
proof -
  have spec: "spec_partial_cmp b a = map_option ordering_reverse (spec_partial_cmp a b)" for a b
  proof -
    have "spec_partial_cmp b a
        = product_cmp (map (\<lambda>i. Some (cmp (spec_get b i) (spec_get a i))) (aligned_ids a b)) False False"
      by (simp only: spec_partial_cmp_def aligned_ids_commute[of b a])
    also have "\<dots> = map_option ordering_reverse (spec_partial_cmp a b)"
      unfolding spec_partial_cmp_def product_cmp_reverse[symmetric] map_map comp_def option.map
        cmp_reverse by (rule refl)
    finally show ?thesis .
  qed
  have ids: "bt_set (project_spec_ids q @ project_spec_ids p)
      = bt_set (project_spec_ids p @ project_spec_ids q)"
    by (auto simp: bt_set_def intro!: sorted_distinct_set_unique)
  show ?thesis
    unfolding project_partial_cmp_def ids product_cmp_reverse[symmetric]
    by (simp only: map_map comp_def spec[symmetric] simp_thms)
qed

text \<open>
  \<open><=\<close> on spec states is transitive as long as the state in the middle tombstones no id that
  both outer states still carry; in particular it is transitive on states without tombstones.
\<close>

theorem spec_le_trans:
  assumes "spec_le s t" and "spec_le t u" and "tombstoned t \<subseteq> tombstoned s \<union> tombstoned u"
  shows "spec_le s u"
  using assms unfolding spec_le_iff by (meson UnE order_trans subsetD)

definition sample_spec :: "obligation_state \<Rightarrow> spec_state" where
  "sample_spec st = spec_with (spec_with spec_new ''req-a'' st) ''req-b'' Declared"

lemmas spec_eval = sample_spec_def spec_with_def spec_new_def spec_get_def state_bottom_def
  spec_tombstone_def obligation_order spec_ids_def

theorem spec_le_trans_witness:
  "spec_le (sample_spec Absent) (sample_spec Declared)
    \<and> spec_le (sample_spec Declared) (sample_spec Traced)
    \<and> spec_le (sample_spec Absent) (sample_spec Traced)"
proof -
  have a: "spec_le (sample_spec Absent) (sample_spec Declared)"
    and b: "spec_le (sample_spec Declared) (sample_spec Traced)"
    by (simp_all add: spec_le_iff spec_eval)
  show ?thesis using a b spec_le_trans[OF a b] by (simp add: spec_eval)
qed

text \<open>
  In general the comparison is not a partial order, although the code calls it one: a middle
  state that tombstones an id hides a drop of that id, so \<open><=\<close> is not transitive; and two states
  can compare \<open>Equal\<close> while \<open>==\<close> tells them apart, because an explicit \<open>Absent\<close> is a different map
  than a missing entry.
\<close>

theorem spec_partial_cmp_not_an_order:
  "(\<exists>s t u. spec_le s t \<and> spec_le t u \<and> spec_partial_cmp s u = Some Greater)
    \<and> (\<exists>s t. spec_partial_cmp s t = Some Equal \<and> s \<noteq> t)"
proof
  define s where "s = spec_with spec_new ''req-a'' Traced"
  define t where "t = spec_tombstone ''req-a'' spec_new"
  define u where "u = spec_with spec_new ''req-a'' Absent"
  have "spec_le s t" and "spec_le t u"
    by (simp_all add: spec_le_iff s_def t_def u_def spec_eval)
  moreover have "spec_partial_cmp s u = Some Greater"
    by (simp add: spec_partial_cmp_def aligned_ids_def bt_set_def s_def u_def spec_eval cmp_def)
  ultimately show "\<exists>s t u. spec_le s t \<and> spec_le t u \<and> spec_partial_cmp s u = Some Greater"
    by blast
  have "spec_partial_cmp u spec_new = Some Equal"
    by (simp add: spec_partial_cmp_def aligned_ids_def bt_set_def u_def spec_eval cmp_def)
  moreover have "u \<noteq> spec_new" by (simp add: u_def spec_eval)
  ultimately show "\<exists>s t. spec_partial_cmp s t = Some Equal \<and> s \<noteq> t" by blast
qed

text \<open>
  What \<open>refine\<close> returns as fixed is a fixed point of \<open>step\<close>, reached in fewer than 64 turns,
  it is not below the start state in any obligation, tombstones are kept, and a further
  \<open>refine\<close> leaves it alone in zero turns.
\<close>

theorem refine_fixed_sound:
  assumes "refine rules s = (t, Fixed m)"
  shows "refiner_step rules t = t \<and> m < 64 \<and> t = (refiner_step rules ^^ m) s
    \<and> (\<forall>i. spec_get s i \<le> spec_get t i) \<and> tombstoned t = tombstoned s
    \<and> refine rules t = (t, Fixed 0)"
proof -
  from refine_loop_fixed[OF assms[unfolded refine_def]]
  have t: "t = (refiner_step rules ^^ m) s" "m < 64" "refiner_step rules t = t"
    by (auto simp: refine_bound_def)
  have "tombstoned ((refiner_step rules ^^ m) s) = tombstoned s" by (induction m) auto
  moreover have "refine rules t = (t, Fixed 0)"
    using t(3) by (simp add: refine_def refine_bound_def numeral_eq_Suc)
  ultimately show ?thesis using t iterate_below[where s = s and rules = rules and n = m]
    by (simp add: spec_below_def)
qed

theorem refine_fixed_sound_witness:
  "fst (refine monotone_rules spec_new)
     = \<lparr>obligations = [(''req-a'', Declared), (''req-b'', Traced), (''req-c'', PositivelyTested)],
        tombstoned = {}\<rparr>
    \<and> refiner_step monotone_rules (fst (refine monotone_rules spec_new))
        = fst (refine monotone_rules spec_new)"
proof -
  have run: "refine monotone_rules spec_new
      = (\<lparr>obligations = [(''req-a'', Declared), (''req-b'', Traced), (''req-c'', PositivelyTested)],
          tombstoned = {}\<rparr>, Fixed 3)"
    by code_simp
  show ?thesis using refine_fixed_sound[OF run, THEN conjunct1] by (simp only: run fst_conv)
qed



definition rule_upward :: "rule \<Rightarrow> bool" where
  "rule_upward r \<longleftrightarrow> (\<forall>s t. spec_below s t \<longrightarrow> rule_applies r s \<longrightarrow> rule_applies r t)"

lemma step_mono_fixed:
  assumes "\<forall>r \<in> set rules. rule_upward r" and "refiner_step rules t = t" and "spec_below s t"
  shows "spec_below (refiner_step rules s) t"
  unfolding refiner_step_def
proof (rule apply_rules_upper)
  show "\<forall>r \<in> set rules. rule_applies r s \<longrightarrow> rule_to r \<le> spec_get t (rule_id r)"
    using assms fixed_point_rules unfolding rule_upward_def by blast
qed (rule assms(3))

text \<open>
  When every rule's condition is upward closed, the fixed point that \<open>refine\<close> returns is the
  least one above the start state: no fixed point of \<open>step\<close> above the start is lower in any
  obligation.
\<close>

theorem refine_least:
  assumes "\<forall>r \<in> set rules. rule_upward r" and "refine rules s = (t, Fixed m)"
    and "refiner_step rules u = u" and "\<forall>i. spec_get s i \<le> spec_get u i"
  shows "spec_get t i \<le> spec_get u i"
proof -
  have "spec_below ((refiner_step rules ^^ n) s) u" for n
    by (induction n) (use assms(1,3,4) in \<open>auto simp: spec_below_def[of s] intro: step_mono_fixed\<close>)
  with refine_loop_fixed[OF assms(2)[unfolded refine_def]] show ?thesis
    by (auto simp: spec_below_def)
qed

lemma threshold_upward: "rule_upward (rule_new i t (\<lambda>s. l \<le> spec_get s j))"
  by (auto simp: rule_upward_def rule_new_def spec_below_def intro: order_trans)

lemma monotone_rules_upward: "\<forall>r \<in> set monotone_rules. rule_upward r"
  by (auto simp: monotone_rules_def threshold_upward)
    (simp add: rule_upward_def rule_always_def rule_new_def)

theorem refine_least_witness:
  "PositivelyTested \<le> spec_get
     \<lparr>obligations = [(''req-a'', Traced), (''req-b'', Traced), (''req-c'', EvidenceBundled)],
      tombstoned = {}\<rparr> ''req-c''"
proof -
  define u where "u =
    \<lparr>obligations = [(''req-a'', Traced), (''req-b'', Traced), (''req-c'', EvidenceBundled)],
     tombstoned = {}\<rparr>"
  have run: "refine monotone_rules spec_new
      = (\<lparr>obligations = [(''req-a'', Declared), (''req-b'', Traced), (''req-c'', PositivelyTested)],
          tombstoned = {}\<rparr>, Fixed 3)"
    by code_simp
  have fixed: "refiner_step monotone_rules u = u" unfolding u_def by code_simp
  have below: "\<forall>i. spec_get spec_new i \<le> spec_get u i"
    by (simp add: spec_get_def spec_new_def state_bottom_def)
  from refine_least[OF monotone_rules_upward run fixed below, of "''req-c''"] show ?thesis
    by (simp add: spec_get_def u_def)
qed

definition chain_id :: "nat \<Rightarrow> string" where
  "chain_id i = show_nat i"

definition chain_rules :: "rule list" where
  "chain_rules = map (\<lambda>i. if i = 0 then rule_always (chain_id 0) Declared
     else rule_new (chain_id i) Declared (\<lambda>s. Declared \<le> spec_get s (chain_id (i - 1)))) [0..<70]"

lemma chain_id_inj [simp]: "chain_id i = chain_id j \<longleftrightarrow> i = j"
  unfolding chain_id_def by (metis digits_value_show_nat)

definition chain_state :: "nat \<Rightarrow> spec_state \<Rightarrow> bool" where
  "chain_state k s \<longleftrightarrow> (\<forall>i. spec_get s (chain_id i) = (if i < k then Declared else Absent))
     \<and> (\<forall>x. spec_get s x \<le> Declared)"

lemma foldl_apply_rule_get:
  assumes "\<forall>r \<in> set rs. rule_to r = Declared" and "\<forall>i. spec_get acc i \<le> Declared"
  shows "spec_get (foldl (apply_rule s) acc rs) i =
    (if \<exists>r \<in> set rs. rule_applies r s \<and> rule_id r = i then Declared else spec_get acc i)"
  using assms
proof (induction rs arbitrary: acc)
  case Nil
  then show ?case by simp
next
  case (Cons r rs)
  have "spec_get (apply_rule s acc r) j
      = (if rule_applies r s \<and> rule_id r = j then Declared else spec_get acc j)" for j
    using Cons.prems by (auto simp: apply_rule_def spec_get_set not_less intro: antisym)
  with Cons show ?case by auto
qed

lemma chain_rule_to: "\<forall>r \<in> set chain_rules. rule_to r = Declared"
  by (auto simp: chain_rules_def rule_always_def rule_new_def)

lemma chain_fires:
  assumes "chain_state k s"
  shows "(\<exists>r \<in> set chain_rules. rule_applies r s \<and> rule_id r = chain_id i) \<longleftrightarrow> i < 70 \<and> i \<le> k"
proof -
  have "(\<exists>r \<in> set chain_rules. rule_applies r s \<and> rule_id r = chain_id i)
      \<longleftrightarrow> i < 70 \<and> (i = 0 \<or> Declared \<le> spec_get s (chain_id (i - 1)))"
    by (auto simp: chain_rules_def rule_always_def rule_new_def)
  also have "\<dots> \<longleftrightarrow> i < 70 \<and> i \<le> k"
    using assms by (auto simp: chain_state_def less_eq_obligation_state_def)
  finally show ?thesis .
qed

lemma chain_step:
  assumes "chain_state k s" and "k < 70"
  shows "chain_state (Suc k) (refiner_step chain_rules s) \<and> refiner_step chain_rules s \<noteq> s"
proof -
  have get: "spec_get (refiner_step chain_rules s) x
      = (if \<exists>r \<in> set chain_rules. rule_applies r s \<and> rule_id r = x then Declared else spec_get s x)" for x
    unfolding refiner_step_def
    using foldl_apply_rule_get[OF chain_rule_to] assms(1) by (simp add: chain_state_def)
  from assms have "chain_state (Suc k) (refiner_step chain_rules s)"
    unfolding chain_state_def get chain_fires[OF assms(1)] by auto
  moreover from this assms(1) have "refiner_step chain_rules s \<noteq> s"
    unfolding chain_state_def by (metis lessI less_irrefl obligation_state.distinct(1))
  ultimately show ?thesis by blast
qed

lemma chain_iterate: "n \<le> 70 \<Longrightarrow> chain_state n ((refiner_step chain_rules ^^ n) spec_new)"
proof (induction n)
  case 0
  then show ?case by (simp add: chain_state_def spec_get_def spec_new_def state_bottom_def)
next
  case (Suc n)
  then show ?case using chain_step[of n "(refiner_step chain_rules ^^ n) spec_new"] by simp
qed

text \<open>
  Hitting the bound does not mean that the rules oscillate or fail to be monotone: with a chain
  of 70 upward-closed rules, each declaring one obligation once its predecessor is declared,
  \<open>refine\<close> gives up as \<open>Unstable\<close> although every turn only climbs and a fixed point exists six
  turns later.
\<close>

theorem refine_unstable_on_monotone_chain:
  "(\<forall>r \<in> set chain_rules. rule_upward r)
    \<and> (\<exists>t. refine chain_rules spec_new = (t, Unstable 64)
        \<and> refiner_step chain_rules ((refiner_step chain_rules ^^ 6) t)
            = (refiner_step chain_rules ^^ 6) t)"
proof (intro conjI exI[of _ "(refiner_step chain_rules ^^ 64) spec_new"])
  show "\<forall>r \<in> set chain_rules. rule_upward r"
    by (auto simp: chain_rules_def threshold_upward)
      (simp add: rule_upward_def rule_always_def rule_new_def)
  have "refiner_step chain_rules ((refiner_step chain_rules ^^ j) spec_new)
      \<noteq> (refiner_step chain_rules ^^ j) spec_new" if "j < 64" for j
    using chain_step[OF chain_iterate[of j]] that by simp
  then show "refine chain_rules spec_new
      = ((refiner_step chain_rules ^^ 64) spec_new, Unstable 64)"
    unfolding refine_def using refine_loop_unstable[of 64 chain_rules spec_new 0]
    by (simp add: refine_bound_def)
  have split: "(refiner_step chain_rules ^^ 6) ((refiner_step chain_rules ^^ 64) spec_new)
      = (refiner_step chain_rules ^^ 70) spec_new"
    by (simp only: funpow_add[symmetric, THEN fun_cong, unfolded comp_def]) simp
  let ?u = "(refiner_step chain_rules ^^ 70) spec_new"
  have u: "chain_state 70 ?u" by (rule chain_iterate) simp
  have "\<not> (rule_applies r ?u \<and> spec_get acc (rule_id r) < rule_to r)"
    if "r \<in> set chain_rules" and "acc = ?u" for r acc
    using that u chain_rule_to
    by (auto simp: chain_rules_def chain_state_def rule_always_def rule_new_def)
  then have "foldl (apply_rule ?u) ?u rs = ?u" if "set rs \<subseteq> set chain_rules" for rs
    using that by (induction rs) (auto simp: apply_rule_def)
  then show "refiner_step chain_rules ((refiner_step chain_rules ^^ 6)
        ((refiner_step chain_rules ^^ 64) spec_new))
      = (refiner_step chain_rules ^^ 6) ((refiner_step chain_rules ^^ 64) spec_new)"
    unfolding split by (simp add: refiner_step_def)
qed

end
