(* ===== verification/Ranking.thy ===== *)
theory Ranking
  imports Obligation Rust_Std
begin

text \<open>
  The ranking function over spec states (\<open>crates/tillandsias-plan/src/obligation.rs\<close>, second half).
  Weights are \<open>u64\<close>; the two sums wrap as they do in a release build.
\<close>

datatype regime = Monotone | Broken string

record ranking =
  earned :: "64 word"
  denominator :: "64 word"
  residual :: "64 word"
  ranking_regime :: regime

type_synonym weights = "(string, 64 word \<times> obligation_state) btmap"

definition weights_new :: weights where "weights_new = []"

definition weights_with :: "weights \<Rightarrow> string \<Rightarrow> 64 word \<Rightarrow> obligation_state \<Rightarrow> weights" where
  "weights_with ws i weight earned_at = bt_insert i (weight, earned_at) ws"

definition weights_ids :: "weights \<Rightarrow> string list" where "weights_ids ws = map fst ws"

text \<open>One turn of the loop over the weights: earned, denominator, and whether an id was tombstoned.\<close>

fun rank_step :: "spec_state \<Rightarrow> 64 word \<times> 64 word \<times> bool \<Rightarrow> string \<times> 64 word \<times> obligation_state
    \<Rightarrow> 64 word \<times> 64 word \<times> bool" where
  "rank_step s (e, d, any) (i, weight, earned_at) =
     (if spec_is_tombstoned s i then (e, d, True)
      else (if earned_at \<le> spec_get s i then e + weight else e, d + weight, any))"

definition centicolon_function :: "spec_state \<Rightarrow> weights \<Rightarrow> ranking" where
  "centicolon_function s ws =
     (case foldl (rank_step s) (0, 0, False) ws of (e, d, any) \<Rightarrow>
        \<lparr>earned = e, denominator = d, residual = saturating_sub d e,
         ranking_regime =
           (if any then Broken ''denominator scope changed: an obligation was tombstoned'' else Monotone)\<rparr>)"

text \<open>The loop computes two sums, in closed form.\<close>

definition live_weight :: "spec_state \<Rightarrow> string \<times> 64 word \<times> obligation_state \<Rightarrow> 64 word" where
  "live_weight s w = (if spec_is_tombstoned s (fst w) then 0 else fst (snd w))"

definition earned_weight :: "spec_state \<Rightarrow> string \<times> 64 word \<times> obligation_state \<Rightarrow> 64 word" where
  "earned_weight s w = (if snd (snd w) \<le> spec_get s (fst w) then live_weight s w else 0)"

lemma rank_step_sums:
  "foldl (rank_step s) (e, d, any) ws =
     (e + sum_list (map (earned_weight s) ws), d + sum_list (map (live_weight s) ws),
      any \<or> list_ex (\<lambda>w. spec_is_tombstoned s (fst w)) ws)"
proof (induction ws arbitrary: e d any)
  case (Cons w ws)
  obtain i wt at where w: "w = (i, wt, at)" by (cases w) auto
  show ?case unfolding w by (simp add: Cons.IH earned_weight_def live_weight_def add.assoc)
qed simp

lemma centicolon_sums:
  "earned (centicolon_function s ws) = sum_list (map (earned_weight s) ws)"
  "denominator (centicolon_function s ws) = sum_list (map (live_weight s) ws)"
  "ranking_regime (centicolon_function s ws) = Monotone \<longleftrightarrow>
     \<not> list_ex (\<lambda>w. spec_is_tombstoned s (fst w)) ws"
  by (simp_all add: centicolon_function_def rank_step_sums)

text \<open>Sums that do not overflow are sums of naturals.\<close>

lemma unat_sum_list:
  fixes f :: "'a \<Rightarrow> 64 word"
  assumes "sum_list (map (\<lambda>x. unat (f x)) xs) < 2 ^ 64"
  shows "unat (sum_list (map f xs)) = sum_list (map (\<lambda>x. unat (f x)) xs)"
  using assms
proof (induction xs)
  case (Cons x xs)
  then have "unat (sum_list (map f xs)) = sum_list (map (\<lambda>x. unat (f x)) xs)" by simp
  with Cons.prems show ?case by (simp add: unat_word_ariths)
qed simp

lemma word_sum_list_mono:
  fixes f g :: "'a \<Rightarrow> 64 word"
  assumes "\<And>x. x \<in> set xs \<Longrightarrow> f x \<le> g x" and "sum_list (map (\<lambda>x. unat (g x)) xs) < 2 ^ 64"
  shows "sum_list (map f xs) \<le> sum_list (map g xs)"
proof -
  have le: "sum_list (map (\<lambda>x. unat (f x)) xs) \<le> sum_list (map (\<lambda>x. unat (g x)) xs)"
    using assms(1) by (intro sum_list_mono) (simp add: word_le_nat_alt)
  with assms(2) show ?thesis unfolding word_le_nat_alt by (simp add: unat_sum_list)
qed

definition total_weight :: "weights \<Rightarrow> nat" where
  "total_weight ws = sum_list (map (\<lambda>w. unat (fst (snd w))) ws)"

lemma live_weight_bound: "sum_list (map (\<lambda>w. unat (live_weight s w)) ws) \<le> total_weight ws"
  unfolding total_weight_def by (intro sum_list_mono) (simp add: live_weight_def)

lemma earned_le_live: "earned_weight s w \<le> live_weight s w"
  by (simp add: earned_weight_def)

text \<open>Within the regime that the score itself reports as monotone, evidence never loses ground:
  for weights whose total fits 64 bits, a state above another earns at least as much, out of the
  same denominator, and leaves no more behind; and the earned and the residual part always add up
  to the denominator.\<close>

theorem centicolon_monotone:
  assumes "total_weight ws < 2 ^ 64" and "spec_le s t"
    and "ranking_regime (centicolon_function s ws) = Monotone"
    and "ranking_regime (centicolon_function t ws) = Monotone"
  shows "earned (centicolon_function s ws) \<le> earned (centicolon_function t ws)
    \<and> denominator (centicolon_function s ws) = denominator (centicolon_function t ws)
    \<and> residual (centicolon_function t ws) \<le> residual (centicolon_function s ws)
    \<and> unat (earned (centicolon_function t ws)) + unat (residual (centicolon_function t ws))
        = unat (denominator (centicolon_function t ws))"
proof -
  have live: "live_weight s w = fst (snd w)" "live_weight t w = fst (snd w)" if "w \<in> set ws" for w
    using assms(3,4) that by (auto simp: centicolon_sums list_ex_iff live_weight_def)
  have d: "denominator (centicolon_function s ws) = denominator (centicolon_function t ws)"
    unfolding centicolon_sums using live by (metis (no_types, lifting) map_eq_conv)
  have fit: "sum_list (map (\<lambda>w. unat (live_weight u w)) ws) < 2 ^ 64" for u
    using live_weight_bound[of u ws] assms(1) by linarith
  have fit': "sum_list (map (\<lambda>w. unat (earned_weight u w)) ws) < 2 ^ 64" for u
  proof -
    have "sum_list (map (\<lambda>w. unat (earned_weight u w)) ws) \<le> sum_list (map (\<lambda>w. unat (live_weight u w)) ws)"
      by (intro sum_list_mono) (simp add: earned_le_live word_le_nat_alt[symmetric])
    with fit[of u] show ?thesis by linarith
  qed
  have up: "earned_weight s w \<le> earned_weight t w" if w: "w \<in> set ws" for w
  proof -
    have "spec_get s (fst w) \<le> spec_get t (fst w)"
      using assms(2-4) w by (auto simp: spec_le_iff centicolon_sums list_ex_iff spec_is_tombstoned_def)
    then show ?thesis using live[OF w] by (auto simp: earned_weight_def)
  qed
  have e: "earned (centicolon_function s ws) \<le> earned (centicolon_function t ws)"
    unfolding centicolon_sums by (rule word_sum_list_mono) (use up fit' in auto)
  have below: "earned (centicolon_function u ws) \<le> denominator (centicolon_function u ws)" for u
    unfolding centicolon_sums by (rule word_sum_list_mono) (use earned_le_live fit in auto)
  have res: "residual (centicolon_function u ws)
      = denominator (centicolon_function u ws) - earned (centicolon_function u ws)" for u
    using below[of u] by (simp add: centicolon_function_def saturating_sub_def split: prod.splits)
  have "unat (residual (centicolon_function u ws))
      = unat (denominator (centicolon_function u ws)) - unat (earned (centicolon_function u ws))" for u
    unfolding res using below[of u] by (simp add: unat_sub)
  with e d below[of t] show ?thesis by (simp add: word_le_nat_alt)
qed

theorem centicolon_monotone_witness:
  "earned (centicolon_function spec_new [(''req'', 5, Traced)])
     \<le> earned (centicolon_function (spec_set ''req'' Traced spec_new) [(''req'', 5, Traced)])"
proof -
  have "spec_le spec_new (spec_set ''req'' Traced spec_new)"
    by (auto simp: spec_le_iff spec_get_set spec_get_no_id spec_new_def spec_ids_def)
  then show ?thesis
    using centicolon_monotone[of "[(''req'', 5, Traced)]" spec_new "spec_set ''req'' Traced spec_new"]
    by (simp add: total_weight_def centicolon_sums spec_is_tombstoned_def spec_new_def)
qed

end
