(* ===== verification/Fleet_Score.thy ===== *)
theory Fleet_Score
  imports Base "HOL-Library.Multiset"
begin

text \<open>
  Host scores of the fleet coordinator (\<open>crates/tillandsias-fleet-core/src/score.rs\<close>): measured
  availability class, buckets, the total order on scores, and duration parsing. Unsigned integers are
  naturals below their width; where an operation could leave the width the wrap is written out.
\<close>

definition min_presence_secs :: nat where "min_presence_secs = 4 * 3600"
definition slots_7d :: nat where "slots_7d = 672"
definition observation_min_secs :: nat where "observation_min_secs = 24 * 3600"

definition class_measured :: "nat \<Rightarrow> nat \<Rightarrow> nat" where
  "class_measured present_slots observed_secs =
     (if observed_secs < observation_min_secs then 0
      else (let present = min present_slots slots_7d
            in if 95 * slots_7d \<le> present * 100 then 2
               else if 60 * slots_7d \<le> present * 100 then 1 else 0))"

definition class_effective :: "nat \<Rightarrow> nat \<Rightarrow> nat" where
  "class_effective declared measured = min declared measured"

fun reach_bucket :: "nat option \<Rightarrow> nat" where
  "reach_bucket None = 0"
| "reach_bucket (Some r) = (if r \<le> 20 then 3 else if r \<le> 100 then 2 else 1)"

datatype substrate = Guest | Bare

record host_attrs =
  ha_host :: string
  ha_class_declared :: nat
  ha_present_slots :: nat
  ha_observed_secs :: nat
  ha_rtt_ms :: "nat option"
  ha_substrate :: substrate
  ha_ram_gib :: nat
  ha_disk_free_gib :: nat
  ha_fedora_family :: bool

text \<open>\<open>u32::leading_zeros\<close>: the zero bits above the highest set bit of a 32-bit value.\<close>

fun zeros_from :: "nat \<Rightarrow> nat \<Rightarrow> nat" where
  "zeros_from 0 x = 0"
| "zeros_from (Suc n) x = (if 2 ^ n \<le> x then 0 else Suc (zeros_from n x))"

definition leading_zeros_u32 :: "nat \<Rightarrow> nat" where
  "leading_zeros_u32 x = zeros_from 32 x"

definition log2_floor :: "nat \<Rightarrow> nat" where
  "log2_floor x = (if x \<le> 1 then 0 else 31 - leading_zeros_u32 x)"

record score =
  sc_class_effective :: nat
  sc_reach_bucket :: nat
  sc_substrate :: nat
  sc_ram_log2 :: nat
  sc_disk_log2 :: nat
  sc_os :: nat
  sc_host :: string

definition score_of :: "host_attrs \<Rightarrow> score" where
  "score_of a =
     \<lparr>sc_class_effective =
        class_effective (ha_class_declared a) (class_measured (ha_present_slots a) (ha_observed_secs a)),
      sc_reach_bucket = reach_bucket (ha_rtt_ms a),
      sc_substrate = (case ha_substrate a of Bare \<Rightarrow> 2 | Guest \<Rightarrow> 1),
      sc_ram_log2 = log2_floor (ha_ram_gib a),
      sc_disk_log2 = log2_floor (ha_disk_free_gib a),
      sc_os = (if ha_fedora_family a then 1 else 0),
      sc_host = ha_host a\<rparr>"

definition score_tuple :: "score \<Rightarrow> nat \<times> nat \<times> nat \<times> nat \<times> nat \<times> nat" where
  "score_tuple a = (sc_class_effective a, sc_reach_bucket a, sc_substrate a, sc_ram_log2 a,
     sc_disk_log2 a, sc_os a)"

text \<open>\<open>rank a b = Less\<close> means that \<open>a\<close> outranks \<open>b\<close>.\<close>

definition rank :: "score \<Rightarrow> score \<Rightarrow> ordering" where
  "rank a b = ordering_then (cmp (score_tuple b) (score_tuple a)) (cmp (sc_host a) (sc_host b))"

text \<open>\<open>slice::sort_by\<close>: the stable sort by a comparator.\<close>

fun insert_by :: "('a \<Rightarrow> 'a \<Rightarrow> ordering) \<Rightarrow> 'a \<Rightarrow> 'a list \<Rightarrow> 'a list" where
  "insert_by c x [] = [x]"
| "insert_by c x (y # ys) = (if c x y = Greater then y # insert_by c x ys else x # y # ys)"

definition sort_by :: "('a \<Rightarrow> 'a \<Rightarrow> ordering) \<Rightarrow> 'a list \<Rightarrow> 'a list" where
  "sort_by c xs = foldr (insert_by c) xs []"

definition order_hosts :: "host_attrs list \<Rightarrow> string list" where
  "order_hosts hosts = map sc_host (sort_by rank (map score_of hosts))"

record service_affinity =
  sa_preferred :: "string list"
  sa_eligible :: string
  sa_min_presence :: string

datatype duration_result = DurOk nat | DurBad string | DurBadUnit string | DurPanic

text \<open>
  \<open>split_at(len - 1)\<close> panics when the last byte continues a multi-byte character. The products are
  in \<open>u64\<close>, wrapping as a release build does.
\<close>

definition parse_duration_secs :: "string \<Rightarrow> duration_result" where
  "parse_duration_secs raw =
     (let s = trim raw in
      if s \<noteq> [] \<and> 128 \<le> (of_char (last s) :: nat) \<and> (of_char (last s) :: nat) < 192 then DurPanic
      else
        (let num = take (length s - 1) s; unit = drop (length s - 1) s in
         case parse_u64 num of
           None \<Rightarrow> DurBad s
         | Some n \<Rightarrow>
             (if unit = ''h'' then DurOk ((n * 3600) mod 2 ^ 64)
              else if unit = ''m'' then DurOk ((n * 60) mod 2 ^ 64)
              else if unit = ''s'' then DurOk n
              else DurBadUnit s)))"

subsection \<open>Scores\<close>

lemma zeros_from_bound: "zeros_from n x \<le> n"
  by (induction n) auto

lemma zeros_from_spec: "x < 2 ^ n \<Longrightarrow> 0 < x \<Longrightarrow> zeros_from n x < n
    \<and> 2 ^ (n - 1 - zeros_from n x) \<le> x \<and> x < 2 ^ (n - zeros_from n x)"
  by (induction n) auto

text \<open>The log bucket of a 32-bit value is its binary logarithm rounded down.\<close>

theorem log2_floor_spec:
  assumes "0 < x" and "x < 2 ^ 32"
  shows "2 ^ log2_floor x \<le> x \<and> x < 2 ^ (log2_floor x + 1)"
proof (cases "x \<le> 1")
  case True
  with assms(1) have "x = 1" by simp
  then show ?thesis by (simp add: log2_floor_def)
next
  case False
  note z = zeros_from_spec[OF assms(2,1)]
  then have "32 - zeros_from 32 x = 31 - zeros_from 32 x + 1" by linarith
  with z False show ?thesis by (simp add: log2_floor_def leading_zeros_u32_def)
qed

theorem log2_floor_spec_witness: "2 ^ log2_floor 12 \<le> (12::nat) \<and> 12 < (2::nat) ^ (log2_floor 12 + 1)"
  by (rule log2_floor_spec) simp_all

text \<open>The measured class rises with presence, is 0 before a day of observation, and what a host
  declares can only lower its class.\<close>

theorem class_never_helped_by_declaring:
  "class_effective declared (class_measured present observed) \<le> class_measured present observed
   \<and> (present \<le> present' \<longrightarrow> class_measured present observed \<le> class_measured present' observed)
   \<and> (observed < 24 * 3600 \<longrightarrow> class_measured present observed = 0)
   \<and> class_measured present observed \<le> 2"
  by (auto simp: class_effective_def class_measured_def observation_min_secs_def slots_7d_def Let_def)

subsection \<open>The order of hosts\<close>

lemma score_ext: "score_tuple a = score_tuple b \<Longrightarrow> sc_host a = sc_host b \<Longrightarrow> a = b"
  by (cases a; cases b) (simp add: score_tuple_def)

text \<open>The key whose ascending order is the rank.\<close>

definition outranks :: "score \<Rightarrow> score \<Rightarrow> bool" where
  "outranks a b \<longleftrightarrow> score_tuple b < score_tuple a \<or> (score_tuple a = score_tuple b \<and> sc_host a < sc_host b)"

lemma rank_iff:
  "rank a b = Less \<longleftrightarrow> outranks a b" "rank a b = Greater \<longleftrightarrow> outranks b a" "rank a b = Equal \<longleftrightarrow> a = b"
  by (cases "score_tuple a" "score_tuple b" rule: linorder_cases;
      auto simp: rank_def cmp_def outranks_def intro: score_ext)+

lemma outranks_trans: "outranks a b \<Longrightarrow> outranks b c \<Longrightarrow> outranks a c"
  by (auto simp: outranks_def)

lemma outranks_total: "a = b \<or> outranks a b \<or> outranks b a"
  by (metis outranks_def score_ext linorder_less_linear)

lemma outranks_irrefl: "\<not> outranks a a"
  by (simp add: outranks_def)

definition no_worse :: "score \<Rightarrow> score \<Rightarrow> bool" where
  "no_worse a b \<longleftrightarrow> a = b \<or> outranks a b"

lemma mset_insert_by [simp]: "mset (insert_by c x ys) = add_mset x (mset ys)"
  by (induction ys) auto

lemma mset_sort_by [simp]: "mset (sort_by c xs) = mset xs"
  by (induction xs) (auto simp: sort_by_def)

lemma sorted_insert_by:
  "sorted_wrt no_worse ys \<Longrightarrow> sorted_wrt no_worse (insert_by rank x ys)"
proof (induction ys)
  case (Cons y ys)
  have set: "set (insert_by rank x ys) = insert x (set ys)"
    using mset_insert_by[of rank x ys] by (metis set_mset_add_mset_insert set_mset_mset)
  show ?case
  proof (cases "rank x y = Greater")
    case True
    then have "outranks y x" by (simp add: rank_iff)
    with True Cons set show ?thesis by (auto simp: no_worse_def)
  next
    case False
    then have "no_worse x y" using outranks_total[of x y] by (auto simp: rank_iff no_worse_def)
    with False Cons show ?thesis by (auto simp: no_worse_def dest: outranks_trans)
  qed
qed simp

lemma sorted_sort_by: "sorted_wrt no_worse (sort_by rank xs)"
  by (induction xs) (auto simp: sort_by_def sorted_insert_by)

lemma no_worse_antisym: "no_worse a b \<Longrightarrow> no_worse b a \<Longrightarrow> a = b"
  by (auto simp: no_worse_def dest: outranks_trans simp: outranks_irrefl)

lemma sorted_unique:
  "sorted_wrt no_worse xs \<Longrightarrow> sorted_wrt no_worse ys \<Longrightarrow> mset xs = mset ys \<Longrightarrow> xs = ys"
proof (induction xs arbitrary: ys)
  case (Cons x xs)
  then obtain y ys' where ys: "ys = y # ys'" by (cases ys) auto
  have sets: "set (x # xs) = set (y # ys')" using Cons.prems(3) ys by (metis set_mset_mset)
  have "x = y"
  proof (rule ccontr)
    assume "x \<noteq> y"
    with sets have "x \<in> set ys'" "y \<in> set xs" by auto
    with Cons.prems(1,2) ys have "no_worse x y" "no_worse y x" by auto
    with \<open>x \<noteq> y\<close> no_worse_antisym show False by blast
  qed
  with Cons ys show ?case by auto
qed simp

text \<open>The host order is deterministic: it is a permutation of the hosts, sorted best first, and the
  same for every order in which the hosts are listed.\<close>

theorem order_hosts_deterministic:
  "mset (order_hosts hosts) = mset (map ha_host hosts)
   \<and> (mset hosts = mset hosts' \<longrightarrow> order_hosts hosts = order_hosts hosts')
   \<and> sorted_wrt no_worse (sort_by rank (map score_of hosts))"
proof (intro conjI impI)
  show "mset (order_hosts hosts) = mset (map ha_host hosts)"
    by (simp add: order_hosts_def score_of_def image_mset.compositionality comp_def)
  show "sorted_wrt no_worse (sort_by rank (map score_of hosts))" by (rule sorted_sort_by)
  assume "mset hosts = mset hosts'"
  then have "mset (sort_by rank (map score_of hosts)) = mset (sort_by rank (map score_of hosts'))" by simp
  from sorted_unique[OF sorted_sort_by sorted_sort_by this] show "order_hosts hosts = order_hosts hosts'"
    by (simp add: order_hosts_def)
qed

definition laptop :: host_attrs where
  "laptop = \<lparr>ha_host = ''lap'', ha_class_declared = 2, ha_present_slots = 300, ha_observed_secs = 90000,
     ha_rtt_ms = Some 5, ha_substrate = Bare, ha_ram_gib = 1, ha_disk_free_gib = 1, ha_fedora_family = True\<rparr>"

definition server :: host_attrs where
  "server = \<lparr>ha_host = ''srv'', ha_class_declared = 2, ha_present_slots = 672, ha_observed_secs = 90000,
     ha_rtt_ms = Some 150, ha_substrate = Guest, ha_ram_gib = 0, ha_disk_free_gib = 0, ha_fedora_family = False\<rparr>"

theorem order_hosts_deterministic_witness:
  "order_hosts [laptop, server] = order_hosts [server, laptop]"
  using order_hosts_deterministic[of "[laptop, server]" "[server, laptop]"] by (simp add: add_mset_commute)

text \<open>Availability comes first: a host of a lower effective class never precedes one of a higher
  class, whatever its latency, memory and disk.\<close>

theorem transient_never_outranks:
  assumes "sort_by rank (map score_of hosts) = xs @ a # ys @ b # zs"
  shows "sc_class_effective b \<le> sc_class_effective a"
proof -
  have "sorted_wrt no_worse (xs @ a # ys @ b # zs)" using sorted_sort_by assms by metis
  then have "no_worse a b" by (simp add: sorted_wrt_append)
  then show ?thesis by (auto simp: no_worse_def outranks_def score_tuple_def)
qed

theorem transient_never_outranks_witness:
  "sort_by rank (map score_of [laptop, server]) = [] @ score_of server # [] @ score_of laptop # []
   \<and> sc_class_effective (score_of laptop) \<le> sc_class_effective (score_of server)"
proof -
  have "sort_by rank (map score_of [laptop, server]) = [] @ score_of server # [] @ score_of laptop # []"
    by (simp add: sort_by_def rank_def score_tuple_def cmp_def score_of_def laptop_def server_def
        class_effective_def class_measured_def observation_min_secs_def slots_7d_def log2_floor_def)
  with transient_never_outranks[OF this] show ?thesis by blast
qed

text \<open>Durations are read back: the decimal form of \<open>n\<close> followed by \<open>h\<close> parses to \<open>3600 * n\<close>
  seconds whenever that fits in 64 bits.\<close>

theorem parse_duration_hours:
  assumes "n * 3600 < 2 ^ 64"
  shows "parse_duration_secs (show_nat n @ ''h'') = DurOk (n * 3600)"
proof -
  have digits: "list_all token_byte (show_nat n @ ''h'')"
    using show_nat_digits[of n] by (auto simp: list_all_iff token_byte_def is_ascii_digit_def)
  have "trim (show_nat n @ ''h'') = show_nat n @ ''h''" by (rule trim_visible[OF digits])
  moreover have "n < 2 ^ 64" using assms by simp
  ultimately show ?thesis
    using parse_u64_show_nat[of n] assms by (simp add: parse_duration_secs_def Let_def)
qed

theorem parse_duration_hours_witness: "parse_duration_secs (show_nat 4 @ ''h'') = DurOk 14400"
  using parse_duration_hours[of 4] by simp

end
