(* ===== verification/Base64.thy ===== *)
theory Base64
  imports Base "HOL-Library.Word"
begin

text \<open>
  The URL-safe base64 codec of the session cookie (\<open>base64_url_no_pad\<close> and \<open>base64_url_decode\<close> of
  \<open>crates/tillandsias-otp/src/lib.rs\<close>), on bytes and 32-bit accumulators.
\<close>

unbundle bit_operations_syntax

definition url_alphabet :: string where
  "url_alphabet = ''ABCDEFGHIJKLMNOPQRSTUVWXYZabcdefghijklmnopqrstuvwxyz0123456789-_''"

definition sextet :: "32 word \<Rightarrow> nat \<Rightarrow> char" where
  "sextet n k = url_alphabet ! unat (drop_bit k n AND 63)"

fun base64_url_no_pad :: "8 word list \<Rightarrow> string" where
  "base64_url_no_pad (a # b # c # bs) =
     (let n = push_bit 16 (ucast a) OR push_bit 8 (ucast b) OR (ucast c :: 32 word)
      in sextet n 18 # sextet n 12 # sextet n 6 # sextet n 0 # base64_url_no_pad bs)"
| "base64_url_no_pad [a, b] =
     (let n = push_bit 16 (ucast a) OR push_bit 8 (ucast b :: 32 word)
      in [sextet n 18, sextet n 12, sextet n 6])"
| "base64_url_no_pad [a] = (let n = push_bit 16 (ucast a :: 32 word) in [sextet n 18, sextet n 12])"
| "base64_url_no_pad [] = []"

definition decode_char :: "char \<Rightarrow> nat option" where
  "decode_char ch =
     (let c = (of_char ch :: nat) in
      if 65 \<le> c \<and> c \<le> 90 then Some (c - 65)
      else if 97 \<le> c \<and> c \<le> 122 then Some (c - 97 + 26)
      else if 48 \<le> c \<and> c \<le> 57 then Some (c - 48 + 52)
      else if c = 45 then Some 62
      else if c = 95 then Some 63
      else None)"

fun decode_loop :: "string \<Rightarrow> 32 word \<Rightarrow> nat \<Rightarrow> 8 word list \<Rightarrow> 8 word list option" where
  "decode_loop [] buf bits out = Some out"
| "decode_loop (c # cs) buf bits out =
     (case decode_char c of
        None \<Rightarrow> None
      | Some v \<Rightarrow>
          (let buf' = push_bit 6 buf OR word_of_nat v; bits' = bits + 6
           in if 8 \<le> bits'
              then decode_loop cs buf' (bits' - 8) (out @ [ucast (drop_bit (bits' - 8) buf' AND 255)])
              else decode_loop cs buf' bits' out))"

definition base64_url_decode :: "string \<Rightarrow> 8 word list option" where
  "base64_url_decode s = (if s = [] then Some [] else decode_loop s 0 0 [])"

subsection \<open>Round trip\<close>

lemma decode_alphabet: "i < 64 \<Longrightarrow> decode_char (url_alphabet ! i) = Some i"
proof -
  have len: "length url_alphabet = 64" by (simp add: url_alphabet_def)
  have "map decode_char url_alphabet = map Some [0..<64]"
    by (simp add: url_alphabet_def decode_char_def upt_rec)
  then have "map decode_char url_alphabet ! i = map Some [0..<64] ! i" by simp
  then show "i < 64 \<Longrightarrow> decode_char (url_alphabet ! i) = Some i" by (simp add: len)
qed

lemma mask_63: "(63 :: 'a::len word) = mask 6"
  by (simp add: mask_eq_exp_minus_1)

lemma mask_255: "(255 :: 'a::len word) = mask 8"
  by (simp add: mask_eq_exp_minus_1)

lemma sextet_bound: "unat (w AND (63 :: 32 word)) < 64"
proof -
  have "w AND 63 \<le> 63" by (rule word_and_le1)
  then have "unat (w AND 63) \<le> unat (63 :: 32 word)" by (simp only: word_le_nat_alt)
  then show ?thesis by simp
qed

lemma decode_sextet [simp]: "decode_char (sextet n k) = Some (unat (drop_bit k n AND 63))"
  unfolding sextet_def by (rule decode_alphabet[OF sextet_bound])

lemma high_bits: "8 \<le> k \<Longrightarrow> \<not> bit (a :: 8 word) k"
  by (auto dest: bit_imp_le_length)

lemma byte_cases: "k < LENGTH(8) \<Longrightarrow>
    k = 0 \<or> k = 1 \<or> k = 2 \<or> k = 3 \<or> k = 4 \<or> k = 5 \<or> k = 6 \<or> k = (7::nat)"
  by simp arith

text \<open>The accumulator of the decoder after each sextet of \<open>n\<close>, whatever it held before.\<close>

lemma decoded_bytes:
  fixes a b c :: "8 word" and g :: "32 word"
  assumes "n = push_bit 16 (ucast a) OR push_bit 8 (ucast b) OR (ucast c :: 32 word)"
    and "b1 = push_bit 6 g OR (drop_bit 18 n AND 63)"
    and "b2 = push_bit 6 b1 OR (drop_bit 12 n AND 63)"
    and "b3 = push_bit 6 b2 OR (drop_bit 6 n AND 63)"
    and "b4 = push_bit 6 b3 OR (drop_bit 0 n AND 63)"
  shows "ucast (drop_bit 4 b2 AND 255) = a" "ucast (drop_bit 2 b3 AND 255) = b"
    "ucast (drop_bit 0 b4 AND 255) = c"
proof -
  show "ucast (drop_bit 4 b2 AND 255) = a"
  proof (rule bit_word_eqI)
    fix k assume "k < LENGTH(8)"
    from byte_cases[OF this] show "bit (ucast (drop_bit 4 b2 AND 255) :: 8 word) k = bit a k"
      unfolding assms mask_63 mask_255 by (elim disjE) (simp_all add: bit_simps high_bits)
  qed
  show "ucast (drop_bit 2 b3 AND 255) = b"
  proof (rule bit_word_eqI)
    fix k assume "k < LENGTH(8)"
    from byte_cases[OF this] show "bit (ucast (drop_bit 2 b3 AND 255) :: 8 word) k = bit b k"
      unfolding assms mask_63 mask_255 by (elim disjE) (simp_all add: bit_simps high_bits)
  qed
  show "ucast (drop_bit 0 b4 AND 255) = c"
  proof (rule bit_word_eqI)
    fix k assume "k < LENGTH(8)"
    from byte_cases[OF this] show "bit (ucast (drop_bit 0 b4 AND 255) :: 8 word) k = bit c k"
      unfolding assms mask_63 mask_255 by (elim disjE) (simp_all add: bit_simps high_bits)
  qed
qed

lemma decode_encode: "decode_loop (base64_url_no_pad bs) g 0 out = Some (out @ bs)"
proof (induction bs arbitrary: g out rule: base64_url_no_pad.induct)
  case (1 a b c bs)
  note bytes = decoded_bytes[OF refl refl refl refl refl, of g a b c]
  show ?case
    using 1 bytes by (simp add: Let_def)
next
  case (2 a b)
  note bytes = decoded_bytes[OF refl refl refl refl refl, of g a b 0]
  show ?case using bytes(1,2) by (simp add: Let_def)
next
  case (3 a)
  note bytes = decoded_bytes[OF refl refl refl refl refl, of g a 0 0]
  show ?case using bytes(1) by (simp add: Let_def)
qed simp

lemma encode_nonempty: "base64_url_no_pad bs = [] \<longleftrightarrow> bs = []"
  by (cases bs rule: base64_url_no_pad.cases) (simp_all add: Let_def)

lemma base64_inverse: "base64_url_decode (base64_url_no_pad bs) = Some bs"
  using decode_encode[of bs 0 "[]"] by (simp add: base64_url_decode_def encode_nonempty)

text \<open>Decoding inverts encoding for byte strings of every length.\<close>

theorem base64_round_trip: "base64_url_decode (base64_url_no_pad bs) = Some bs"
  by (rule base64_inverse)

lemma sextet_url_char: "sextet n k \<in> set url_alphabet"
proof -
  have "length url_alphabet = 64" by (simp add: url_alphabet_def)
  with sextet_bound[of "drop_bit k n"] show ?thesis by (auto simp: sextet_def)
qed

lemma encode_length:
  "length (base64_url_no_pad bs) = 4 * (length bs div 3) + (if length bs mod 3 = 0 then 0 else length bs mod 3 + 1)"
  by (induction bs rule: base64_url_no_pad.induct) (auto simp: Let_def div_add_self1)

lemma encode_chars: "set (base64_url_no_pad bs) \<subseteq> set url_alphabet"
  by (induction bs rule: base64_url_no_pad.induct) (auto simp: Let_def sextet_url_char)

text \<open>The decoder accepts lengths that no encoding has (one character modulo four), and ignores the
  bits that do not fill a byte: distinct strings decode to the same bytes.\<close>

theorem base64_decode_lenient:
  "base64_url_decode ''A'' = Some [] \<and> base64_url_decode ''QQ'' = base64_url_decode ''QR''
   \<and> (\<forall>bs. base64_url_no_pad bs \<noteq> ''A'' \<and> base64_url_no_pad bs \<noteq> ''QR'')"
proof (intro conjI allI)
  show "base64_url_decode ''A'' = Some []"
    by (simp add: base64_url_decode_def decode_char_def)
  show q: "base64_url_decode ''QQ'' = base64_url_decode ''QR''"
    by (simp add: base64_url_decode_def decode_char_def)
  have "base64_url_decode ''QQ'' = Some [0x41]"
    by (simp add: base64_url_decode_def decode_char_def)
  fix bs
  show "base64_url_no_pad bs \<noteq> ''A''"
  proof
    assume "base64_url_no_pad bs = ''A''"
    with encode_length[of bs] have "1 = 4 * (length bs div 3) + (if length bs mod 3 = 0 then 0 else length bs mod 3 + 1)"
      by simp
    then show False by (auto split: if_splits)
  qed
  show "base64_url_no_pad bs \<noteq> ''QR''"
  proof
    assume e: "base64_url_no_pad bs = ''QR''"
    with base64_inverse[of bs] q \<open>base64_url_decode ''QQ'' = Some [0x41]\<close> have "bs = [0x41]" by simp
    with e show False by (simp add: sextet_def url_alphabet_def)
  qed
qed

end
