(* ===== verification/Otp.thy ===== *)
theory Otp
  imports Base64
begin

text \<open>
  The session store of OpenCode Web (\<open>crates/tillandsias-otp/src/lib.rs\<close>): per-project lists of
  session entries. The current instant is an argument, in nanoseconds. The process-global instance,
  its lock and the tokio ticker call these operations one at a time.
\<close>

type_synonym token = "8 word list"

definition cookie_len :: nat where "cookie_len = 32"
definition pending_ttl :: nat where "pending_ttl = 60 * 10 ^ 9"

datatype session_state = Pending nat | Active

record session_entry =
  se_value :: token
  se_state :: session_state

type_synonym otp_store = "(string, session_entry list) btmap"

definition sessions :: "otp_store \<Rightarrow> string \<Rightarrow> session_entry list" where
  "sessions st p = (case map_of st p of None \<Rightarrow> [] | Some l \<Rightarrow> l)"

definition otp_push :: "nat \<Rightarrow> string \<Rightarrow> token \<Rightarrow> otp_store \<Rightarrow> otp_store" where
  "otp_push now p v st =
     bt_insert p (sessions st p @ [\<lparr>se_value = v, se_state = Pending (now + pending_ttl)\<rparr>]) st"

text \<open>The index of the first entry with the value; every entry is compared.\<close>

definition matched_index :: "token \<Rightarrow> session_entry list \<Rightarrow> nat option" where
  "matched_index v l =
     foldl (\<lambda>m (i, e). if se_value e = v \<and> m = None then Some i else m) None (zip [0..<length l] l)"

definition promote :: "session_entry \<Rightarrow> session_entry" where
  "promote e = (case se_state e of Pending _ \<Rightarrow> e\<lparr>se_state := Active\<rparr> | Active \<Rightarrow> e)"

definition otp_validate :: "string \<Rightarrow> token \<Rightarrow> otp_store \<Rightarrow> bool \<times> otp_store" where
  "otp_validate p v st =
     (case map_of st p of
        None \<Rightarrow> (False, st)
      | Some l \<Rightarrow>
          (case matched_index v l of
             None \<Rightarrow> (False, st)
           | Some i \<Rightarrow> (True, bt_insert p (l[i := promote (l ! i)]) st)))"

definition unexpired :: "nat \<Rightarrow> session_entry \<Rightarrow> bool" where
  "unexpired now e = (case se_state e of Pending deadline \<Rightarrow> now < deadline | Active \<Rightarrow> True)"

definition otp_evict_expired :: "nat \<Rightarrow> otp_store \<Rightarrow> nat \<times> otp_store" where
  "otp_evict_expired now st =
     (let kept = map (\<lambda>(p, l). (p, filter (unexpired now) l)) st;
          removed = sum_list (map (\<lambda>(p, l). length l - length (filter (unexpired now) l)) st)
      in (removed, filter (\<lambda>(p, l). l \<noteq> []) kept))"

definition otp_evict_project :: "string \<Rightarrow> otp_store \<Rightarrow> otp_store" where
  "otp_evict_project p st = filter (\<lambda>(q, l). q \<noteq> p) st"

definition session_count :: "otp_store \<Rightarrow> string \<Rightarrow> nat" where
  "session_count st p = (case map_of st p of None \<Rightarrow> 0 | Some l \<Rightarrow> length l)"

text \<open>\<open>issue_session\<close> with the random token it drew.\<close>

definition issue_session :: "nat \<Rightarrow> token \<Rightarrow> string \<Rightarrow> otp_store \<Rightarrow> token \<times> otp_store" where
  "issue_session now token p st = (token, otp_push now p token st)"

subsection \<open>Cookies\<close>

definition format_cookie_value :: "token \<Rightarrow> string" where
  "format_cookie_value t = base64_url_no_pad t"

definition parse_cookie_value :: "string \<Rightarrow> token option" where
  "parse_cookie_value s =
     (case base64_url_decode s of
        None \<Rightarrow> None
      | Some bytes \<Rightarrow> if length bytes \<noteq> cookie_len then None else Some bytes)"

definition cookie_name :: string where "cookie_name = ''tillandsias_session''"
definition cookie_max_age_secs :: nat where "cookie_max_age_secs = 86400"

definition format_set_cookie_header :: "token \<Rightarrow> string \<Rightarrow> string" where
  "format_set_cookie_header t host =
     cookie_name @ ''='' @ format_cookie_value t @ ''; Path=/; HttpOnly; SameSite=Lax; Max-Age=''
     @ show_nat cookie_max_age_secs"

definition login_action :: "string \<Rightarrow> string" where
  "login_action project_url = trim_end_chars (\<lambda>c. c = CHR ''/'') project_url @ ''/_auth/login''"

subsection \<open>The store as a machine\<close>

datatype otp_op = Push nat string token | Validate string token | Tick nat | StackStopped string

fun otp_step :: "otp_store \<Rightarrow> otp_op \<Rightarrow> otp_store" where
  "otp_step st (Push now p v) = otp_push now p v st"
| "otp_step st (Validate p v) = snd (otp_validate p v st)"
| "otp_step st (Tick now) = snd (otp_evict_expired now st)"
| "otp_step st (StackStopped p) = otp_evict_project p st"

lemma matched_index_spec:
  "matched_index v l = (case find (\<lambda>i. se_value (l ! i) = v) [0..<length l] of None \<Rightarrow> None | Some i \<Rightarrow> Some i)"
proof -
  let ?f = "\<lambda>m (i, e). if se_value e = v \<and> m = None then Some i else m"
  have z: "zip [0..<length l] l = map (\<lambda>i. (i, l ! i)) [0..<length l]"
    by (rule nth_equalityI) auto
  have "foldl ?f m (map (\<lambda>i. (i, l ! i)) is) =
      (case m of Some j \<Rightarrow> Some j | None \<Rightarrow> find (\<lambda>i. se_value (l ! i) = v) is)" for m "is"
    by (induction "is" arbitrary: m) (auto split: option.splits)
  then show ?thesis by (simp add: matched_index_def z split: option.splits)
qed


lemma matched_index_None: "matched_index v l = None \<longleftrightarrow> v \<notin> se_value ` set l"
proof -
  have "matched_index v l = find (\<lambda>i. se_value (l ! i) = v) [0..<length l]"
    by (simp add: matched_index_spec split: option.splits)
  then have "matched_index v l = None \<longleftrightarrow> (\<forall>i < length l. se_value (l ! i) \<noteq> v)"
    by (auto simp: find_None_iff)
  also have "\<dots> \<longleftrightarrow> v \<notin> se_value ` set l" by (force simp: set_conv_nth)
  finally show ?thesis .
qed



lemma map_of_filter_values:
  "distinct (map fst m) \<Longrightarrow> map_of (filter (\<lambda>(k, v). P v) m) k =
     (case map_of m k of None \<Rightarrow> None | Some v \<Rightarrow> if P v then Some v else None)"
  by (induction m) (auto split: option.splits simp: map_of_eq_None_iff image_iff)

lemma sessions_push:
  "sessions (otp_push now p v st) q =
     (if q = p then sessions st p @ [\<lparr>se_value = v, se_state = Pending (now + pending_ttl)\<rparr>]
      else sessions st q)"
  by (simp add: sessions_def otp_push_def)

lemma sessions_validate:
  "sessions (snd (otp_validate p v st)) q =
     (if q = p then (case matched_index v (sessions st p) of
         None \<Rightarrow> sessions st p | Some i \<Rightarrow> (sessions st p)[i := promote (sessions st p ! i)])
      else sessions st q)"
proof (cases "map_of st p")
  case None
  then show ?thesis by (simp add: sessions_def otp_validate_def matched_index_def)
next
  case (Some l)
  then show ?thesis
    by (cases "matched_index v l") (simp_all add: sessions_def otp_validate_def)
qed

lemma sessions_tick:
  assumes "bt_wf st"
  shows "sessions (snd (otp_evict_expired now st)) q = filter (unexpired now) (sessions st q)"
proof -
  let ?kept = "map (\<lambda>(p, l). (p, filter (unexpired now) l)) st"
  have "distinct (map fst ?kept)" using bt_wf_distinct[OF assms] by (simp add: case_prod_unfold comp_def)
  from map_of_filter_values[OF this, of "\<lambda>l. l \<noteq> []" q] show ?thesis
    by (simp add: otp_evict_expired_def Let_def sessions_def map_of_map_snd split: option.splits)
qed


lemma sessions_stopped: "sessions (otp_evict_project p st) q = (if q = p then [] else sessions st q)"
  by (induction st) (auto simp: sessions_def otp_evict_project_def split: option.splits)

text \<open>The store invariant: keys ordered and unique, no project with an empty list.\<close>

definition store_ok :: "otp_store \<Rightarrow> bool" where
  "store_ok st \<longleftrightarrow> bt_wf st \<and> [] \<notin> snd ` set st"

lemma bt_wf_filter: "bt_wf m \<Longrightarrow> bt_wf (filter P m)"
  by (induction m) (auto simp: bt_wf_def)

lemma bt_insert_values: "snd ` set (bt_insert k v m) \<subseteq> insert v (snd ` set m)"
  by (induction k v m rule: bt_insert.induct) auto

lemma store_ok_insert: "store_ok st \<Longrightarrow> l \<noteq> [] \<Longrightarrow> store_ok (bt_insert p l st)"
  using bt_insert_values[of p l st] by (auto simp: store_ok_def)

lemma store_ok_step: "store_ok st \<Longrightarrow> store_ok (otp_step st op)"
proof (cases op)
  case (Push now p v)
  then show "store_ok st \<Longrightarrow> store_ok (otp_step st op)"
    by (simp add: otp_push_def store_ok_insert)
next
  case (Validate p v)
  assume ok: "store_ok st"
  show "store_ok (otp_step st op)"
  proof (cases "map_of st p")
    case None
    with ok Validate show ?thesis by (simp add: otp_validate_def)
  next
    case (Some l)
    from ok Some have "l \<noteq> []" by (auto simp: store_ok_def dest: map_of_SomeD intro: rev_image_eqI)
    with ok Some Validate show ?thesis
      by (auto simp: otp_validate_def store_ok_insert split: option.splits)
  qed
next
  case (Tick now)
  have wf: "bt_wf (map (\<lambda>(p, l). (p, filter (unexpired now) l)) st)" if "bt_wf st"
    using that by (simp add: bt_wf_def case_prod_unfold comp_def)
  show "store_ok st \<Longrightarrow> store_ok (otp_step st op)"
    unfolding Tick by (auto simp: otp_evict_expired_def Let_def store_ok_def intro: bt_wf_filter wf)
next
  case (StackStopped p)
  then show "store_ok st \<Longrightarrow> store_ok (otp_step st op)"
    by (auto simp: otp_evict_project_def store_ok_def bt_wf_filter)
qed

interpretation otp: rooted_machine otp_step store_ok "[]"
  by unfold_locales (auto simp: store_ok_step, simp add: store_ok_def)

definition otp_run :: "otp_op list \<Rightarrow> otp_store" where
  "otp_run ops = foldl otp_step [] ops"

lemma run_ok: "store_ok (otp_run ops)"
  unfolding otp_run_def by (rule otp.reach_inv)

lemma validate_iff: "fst (otp_validate p v st) \<longleftrightarrow> v \<in> se_value ` set (sessions st p)"
proof (cases "map_of st p")
  case None
  then show ?thesis by (simp add: otp_validate_def sessions_def)
next
  case (Some l)
  then show ?thesis
    using matched_index_None[of v l] by (cases "matched_index v l") (auto simp: otp_validate_def sessions_def)
qed





text \<open>The one-minute limit: a token issued at \<open>t\<close> is accepted right away, and if it was not in the
  project's list before, it is rejected after an eviction tick at or past \<open>t\<close> plus 60 seconds unless
  it was validated first.\<close>

theorem unused_token_expires:
  assumes "v \<notin> se_value ` set (sessions (otp_run ops) p)" and "t + pending_ttl \<le> now"
  shows "fst (otp_validate p v (otp_run (ops @ [Push t p v])))
    \<and> \<not> fst (otp_validate p v (otp_run (ops @ [Push t p v, Tick now])))"
proof
  show "fst (otp_validate p v (otp_run (ops @ [Push t p v])))"
    unfolding validate_iff by (simp add: otp_run_def sessions_push)
  have "bt_wf (otp_run (ops @ [Push t p v]))" using run_ok by (simp add: store_ok_def)
  from sessions_tick[OF this, of now p]
  have "sessions (otp_run (ops @ [Push t p v, Tick now])) p =
      filter (unexpired now) (sessions (otp_run ops) p @ [\<lparr>se_value = v, se_state = Pending (t + pending_ttl)\<rparr>])"
    by (simp add: otp_run_def sessions_push)
  with assms show "\<not> fst (otp_validate p v (otp_run (ops @ [Push t p v, Tick now])))"
    unfolding validate_iff by (auto simp: unexpired_def)
qed

theorem unused_token_expires_witness:
  "\<not> fst (otp_validate ''p'' [7] (otp_run ([] @ [Push 0 ''p'' [7], Tick (60 * 10 ^ 9)])))"
proof -
  have "[7] \<notin> se_value ` set (sessions (otp_run []) ''p'')" by (simp add: otp_run_def sessions_def)
  moreover have "0 + pending_ttl \<le> 60 * 10 ^ 9" by (simp add: pending_ttl_def)
  ultimately show ?thesis using unused_token_expires by blast
qed

text \<open>Projects are isolated: pushing, validating or stopping one project leaves the sessions of every
  other project as they were, and a tick removes from each project exactly its expired pending
  sessions.\<close>

theorem projects_isolated:
  assumes "p \<noteq> q"
  shows "sessions (otp_run (ops @ [Push t q v])) p = sessions (otp_run ops) p
    \<and> sessions (otp_run (ops @ [Validate q v])) p = sessions (otp_run ops) p
    \<and> sessions (otp_run (ops @ [StackStopped q])) p = sessions (otp_run ops) p
    \<and> sessions (otp_run (ops @ [Tick t])) p = filter (unexpired t) (sessions (otp_run ops) p)"
proof -
  have "bt_wf (otp_run ops)" using run_ok by (simp add: store_ok_def)
  with assms show ?thesis
    by (simp add: otp_run_def sessions_push sessions_validate sessions_stopped sessions_tick)
qed

theorem projects_isolated_witness:
  "sessions (otp_run ([Push 0 ''a'' [1]] @ [StackStopped ''b''])) ''a'' = sessions (otp_run [Push 0 ''a'' [1]]) ''a''"
proof -
  have "''a'' \<noteq> ''b''" by simp
  from projects_isolated[OF this, of "[Push 0 ''a'' [1]]"] show ?thesis by blast
qed

text \<open>The cookie value of a 32-byte token is 43 URL-safe characters and parses back to the token.\<close>

theorem cookie_round_trip:
  assumes "length t = cookie_len"
  shows "parse_cookie_value (format_cookie_value t) = Some t
    \<and> length (format_cookie_value t) = 43 \<and> set (format_cookie_value t) \<subseteq> set url_alphabet"
  using assms encode_length[of t] encode_chars[of t]
  by (simp add: parse_cookie_value_def format_cookie_value_def base64_inverse cookie_len_def)

theorem cookie_round_trip_witness:
  "parse_cookie_value (format_cookie_value (replicate 32 5)) = Some (replicate 32 5)"
proof -
  have "length (replicate 32 5 :: token) = cookie_len" by (simp add: cookie_len_def)
  from cookie_round_trip[OF this] show ?thesis by blast
qed

end
