(* ===== verification/Login_Flow.thy ===== *)
theory Login_Flow
  imports Base "HOL-Library.Sublist"
begin

text \<open>
  The provider login flow (\<open>crates/tillandsias-control-wire/src/auth_flow.rs\<close>): its states, the guards
  of its stages over the runtime prerequisites, and one function per method of \<open>LoginFlow\<close>. The
  provider is carried along and read by no transition. A \<open>login_event\<close> is a call of one of the
  methods that take \<open>&mut self\<close>.
\<close>

datatype auth_provider = GitHub | Codex | OpenCode | Antigravity

record auth_prerequisites =
  enclave_network_up :: bool
  egress_network_up :: bool
  ca_bundle_valid :: bool
  vault_running :: bool
  vault_reachable :: bool
  proxy_running :: bool
  git_identity_configured :: bool

datatype login_stage =
  EnsurePrereqs | Collect | VerifySession | Persist | VerifyPersisted | StoreIdentity

datatype blocked_reason =
  NoDesktopSession | GitIdentityMissing | RuntimeAssetsMissing | ImageUnavailable
  | DependencyDown string | ServiceUnhealthy string | VaultLease | CaBundle | HelperStart
  | HelperUnhealthy | OperatorAbandoned | EmptyToken | ProviderReject | Deadline | SessionInvalid
  | VaultWrite string | VaultReadback | NoVaultFeature | IdentityInvalid

datatype guard_verdict = Possible | GuardBlocked blocked_reason

datatype login_state =
  Idle | PrereqsPending | AwaitingOperator | TokenCollected | TokenPersisted | TokenVerified
  | Blocked login_stage blocked_reason | Abandoned

fun is_terminal :: "login_state \<Rightarrow> bool" where
  "is_terminal Idle = True"
| "is_terminal TokenVerified = True"
| "is_terminal (Blocked _ _) = True"
| "is_terminal Abandoned = True"
| "is_terminal _ = False"

fun user_visible_chip_status :: "login_state \<Rightarrow> string" where
  "user_visible_chip_status Idle = ''Logged Out''"
| "user_visible_chip_status PrereqsPending = ''Preparing Enclave...''"
| "user_visible_chip_status AwaitingOperator = ''Awaiting Input...''"
| "user_visible_chip_status TokenCollected = ''Saving Credentials...''"
| "user_visible_chip_status TokenPersisted = ''Verifying Token...''"
| "user_visible_chip_status TokenVerified = ''Logged In''"
| "user_visible_chip_status (Blocked _ _) = ''Login Failed''"
| "user_visible_chip_status Abandoned = ''Login Cancelled''"

record login_flow =
  flow_provider :: auth_provider
  flow_state :: login_state

definition new_flow :: "auth_provider \<Rightarrow> login_flow" where
  "new_flow p = \<lparr>flow_provider = p, flow_state = Idle\<rparr>"

fun is_possible :: "login_stage \<Rightarrow> auth_prerequisites \<Rightarrow> guard_verdict" where
  "is_possible EnsurePrereqs q =
     (if \<not> enclave_network_up q then GuardBlocked (DependencyDown ''enclave_network'') else Possible)"
| "is_possible Collect q =
     (if \<not> proxy_running q then GuardBlocked (ServiceUnhealthy ''proxy'') else Possible)"
| "is_possible VerifySession q =
     (if \<not> egress_network_up q then GuardBlocked (DependencyDown ''egress_network'') else Possible)"
| "is_possible Persist q =
     (if \<not> ca_bundle_valid q then GuardBlocked CaBundle
      else if \<not> vault_running q \<or> \<not> vault_reachable q then GuardBlocked (DependencyDown ''vault'')
      else Possible)"
| "is_possible VerifyPersisted q =
     (if \<not> vault_reachable q then GuardBlocked VaultReadback else Possible)"
| "is_possible StoreIdentity q =
     (if \<not> git_identity_configured q then GuardBlocked GitIdentityMissing else Possible)"

text \<open>The transitions. A call in any other state than the one it expects changes nothing.\<close>

definition flow_start :: "auth_prerequisites \<Rightarrow> login_flow \<Rightarrow> login_flow" where
  "flow_start q f =
     (if flow_state f \<noteq> Idle then f
      else (case is_possible EnsurePrereqs q of
              Possible \<Rightarrow> f\<lparr>flow_state := PrereqsPending\<rparr>
            | GuardBlocked reason \<Rightarrow> f\<lparr>flow_state := Blocked EnsurePrereqs reason\<rparr>))"

definition flow_prompt_opened :: "login_flow \<Rightarrow> login_flow" where
  "flow_prompt_opened f =
     (if flow_state f = PrereqsPending then f\<lparr>flow_state := AwaitingOperator\<rparr> else f)"

definition flow_token_input_received :: "string \<Rightarrow> login_flow \<Rightarrow> login_flow" where
  "flow_token_input_received token f =
     (if flow_state f \<noteq> AwaitingOperator then f
      else if trim token = [] then f\<lparr>flow_state := Blocked Collect EmptyToken\<rparr>
      else f\<lparr>flow_state := TokenCollected\<rparr>)"

definition flow_cancel :: "login_flow \<Rightarrow> login_flow" where
  "flow_cancel f = f\<lparr>flow_state := Abandoned\<rparr>"

definition flow_persist_token :: "auth_prerequisites \<Rightarrow> login_flow \<Rightarrow> login_flow" where
  "flow_persist_token q f =
     (if flow_state f \<noteq> TokenCollected then f
      else (case is_possible Persist q of
              Possible \<Rightarrow> f\<lparr>flow_state := TokenPersisted\<rparr>
            | GuardBlocked reason \<Rightarrow> f\<lparr>flow_state := Blocked Persist reason\<rparr>))"

definition flow_verify_token :: "auth_prerequisites \<Rightarrow> login_flow \<Rightarrow> login_flow" where
  "flow_verify_token q f =
     (if flow_state f \<noteq> TokenPersisted then f
      else (case is_possible VerifyPersisted q of
              Possible \<Rightarrow> f\<lparr>flow_state := TokenVerified\<rparr>
            | GuardBlocked reason \<Rightarrow> f\<lparr>flow_state := Blocked VerifyPersisted reason\<rparr>))"

datatype (discs_sels) login_event =
  StartFlow auth_prerequisites | PromptOpened | TokenInput string | CancelFlow
  | PersistToken auth_prerequisites | VerifyToken auth_prerequisites

fun login_step :: "login_flow \<Rightarrow> login_event \<Rightarrow> login_flow" where
  "login_step f (StartFlow q) = flow_start q f"
| "login_step f PromptOpened = flow_prompt_opened f"
| "login_step f (TokenInput t) = flow_token_input_received t f"
| "login_step f CancelFlow = flow_cancel f"
| "login_step f (PersistToken q) = flow_persist_token q f"
| "login_step f (VerifyToken q) = flow_verify_token q f"

lemmas login_defs = flow_start_def flow_prompt_opened_def flow_token_input_received_def
  flow_cancel_def flow_persist_token_def flow_verify_token_def

text \<open>The same machine as a relation on the states of the flow.\<close>

inductive login_moves :: "login_state \<Rightarrow> login_event \<Rightarrow> login_state \<Rightarrow> bool" where
  start_ok: "enclave_network_up q \<Longrightarrow> login_moves Idle (StartFlow q) PrereqsPending"
| start_bad: "\<not> enclave_network_up q \<Longrightarrow>
    login_moves Idle (StartFlow q) (Blocked EnsurePrereqs (DependencyDown ''enclave_network''))"
| prompt: "login_moves PrereqsPending PromptOpened AwaitingOperator"
| input_ok: "trim t \<noteq> [] \<Longrightarrow> login_moves AwaitingOperator (TokenInput t) TokenCollected"
| input_bad: "trim t = [] \<Longrightarrow> login_moves AwaitingOperator (TokenInput t) (Blocked Collect EmptyToken)"
| persist_ok: "is_possible Persist q = Possible \<Longrightarrow>
    login_moves TokenCollected (PersistToken q) TokenPersisted"
| persist_bad: "is_possible Persist q = GuardBlocked r \<Longrightarrow>
    login_moves TokenCollected (PersistToken q) (Blocked Persist r)"
| verify_ok: "vault_reachable q \<Longrightarrow> login_moves TokenPersisted (VerifyToken q) TokenVerified"
| verify_bad: "\<not> vault_reachable q \<Longrightarrow>
    login_moves TokenPersisted (VerifyToken q) (Blocked VerifyPersisted VaultReadback)"
| cancel: "login_moves s CancelFlow Abandoned"

inductive_simps moves_simps:
  "login_moves s (StartFlow q) s'" "login_moves s PromptOpened s'" "login_moves s (TokenInput t) s'"
  "login_moves s CancelFlow s'" "login_moves s (PersistToken q) s'" "login_moves s (VerifyToken q) s'"

inductive_cases moves_into_verified: "login_moves s e TokenVerified"

text \<open>The transition functions make exactly the moves of the relation, and stay where it has none.\<close>

lemma step_refines:
  "flow_state (login_step f e) = s' \<longleftrightarrow>
     login_moves (flow_state f) e s' \<or> (\<nexists>s''. login_moves (flow_state f) e s'') \<and> s' = flow_state f"
  by (cases e; cases "flow_state f") (auto simp: moves_simps login_defs split: if_splits)

definition login_run :: "auth_provider \<Rightarrow> login_event list \<Rightarrow> login_state" where
  "login_run p es = flow_state (foldl login_step (new_flow p) es)"


fun has_failed :: "login_state \<Rightarrow> bool" where
  "has_failed (Blocked _ _) = True"
| "has_failed Abandoned = True"
| "has_failed _ = False"

lemma has_failed_simps: "has_failed s \<longleftrightarrow> (\<exists>st r. s = Blocked st r) \<or> s = Abandoned"
  by (cases s) auto

interpretation failed_flow: machine login_step "\<lambda>f. has_failed (flow_state f)"
proof unfold_locales
  fix f :: login_flow and e assume "has_failed (flow_state f)"
  then show "has_failed (flow_state (login_step f e))"
    by (cases e) (auto simp: has_failed_simps login_defs)
qed

interpretation login: rooted_machine login_step "\<lambda>f. flow_provider f = p" "new_flow p" for p
proof unfold_locales
  fix f :: login_flow and e assume "flow_provider f = p"
  then show "flow_provider (login_step f e) = p"
    by (cases e) (auto simp: login_defs split: guard_verdict.splits)
qed (simp add: new_flow_def)

abbreviation logs_in :: "login_flow \<Rightarrow> login_event list \<Rightarrow> bool" where
  "logs_in f es \<equiv> flow_state (foldl login_step f es) = TokenVerified"

lemma failed_never: "has_failed (flow_state f) \<Longrightarrow> \<not> logs_in f es"
  using failed_flow.run_inv[of f es] by auto

lemma cancel_never: "\<not> logs_in (flow_cancel f) es"
  by (rule failed_never) (simp add: flow_cancel_def)

lemma login_waits:
  assumes "\<And>e. \<not> leaves e \<Longrightarrow> login_step f e = f" and "flow_state f \<noteq> TokenVerified"
  shows "logs_in f es \<longleftrightarrow>
    (\<exists>b e c. es = b @ e # c \<and> list_all (\<lambda>x. \<not> leaves x) b \<and> leaves e \<and> logs_in (login_step f e) c)"
  using foldl_waits[of leaves login_step f "\<lambda>g. flow_state g = TokenVerified" es] assms by blast

lemma no_cancel_split:
  "list_all (\<lambda>x. \<not> (P x \<or> x = CancelFlow)) b \<longleftrightarrow> list_all (\<lambda>x. \<not> P x) b \<and> CancelFlow \<notin> set b"
  by (auto simp: list_all_iff)

text \<open>One stage: what a run must do next to log in at all.\<close>

lemma verified_stays: "flow_state f = TokenVerified \<Longrightarrow> logs_in f es \<longleftrightarrow> CancelFlow \<notin> set es"
proof (induction es)
  case (Cons x xs)
  show ?case
  proof (cases "x = CancelFlow")
    case True
    then show ?thesis using cancel_never[of f xs] by simp
  next
    case False
    then have "login_step f x = f" using Cons.prems by (cases x) (auto simp: login_defs)
    with Cons False show ?thesis by auto
  qed
qed simp

lemma stage_wait:
  assumes "\<And>e. \<not> P e \<Longrightarrow> e \<noteq> CancelFlow \<Longrightarrow> login_step f e = f" and "\<not> P CancelFlow"
    and "flow_state f \<noteq> TokenVerified"
  shows "logs_in f es \<longleftrightarrow> (\<exists>b e c. es = b @ e # c \<and> list_all (\<lambda>x. \<not> P x) b \<and> CancelFlow \<notin> set b \<and> P e
    \<and> logs_in (login_step f e) c)"
proof -
  have "logs_in f es \<longleftrightarrow> (\<exists>b e c. es = b @ e # c \<and> list_all (\<lambda>x. \<not> (P x \<or> x = CancelFlow)) b
      \<and> (P e \<or> e = CancelFlow) \<and> logs_in (login_step f e) c)"
    using assms(1,3) by (intro login_waits) auto
  then show ?thesis unfolding no_cancel_split using cancel_never[of f] by auto
qed

lemma stage_pass:
  assumes "\<And>e. \<not> P e \<Longrightarrow> e \<noteq> CancelFlow \<Longrightarrow> login_step f e = f" and "\<not> P CancelFlow"
    and "flow_state f \<noteq> TokenVerified"
    and "\<And>e. P e \<Longrightarrow> (if g e then flow_state (login_step f e) = s' else has_failed (flow_state (login_step f e)))"
    and "\<And>f' c. flow_state f' = s' \<Longrightarrow> logs_in f' c \<longleftrightarrow> Q c" and "\<And>e. g e \<Longrightarrow> P e"
  shows "logs_in f es \<longleftrightarrow> (\<exists>b e c. es = b @ e # c \<and> list_all (\<lambda>x. \<not> P x) b \<and> CancelFlow \<notin> set b
    \<and> g e \<and> Q c)"
proof -
  have "P e \<Longrightarrow> logs_in (login_step f e) c \<longleftrightarrow> g e \<and> Q c" for e c
    using assms(4)[of e] assms(5)[of "login_step f e" c] failed_never[of "login_step f e" c]
    by (auto split: if_splits)
  moreover have "logs_in f es \<longleftrightarrow> (\<exists>b e c. es = b @ e # c \<and> list_all (\<lambda>x. \<not> P x) b
      \<and> CancelFlow \<notin> set b \<and> P e \<and> logs_in (login_step f e) c)"
    using assms(1-3) by (rule stage_wait)
  ultimately show ?thesis using assms(6) by (simp only:) blast
qed

text \<open>The requirement each state puts on the rest of a run that logs in, from the last state back.\<close>

definition from_persisted :: "login_event list \<Rightarrow> bool" where
  "from_persisted es \<longleftrightarrow> (\<exists>b q c. es = b @ VerifyToken q # c \<and> list_all (\<lambda>x. \<not> is_VerifyToken x) b
    \<and> CancelFlow \<notin> set b \<and> vault_reachable q \<and> CancelFlow \<notin> set c)"

definition from_collected :: "login_event list \<Rightarrow> bool" where
  "from_collected es \<longleftrightarrow> (\<exists>b q c. es = b @ PersistToken q # c \<and> list_all (\<lambda>x. \<not> is_PersistToken x) b
    \<and> CancelFlow \<notin> set b \<and> is_possible Persist q = Possible \<and> from_persisted c)"

definition from_awaiting :: "login_event list \<Rightarrow> bool" where
  "from_awaiting es \<longleftrightarrow> (\<exists>b t c. es = b @ TokenInput t # c \<and> list_all (\<lambda>x. \<not> is_TokenInput x) b
    \<and> CancelFlow \<notin> set b \<and> trim t \<noteq> [] \<and> from_collected c)"

definition from_pending :: "login_event list \<Rightarrow> bool" where
  "from_pending es \<longleftrightarrow> (\<exists>b c. es = b @ PromptOpened # c \<and> list_all (\<lambda>x. x \<noteq> PromptOpened) b
    \<and> CancelFlow \<notin> set b \<and> from_awaiting c)"

definition from_idle :: "login_event list \<Rightarrow> bool" where
  "from_idle es \<longleftrightarrow> (\<exists>b q c. es = b @ StartFlow q # c \<and> list_all (\<lambda>x. \<not> is_StartFlow x) b
    \<and> CancelFlow \<notin> set b \<and> enclave_network_up q \<and> from_pending c)"

lemma logs_in_verified: "flow_state f = TokenVerified \<Longrightarrow> logs_in f es \<longleftrightarrow> CancelFlow \<notin> set es"
  by (rule verified_stays)

lemma logs_in_persisted: "flow_state f = TokenPersisted \<Longrightarrow> logs_in f es \<longleftrightarrow> from_persisted es"
proof -
  assume st: "flow_state f = TokenPersisted"
  have "logs_in f es \<longleftrightarrow> (\<exists>b e c. es = b @ e # c \<and> list_all (\<lambda>x. \<not> is_VerifyToken x) b
      \<and> CancelFlow \<notin> set b \<and> (\<exists>q. e = VerifyToken q \<and> vault_reachable q)
      \<and> CancelFlow \<notin> set c)"
  proof (rule stage_pass[where s' = TokenVerified])
    fix e assume "\<not> is_VerifyToken e" "e \<noteq> CancelFlow"
    with st show "login_step f e = f" by (cases e) (auto simp: login_defs)
  qed (use st verified_stays in \<open>auto simp: login_defs is_VerifyToken_def\<close>)
  then show ?thesis unfolding from_persisted_def by blast
qed

lemma logs_in_collected: "flow_state f = TokenCollected \<Longrightarrow> logs_in f es \<longleftrightarrow> from_collected es"
proof -
  assume st: "flow_state f = TokenCollected"
  have "logs_in f es \<longleftrightarrow> (\<exists>b e c. es = b @ e # c \<and> list_all (\<lambda>x. \<not> is_PersistToken x) b
      \<and> CancelFlow \<notin> set b \<and> (\<exists>q. e = PersistToken q \<and> is_possible Persist q = Possible) \<and> from_persisted c)"
  proof (rule stage_pass[where s' = TokenPersisted])
    fix e assume "\<not> is_PersistToken e" "e \<noteq> CancelFlow"
    with st show "login_step f e = f" by (cases e) (auto simp: login_defs)
  qed (use st logs_in_persisted in \<open>auto simp: login_defs is_PersistToken_def\<close>)
  then show ?thesis unfolding from_collected_def by blast
qed

lemma logs_in_awaiting: "flow_state f = AwaitingOperator \<Longrightarrow> logs_in f es \<longleftrightarrow> from_awaiting es"
proof -
  assume st: "flow_state f = AwaitingOperator"
  have "logs_in f es \<longleftrightarrow> (\<exists>b e c. es = b @ e # c \<and> list_all (\<lambda>x. \<not> is_TokenInput x) b
      \<and> CancelFlow \<notin> set b \<and> (\<exists>t. e = TokenInput t \<and> trim t \<noteq> [])
      \<and> from_collected c)"
  proof (rule stage_pass[where s' = TokenCollected])
    fix e assume "\<not> is_TokenInput e" "e \<noteq> CancelFlow"
    with st show "login_step f e = f" by (cases e) (auto simp: login_defs)
  qed (use st logs_in_collected in \<open>auto simp: login_defs is_TokenInput_def\<close>)
  then show ?thesis unfolding from_awaiting_def by blast
qed

lemma logs_in_pending: "flow_state f = PrereqsPending \<Longrightarrow> logs_in f es \<longleftrightarrow> from_pending es"
proof -
  assume st: "flow_state f = PrereqsPending"
  have "logs_in f es \<longleftrightarrow> (\<exists>b e c. es = b @ e # c \<and> list_all (\<lambda>x. \<not> (x = PromptOpened)) b
      \<and> CancelFlow \<notin> set b \<and> e = PromptOpened \<and> from_awaiting c)"
  proof (rule stage_pass[where P = "\<lambda>x. x = PromptOpened" and s' = AwaitingOperator])
    fix e assume "\<not> e = PromptOpened" "e \<noteq> CancelFlow"
    with st show "login_step f e = f" by (cases e) (auto simp: login_defs)
  qed (use st logs_in_awaiting in \<open>auto simp: login_defs\<close>)
  then show ?thesis unfolding from_pending_def by blast
qed

lemma logs_in_idle: "flow_state f = Idle \<Longrightarrow> logs_in f es \<longleftrightarrow> from_idle es"
proof -
  assume st: "flow_state f = Idle"
  have "logs_in f es \<longleftrightarrow> (\<exists>b e c. es = b @ e # c \<and> list_all (\<lambda>x. \<not> is_StartFlow x) b
      \<and> CancelFlow \<notin> set b \<and> (\<exists>q. e = StartFlow q \<and> enclave_network_up q)
      \<and> from_pending c)"
  proof (rule stage_pass[where s' = PrereqsPending])
    fix e assume "\<not> is_StartFlow e" "e \<noteq> CancelFlow"
    with st show "login_step f e = f" by (cases e) (auto simp: login_defs)
  qed (use st logs_in_pending in \<open>auto simp: login_defs is_StartFlow_def\<close>)
  then show ?thesis unfolding from_idle_def by blast
qed

text \<open>C40. A login ends verified exactly when, with no cancellation anywhere, the first start found
  the enclave network up, the first prompt after it was followed by a first token that is not
  blank, the first persist after that had a valid CA bundle and a running, reachable vault, and the
  first verification after that reached the vault.\<close>

theorem login_verified_iff:
  "login_run p es = TokenVerified \<longleftrightarrow>
     (\<exists>a q1 b c t d q2 e q3 f.
        es = a @ StartFlow q1 # b @ PromptOpened # c @ TokenInput t # d @ PersistToken q2
               # e @ VerifyToken q3 # f
        \<and> list_all (\<lambda>x. \<not> is_StartFlow x) a \<and> enclave_network_up q1
        \<and> list_all (\<lambda>x. x \<noteq> PromptOpened) b
        \<and> list_all (\<lambda>x. \<not> is_TokenInput x) c \<and> trim t \<noteq> []
        \<and> list_all (\<lambda>x. \<not> is_PersistToken x) d
        \<and> ca_bundle_valid q2 \<and> vault_running q2 \<and> vault_reachable q2
        \<and> list_all (\<lambda>x. \<not> is_VerifyToken x) e \<and> vault_reachable q3
        \<and> CancelFlow \<notin> set es)"
proof -
  have guard: "is_possible Persist q = Possible \<longleftrightarrow> ca_bundle_valid q \<and> vault_running q \<and> vault_reachable q"
    for q by simp
  have start: "login_run p es = TokenVerified \<longleftrightarrow> from_idle es"
    unfolding login_run_def by (rule logs_in_idle) (simp add: new_flow_def)
  show ?thesis (is "_ \<longleftrightarrow> ?R")
  proof
    assume "login_run p es = TokenVerified"
    then obtain a q1 r1 where 1: "es = a @ StartFlow q1 # r1" "list_all (\<lambda>x. \<not> is_StartFlow x) a"
        "CancelFlow \<notin> set a" "enclave_network_up q1" "from_pending r1"
      unfolding start from_idle_def by blast
    then obtain b r2 where 2: "r1 = b @ PromptOpened # r2" "list_all (\<lambda>x. x \<noteq> PromptOpened) b"
        "CancelFlow \<notin> set b" "from_awaiting r2"
      unfolding from_pending_def by blast
    then obtain c t r3 where 3: "r2 = c @ TokenInput t # r3" "list_all (\<lambda>x. \<not> is_TokenInput x) c"
        "CancelFlow \<notin> set c" "trim t \<noteq> []" "from_collected r3"
      unfolding from_awaiting_def by blast
    then obtain d q2 r4 where 4: "r3 = d @ PersistToken q2 # r4" "list_all (\<lambda>x. \<not> is_PersistToken x) d"
        "CancelFlow \<notin> set d" "is_possible Persist q2 = Possible" "from_persisted r4"
      unfolding from_collected_def by blast
    then obtain e q3 f where 5: "r4 = e @ VerifyToken q3 # f" "list_all (\<lambda>x. \<not> is_VerifyToken x) e"
        "CancelFlow \<notin> set e" "vault_reachable q3" "CancelFlow \<notin> set f"
      unfolding from_persisted_def by blast
    have es: "es = a @ StartFlow q1 # b @ PromptOpened # c @ TokenInput t # d @ PersistToken q2
               # e @ VerifyToken q3 # f"
      using 1(1) 2(1) 3(1) 4(1) 5(1) by simp
    have "CancelFlow \<notin> set es" unfolding es using 1(3) 2(3) 3(3) 4(3) 5(3,5) by simp
    moreover have "ca_bundle_valid q2 \<and> vault_running q2 \<and> vault_reachable q2" using 4(4) guard by blast
    ultimately show ?R using es 1(2,4) 2(2) 3(2,4) 4(2) 5(2,4) by blast
  next
    assume ?R
    then obtain a q1 b c t d q2 e q3 f where
      es: "es = a @ StartFlow q1 # b @ PromptOpened # c @ TokenInput t # d @ PersistToken q2
               # e @ VerifyToken q3 # f"
      and g: "list_all (\<lambda>x. \<not> is_StartFlow x) a" "enclave_network_up q1"
        "list_all (\<lambda>x. x \<noteq> PromptOpened) b" "list_all (\<lambda>x. \<not> is_TokenInput x) c" "trim t \<noteq> []"
        "list_all (\<lambda>x. \<not> is_PersistToken x) d" "ca_bundle_valid q2" "vault_running q2"
        "vault_reachable q2" "list_all (\<lambda>x. \<not> is_VerifyToken x) e" "vault_reachable q3"
        "CancelFlow \<notin> set es"
      by blast
    have n: "CancelFlow \<notin> set a" "CancelFlow \<notin> set b" "CancelFlow \<notin> set c" "CancelFlow \<notin> set d"
        "CancelFlow \<notin> set e" "CancelFlow \<notin> set f"
      using g(12) unfolding es by simp_all
    have "from_persisted (e @ VerifyToken q3 # f)" unfolding from_persisted_def using g n by blast
    then have "from_collected (d @ PersistToken q2 # e @ VerifyToken q3 # f)"
      unfolding from_collected_def guard using g n by blast
    then have "from_awaiting (c @ TokenInput t # d @ PersistToken q2 # e @ VerifyToken q3 # f)"
      unfolding from_awaiting_def using g n by blast
    then have "from_pending (b @ PromptOpened # c @ TokenInput t # d @ PersistToken q2 # e @ VerifyToken q3 # f)"
      unfolding from_pending_def using n g by blast
    then have "from_idle es" unfolding from_idle_def es using n g by blast
    then show "login_run p es = TokenVerified" using start by blast
  qed
qed

text \<open>The prerequisites of the stages the flow has no transition for do not matter: flipping the
  proxy, the egress network and the git identity in every call changes no state of the flow.\<close>

definition same_core :: "auth_prerequisites \<Rightarrow> auth_prerequisites" where
  "same_core q = q\<lparr>proxy_running := \<not> proxy_running q, egress_network_up := \<not> egress_network_up q,
                  git_identity_configured := \<not> git_identity_configured q\<rparr>"

fun flip_event :: "login_event \<Rightarrow> login_event" where
  "flip_event (StartFlow q) = StartFlow (same_core q)"
| "flip_event (PersistToken q) = PersistToken (same_core q)"
| "flip_event (VerifyToken q) = VerifyToken (same_core q)"
| "flip_event e = e"

theorem login_ignores_unguarded_stages:
  "login_run p (map flip_event es) = login_run p es"
proof -
  have "login_step f (flip_event e) = login_step f e" for f e
    by (cases e) (simp_all add: login_defs same_core_def)
  then have "foldl login_step f (map flip_event es) = foldl login_step f es" for f
    by (induction es arbitrary: f) simp_all
  then show ?thesis by (simp add: login_run_def)
qed

end
