(* ===== verification/Tray_Icon.thy ===== *)
theory Tray_Icon
  imports Base "HOL-Library.Word"
begin

text \<open>
  The work phase of the tray icon (\<open>crates/tillandsias-core/src/tray_icon_state_machine.rs\<close>): a pure
  reducer over progress, completion, failure and menu events. Blush levels are \<open>u8\<close>, counts \<open>u32\<close>,
  and the scaling is done in \<open>u64\<close>, as in the source.
\<close>

definition blush_levels :: "8 word" where "blush_levels = 4"

datatype phase = Plain | Blushing "8 word" | Pups

datatype tray_event = Progress "32 word" "32 word" | Completed | Failed | MenuOpened

definition div_ceil :: "64 word \<Rightarrow> 64 word \<Rightarrow> 64 word" where
  "div_ceil a b = (if a mod b > 0 then a div b + 1 else a div b)"

definition blush_level :: "32 word \<Rightarrow> 32 word \<Rightarrow> 8 word" where
  "blush_level made whole =
     (if whole = 0 then 1
      else let levels = (ucast blush_levels :: 64 word);
               scaled = div_ceil (ucast made * levels) (ucast whole)
           in ucast (min (max scaled 1) levels))"

fun tray_reduce :: "phase \<Rightarrow> tray_event \<Rightarrow> phase" where
  "tray_reduce (Blushing old) (Progress made whole) = Blushing (max old (blush_level made whole))"
| "tray_reduce _ (Progress made whole) = Blushing (blush_level made whole)"
| "tray_reduce (Blushing _) Completed = Pups"
| "tray_reduce Plain Completed = Plain"
| "tray_reduce Pups Completed = Pups"
| "tray_reduce _ Failed = Plain"
| "tray_reduce Pups MenuOpened = Plain"
| "tray_reduce p MenuOpened = p"

definition tray_run :: "tray_event list \<Rightarrow> phase" where
  "tray_run es = foldl tray_reduce Plain es"

lemma unat_lt_32: "unat (w :: 32 word) < 2 ^ 32"
  using unsigned_less[of w] by simp

lemma unat_ucast_up: "unat (ucast (w :: 32 word) :: 64 word) = unat w"
  proof -
  have "unat w < 2 ^ 32" by (rule unat_lt_32)
  then show ?thesis by (simp add: unsigned_ucast_eq take_bit_nat_eq_self)
qed

lemma unat_div_ceil:
  assumes "b \<noteq> 0" and "unat a < 2 ^ 63"
  shows "unat (div_ceil a b) = (unat a + unat b - 1) div unat b"
proof -
  have b: "0 < unat b" using assms(1) by (simp add: unat_gt_0)
  have pos: "a mod b > 0 \<longleftrightarrow> unat a mod unat b > 0"
    by (metis unat_mod unat_gt_0 word_neq_0_conv)
  have small: "unat a div unat b + 1 < 2 ^ 64"
  proof -
    have "unat a div unat b \<le> unat a" by (rule div_le_dividend)
    then have "unat a div unat b < 2 ^ 63" using assms(2) by linarith
    then show ?thesis by simp
  qed
  have inc: "unat (a div b + 1) = unat a div unat b + 1"
    using small by (simp add: unat_word_ariths unat_div)
  have split: "unat a = unat b * (unat a div unat b) + unat a mod unat b" by simp
  show ?thesis
  proof (cases "unat a mod unat b = 0")
    case True
    then have "unat a + unat b - 1 = (unat b - 1) + unat b * (unat a div unat b)"
      using split b by simp
    then have "(unat a + unat b - 1) div unat b = (unat b - 1) div unat b + unat a div unat b"
      using b by (metis div_mult_self2 less_not_refl3 add.commute)
    then have "(unat a + unat b - 1) div unat b = unat a div unat b" using b by simp
    with True pos show ?thesis by (simp add: div_ceil_def unat_div)
  next
    case False
    have "unat a + unat b - 1 = (unat a mod unat b - 1) + unat b * (unat a div unat b + 1)"
      using split False b by (simp only: distrib_left mult_1_right)
    then have "(unat a + unat b - 1) div unat b = (unat a mod unat b - 1) div unat b + (unat a div unat b + 1)"
      using b by (metis div_mult_self2 less_not_refl3 add.commute)
    moreover have "(unat a mod unat b - 1) div unat b = 0"
      using b by (simp add: less_imp_diff_less)
    ultimately show ?thesis using False pos inc by (simp add: div_ceil_def)
  qed
qed

lemma blush_level_value:
  "unat (blush_level made whole) =
     (if whole = 0 then 1 else min 4 (max 1 ((4 * unat made + unat whole - 1) div unat whole)))"
proof (cases "whole = 0")
  case True
  then show ?thesis by (simp add: blush_level_def)
next
  case False
  define s where "s = div_ceil (ucast made * (ucast blush_levels :: 64 word)) (ucast whole)"
  have lm: "unat made < 2 ^ 32" by (rule unat_lt_32)
  have prod: "unat (ucast made * (ucast blush_levels :: 64 word)) = 4 * unat made"
    using lm by (simp add: unat_word_ariths unat_ucast_up blush_levels_def)
  have "(ucast whole :: 64 word) \<noteq> 0"
    using False by (metis unat_eq_zero unat_ucast_up)
  then have s: "unat s = (4 * unat made + unat whole - 1) div unat whole"
    unfolding s_def using lm by (subst unat_div_ceil) (simp_all add: prod unat_ucast_up)
  have le: "s \<le> 4 \<longleftrightarrow> unat s \<le> 4" "1 \<le> s \<longleftrightarrow> 1 \<le> unat s"
    by (simp_all add: word_le_nat_alt)
  have "unat (ucast (min (max s 1) 4 :: 64 word) :: 8 word) = min 4 (max 1 (unat s))"
  proof -
    have w: "unat (min (max s 1) 4) = min 4 (max 1 (unat s))"
      using le by (auto simp: min_def max_def)
    then have "unat (min (max s 1) 4) < 2 ^ 8" by simp
    then show ?thesis using w by (simp add: unsigned_ucast_eq take_bit_nat_eq_self)
  qed
  with False s show ?thesis by (simp add: blush_level_def Let_def s_def blush_levels_def)
qed


lemma blush_level_range: "1 \<le> unat (blush_level made whole) \<and> unat (blush_level made whole) \<le> 4"
  by (simp add: blush_level_value)

lemma tray_Pups_snoc: "tray_reduce p e = Pups \<longleftrightarrow> e = Completed \<and> p \<noteq> Plain"
  by (cases p; cases e) auto

lemma tray_Blushing_snoc:
  "(\<exists>l. tray_reduce p e = Blushing l) \<longleftrightarrow>
     (\<exists>d t. e = Progress d t) \<or> (e = MenuOpened \<and> (\<exists>l. p = Blushing l))"
  by (cases p; cases e) auto

fun work_goes_on :: "tray_event \<Rightarrow> bool" where
  "work_goes_on (Progress _ _) = True"
| "work_goes_on MenuOpened = True"
| "work_goes_on _ = False"

lemma work_goes_on_cases: "work_goes_on e \<longleftrightarrow> (\<exists>d t. e = Progress d t) \<or> e = MenuOpened"
  by (cases e) auto

lemma tray_run_snoc: "tray_run (es @ [e]) = tray_reduce (tray_run es) e"
  by (simp add: tray_run_def)

lemma tray_run_blushing:
  "(\<exists>l. tray_run es = Blushing l) \<longleftrightarrow>
     (\<exists>a d t b. es = a @ Progress d t # b \<and> list_all work_goes_on b)"
proof (induction es rule: rev_induct)
  case Nil
  then show ?case by (simp add: tray_run_def)
next
  case (snoc e es)
  note IH = snoc.IH
  show ?case (is "_ \<longleftrightarrow> ?R (es @ [e])")
  proof
    assume "\<exists>l. tray_run (es @ [e]) = Blushing l"
    then consider d t where "e = Progress d t" | "e = MenuOpened" "?R es"
      unfolding tray_run_snoc tray_Blushing_snoc snoc.IH by blast
    then show "?R (es @ [e])"
    proof cases
      case (1 d t)
      then show ?thesis by (intro exI[of _ es] exI[of _ d] exI[of _ t] exI[of _ "[]"]) simp
    next
      case 2
      then obtain a d t b where "es = a @ Progress d t # b" "list_all work_goes_on b" by blast
      with 2(1) show ?thesis by (intro exI[of _ a] exI[of _ d] exI[of _ t] exI[of _ "b @ [e]"]) simp
    qed
  next
    assume "?R (es @ [e])"
    then obtain a d t b where split: "es @ [e] = a @ Progress d t # b" "list_all work_goes_on b" by blast
    show "\<exists>l. tray_run (es @ [e]) = Blushing l"
    proof (cases b rule: rev_cases)
      case Nil
      with split show ?thesis unfolding tray_run_snoc tray_Blushing_snoc by simp
    next
      case (snoc b' x)
      with split have "e = x" "es = a @ Progress d t # b'" "list_all work_goes_on b'" "work_goes_on e"
        by simp_all
      then have "\<exists>l. tray_run es = Blushing l" using IH by blast
      then show ?thesis
        unfolding tray_run_snoc tray_Blushing_snoc using \<open>work_goes_on e\<close> by (cases e) auto
    qed
  qed
qed

text \<open>Pups are shown exactly when some progress was seen, the work went on without a failure until
  it completed, and nothing but further completions came since: no menu opened, no failure, no new
  work.\<close>

theorem pups_iff_finished_work:
  "tray_run es = Pups \<longleftrightarrow>
     (\<exists>a d t b c. es = a @ Progress d t # b @ Completed # c
        \<and> list_all work_goes_on b \<and> list_all ((=) Completed) c)"
proof (induction es rule: rev_induct)
  case Nil
  then show ?case by (simp add: tray_run_def)
next
  case (snoc e es)
  note IH = snoc.IH
  show ?case (is "_ \<longleftrightarrow> ?R (es @ [e])")
  proof
    assume "tray_run (es @ [e]) = Pups"
    then have e: "e = Completed" and "tray_run es \<noteq> Plain" unfolding tray_run_snoc tray_Pups_snoc by auto
    then consider "\<exists>l. tray_run es = Blushing l" | "?R es" using snoc.IH by (cases "tray_run es") auto
    then show "?R (es @ [e])"
    proof cases
      case 1
      then obtain a d t b where "es = a @ Progress d t # b" "list_all work_goes_on b"
        unfolding tray_run_blushing by blast
      with e show ?thesis
        by (intro exI[of _ a] exI[of _ d] exI[of _ t] exI[of _ b] exI[of _ "[]"]) simp
    next
      case 2
      then obtain a d t b c where "es = a @ Progress d t # b @ Completed # c" "list_all work_goes_on b"
          "list_all ((=) Completed) c" by blast
      with e show ?thesis
        by (intro exI[of _ a] exI[of _ d] exI[of _ t] exI[of _ b] exI[of _ "c @ [e]"]) simp
    qed
  next
    assume "?R (es @ [e])"
    then obtain a d t b c where split: "es @ [e] = a @ Progress d t # b @ Completed # c"
        "list_all work_goes_on b" "list_all ((=) Completed) c" by blast
    show "tray_run (es @ [e]) = Pups"
    proof (cases c rule: rev_cases)
      case Nil
      with split have e: "e = Completed" and "es = a @ Progress d t # b" by simp_all
      then have "\<exists>l. tray_run es = Blushing l" unfolding tray_run_blushing using split(2) by blast
      with e show ?thesis unfolding tray_run_snoc tray_Pups_snoc by auto
    next
      case (snoc c' x)
      with split have "e = Completed" "es = a @ Progress d t # b @ Completed # c'"
          "list_all ((=) Completed) c'" by auto
      moreover from this split(2) have "?R es" by blast
      ultimately show ?thesis unfolding tray_run_snoc tray_Pups_snoc using IH by auto
    qed
  qed
qed

text \<open>While work goes on the blush never fades: after any further progress reports and menu
  openings the icon still blushes, at least as deeply, and never deeper than level four.\<close>

theorem blush_never_fades:
  assumes "list_all work_goes_on es" and "l \<le> 4"
  shows "\<exists>l'. foldl tray_reduce (Blushing l) es = Blushing l' \<and> l \<le> l' \<and> l' \<le> 4"
  using assms
proof (induction es arbitrary: l)
  case (Cons e es)
  show ?case
  proof (cases e)
    case (Progress d t)
    have "blush_level d t \<le> 4" using blush_level_range[of d t] by (simp add: word_le_nat_alt)
    then have "\<exists>l'. foldl tray_reduce (Blushing (max l (blush_level d t))) es = Blushing l'
        \<and> max l (blush_level d t) \<le> l' \<and> l' \<le> 4"
      using Cons by (intro Cons.IH) auto
    with Progress show ?thesis by auto
  qed (use Cons in auto)
qed auto

theorem blush_never_fades_witness:
  "\<exists>l'. foldl tray_reduce (Blushing 2) [Progress 1 9, MenuOpened] = Blushing l' \<and> 2 \<le> l' \<and> l' \<le> 4"
  by (rule blush_never_fades) simp_all

end
