(* ===== verification/Version_Guard.thy ===== *)
theory Version_Guard
  imports Base "HOL-Library.Multiset"
begin

text \<open>
  The downgrade guard (\<open>crates/tillandsias-core/src/version_guard.rs\<close>): the four-component version
  with its derived lexicographic order, its parser and printer, the verdict over the image tags and
  the refusal text. The components are \<open>u64\<close>; the parser rejects anything larger.
\<close>

datatype app_version = AppVersion (major: nat) (minor: nat) (date: nat) (build: nat)

instantiation app_version :: linorder
begin

definition less_app_version :: "app_version \<Rightarrow> app_version \<Rightarrow> bool" where
  "less_app_version a b \<longleftrightarrow>
     major a < major b
     \<or> major a = major b \<and> (minor a < minor b
     \<or> minor a = minor b \<and> (date a < date b
     \<or> date a = date b \<and> build a < build b))"

definition less_eq_app_version :: "app_version \<Rightarrow> app_version \<Rightarrow> bool" where
  "less_eq_app_version a b \<longleftrightarrow> a < b \<or> a = (b :: app_version)"

instance
proof
  fix x y z :: app_version
  show "x \<le> y \<or> y \<le> x"
    by (cases x; cases y) (auto simp: less_app_version_def less_eq_app_version_def)
qed (auto simp: less_app_version_def less_eq_app_version_def)

end

definition show_app_version :: "app_version \<Rightarrow> string" where
  "show_app_version v =
     show_nat (major v) @ ''.'' @ show_nat (minor v) @ ''.'' @ show_nat (date v) @ ''.'' @ show_nat (build v)"

definition parse_app_version :: "string \<Rightarrow> app_version option" where
  "parse_app_version raw =
     (let t = trim raw;
          t = (case strip_prefix ''v'' t of Some r \<Rightarrow> r | None \<Rightarrow> t)
      in case split_on (CHR ''.'') t of
           [a, b, c, d] \<Rightarrow>
             (case (parse_u64 a, parse_u64 b, parse_u64 c, parse_u64 d) of
                (Some major', Some minor', Some date', Some build') \<Rightarrow>
                  Some (AppVersion major' minor' date' build')
              | _ \<Rightarrow> None)
         | _ \<Rightarrow> None)"

datatype downgrade_verdict =
  Proceed
| Refuse app_version app_version string
| ForcedProceed app_version app_version string

text \<open>\<open>Iterator::max_by\<close>: the last of the greatest elements.\<close>

fun max_by :: "('a \<Rightarrow> 'a \<Rightarrow> ordering) \<Rightarrow> 'a list \<Rightarrow> 'a option" where
  "max_by c [] = None"
| "max_by c (x # xs) = Some (foldl (\<lambda>m y. if c m y = Greater then m else y) x xs)"

definition tagged_version :: "string \<Rightarrow> (app_version \<times> string) option" where
  "tagged_version tag =
     (case rsplit_once (CHR '':'') tag of
        None \<Rightarrow> None
      | Some (_, version_part) \<Rightarrow> map_option (\<lambda>v. (v, tag)) (parse_app_version version_part))"

definition decide_downgrade :: "string \<Rightarrow> string list \<Rightarrow> bool \<Rightarrow> downgrade_verdict option" where
  "decide_downgrade app_version image_tags force =
     (case parse_app_version app_version of
        None \<Rightarrow> None
      | Some app \<Rightarrow>
          (case max_by (\<lambda>a b. cmp (fst a) (fst b)) (List.map_filter tagged_version image_tags) of
             None \<Rightarrow> Some Proceed
           | Some (img, tag) \<Rightarrow>
               (case cmp img app of
                  Greater \<Rightarrow> if force then Some (ForcedProceed app img tag) else Some (Refuse app img tag)
                | _ \<Rightarrow> Some Proceed)))"

text \<open>The refusal text; the three bytes are the UTF-8 form of its dash.\<close>

definition refusal_message :: "app_version \<Rightarrow> app_version \<Rightarrow> string \<Rightarrow> string" where
  "refusal_message app img tag =
     ''This Tillandsias app is OLDER than the enclave it is pointed at.'' @ [CHR 10]
     @ [CHR 10] @ ''  this app : '' @ show_app_version app @ [CHR 10]
     @ ''  images   : '' @ show_app_version img @ ''  (from '' @ tag @ '')'' @ [CHR 10, CHR 10]
     @ ''Continuing would rebuild the enclave's images from this older app's embedded assets, ''
     @ ''silently replacing a newer runtime with an older one '' @ [CHR 0xE2, CHR 0x80, CHR 0x94]
     @ '' image freshness is decided by ''
     @ ''content identity, so an older app does not recognise a newer image as newer.'' @ [CHR 10, CHR 10]
     @ ''Please update the Tillandsias app, or launch the newer build you already have.'' @ [CHR 10]
     @ ''If you really mean to roll the enclave back, re-run with --force-downgrade.''"

lemma max_fold:
  fixes key :: "'a \<Rightarrow> 'k::linorder"
  defines "m \<equiv> foldl (\<lambda>m y. if cmp (key m) (key y) = Greater then m else y)"
  shows "m x xs \<in> insert x (set xs)" and "\<forall>y \<in> insert x (set xs). key y \<le> key (m x xs)"
proof (induction xs arbitrary: x)
  case Nil
  { case 1 show ?case by (simp add: m_def) next case 2 show ?case by (simp add: m_def) }
next
  case (Cons y ys)
  { case 1 show ?case using Cons(1)[of "if key y < key x then x else y"] by (auto simp: m_def)
  next
    case 2 show ?case using Cons(2)[of "if key y < key x then x else y"]
      by (auto simp: m_def split: if_splits dest: order_trans) }
qed

lemma max_by_None [simp]: "max_by c xs = None \<longleftrightarrow> xs = []"
  by (cases xs) auto

lemma max_by_Some:
  fixes key :: "'a \<Rightarrow> 'k::linorder"
  assumes "max_by (\<lambda>a b. cmp (key a) (key b)) xs = Some x"
  shows "x \<in> set xs" and "\<forall>y \<in> set xs. key y \<le> key x"
  using assms max_fold[where key = key] by (cases xs; force)+


lemma map_filter_iff: "y \<in> set (List.map_filter f xs) \<longleftrightarrow> (\<exists>x \<in> set xs. f x = Some y)"
  by (induction xs) (auto simp: List.map_filter_simps split: option.splits)

lemma tagged_version_tag: "tagged_version t = Some (v, t') \<Longrightarrow> t' = t"
  by (auto simp: tagged_version_def split: option.splits)

text \<open>The versions the guard compares: one for each tag that carries one.\<close>

definition carries :: "string list \<Rightarrow> app_version \<Rightarrow> string \<Rightarrow> bool" where
  "carries tags v tag \<longleftrightarrow> tag \<in> set tags \<and> tagged_version tag = Some (v, tag)"

lemma in_map_filter: "(v, tag) \<in> set (List.map_filter tagged_version tags) \<longleftrightarrow> carries tags v tag"
  by (auto simp: map_filter_iff carries_def dest: tagged_version_tag)

lemma digit_token: "is_ascii_digit c \<Longrightarrow> token_byte c"
  by (auto simp: is_ascii_digit_def token_byte_def)

lemma show_nat_tokens: "list_all token_byte (show_nat n)"
  using show_nat_digits[of n] digit_token by (auto simp: list_all_iff)

lemma show_nat_digit_only: "\<not> is_ascii_digit c \<Longrightarrow> c \<notin> set (show_nat n)"
  using show_nat_digits[of n] by (auto simp: list_all_iff)

lemma show_nat_no_dot: "CHR ''.'' \<notin> set (show_nat n)"
  by (rule show_nat_digit_only) (simp add: is_ascii_digit_def)

lemma show_nat_no_v: "CHR ''v'' \<notin> set (show_nat n)"
  by (rule show_nat_digit_only) (simp add: is_ascii_digit_def)

lemma show_nat_no_colon: "CHR '':'' \<notin> set (show_nat n)"
  by (rule show_nat_digit_only) (simp add: is_ascii_digit_def)

lemma split_show_app_version:
  "split_on (CHR ''.'') (show_app_version v)
     = [show_nat (major v), show_nat (minor v), show_nat (date v), show_nat (build v)]"
  by (simp add: show_app_version_def split_on_append split_on_single show_nat_no_dot)

lemma show_app_version_tokens: "list_all token_byte (show_app_version v)"
  by (simp add: show_app_version_def show_nat_tokens) (simp add: token_byte_def)

lemma show_app_version_no_v: "CHR ''v'' \<notin> set (show_app_version v)"
  by (simp add: show_app_version_def show_nat_no_v)

lemma show_app_version_no_colon: "CHR '':'' \<notin> set (show_app_version v)"
  by (simp add: show_app_version_def show_nat_no_colon)

lemma show_app_version_nonempty [simp]: "show_app_version v \<noteq> []"
  by (simp add: show_app_version_def)

definition fits_u64 :: "app_version \<Rightarrow> bool" where
  "fits_u64 v \<longleftrightarrow> major v < 2 ^ 64 \<and> minor v < 2 ^ 64 \<and> date v < 2 ^ 64 \<and> build v < 2 ^ 64"

lemma parse_components:
  assumes "fits_u64 v"
  shows "parse_u64 (show_nat (major v)) = Some (major v)" "parse_u64 (show_nat (minor v)) = Some (minor v)"
    "parse_u64 (show_nat (date v)) = Some (date v)" "parse_u64 (show_nat (build v)) = Some (build v)"
  using assms by (simp_all add: fits_u64_def parse_u64_show_nat)

lemma strip_prefix_v:
  "strip_prefix ''v'' (''v'' @ s) = Some s"
  "CHR ''v'' \<notin> set s \<Longrightarrow> strip_prefix ''v'' s = None"
proof -
  show "strip_prefix ''v'' (''v'' @ s) = Some s" by (simp add: strip_prefix_def starts_with_def)
  assume "CHR ''v'' \<notin> set s"
  then have "\<not> starts_with ''v'' s" by (cases s) (auto simp: starts_with_def)
  then show "strip_prefix ''v'' s = None" by (simp add: strip_prefix_def)
qed

lemma parse_show:
  assumes "fits_u64 v"
  shows "parse_app_version (show_app_version v) = Some v"
    "parse_app_version (''v'' @ show_app_version v) = Some v"
proof -
  have t: "trim (show_app_version v) = show_app_version v"
    "trim (''v'' @ show_app_version v) = ''v'' @ show_app_version v"
    using show_app_version_tokens[of v] by (auto intro!: trim_visible simp: token_byte_def)
  show "parse_app_version (show_app_version v) = Some v"
    unfolding parse_app_version_def Let_def t(1) strip_prefix_v(2)[OF show_app_version_no_v] option.case
      split_show_app_version by (simp add: parse_components[OF assms])
  show "parse_app_version (''v'' @ show_app_version v) = Some v"
    unfolding parse_app_version_def Let_def t(2) strip_prefix_v(1) option.case
      split_show_app_version by (simp add: parse_components[OF assms])
qed

text \<open>A repository, a colon, a \<open>v\<close> and a printed version.\<close>

lemma rsplit_once_last: "c \<notin> set b \<Longrightarrow> rsplit_once c (a @ c # b) = Some (a, b)"
  by (simp add: rsplit_once_def split_once_append)

lemma tagged_version_release:
  assumes "fits_u64 v"
  shows "tagged_version (r @ '':v'' @ show_app_version v) = Some (v, r @ '':v'' @ show_app_version v)"
proof -
  have "rsplit_once (CHR '':'') (r @ CHR '':'' # ''v'' @ show_app_version v) = Some (r, ''v'' @ show_app_version v)"
    by (rule rsplit_once_last) (simp add: show_app_version_no_colon)
  then show ?thesis using parse_show(2)[OF assms] by (simp add: tagged_version_def)
qed

text \<open>The guard refuses exactly when the operator did not force it and some tag carries a version
  above the application's; it then names the greatest version among the tags and a tag that
  carries it. With the override the same pair is reported as a forced proceed; a tag without a
  version plays no part.\<close>

theorem downgrade_verdict_spec:
  assumes "parse_app_version app_version = Some app"
  shows "if \<exists>v t. carries tags v t \<and> app < v
    then \<exists>v t. carries tags v t \<and> app < v \<and> (\<forall>w u. carries tags w u \<longrightarrow> w \<le> v)
      \<and> decide_downgrade app_version tags force
          = Some (if force then ForcedProceed app v t else Refuse app v t)
    else decide_downgrade app_version tags force = Some Proceed"
proof (cases "max_by (\<lambda>a b. cmp (fst a) (fst b)) (List.map_filter tagged_version tags)")
  case None
  then have "List.map_filter tagged_version tags = []" by simp
  then have "\<nexists>v t. carries tags v t" by (metis in_map_filter empty_iff empty_set)
  with None assms show ?thesis by (auto simp: decide_downgrade_def)
next
  case (Some vt)
  obtain v t where vt: "vt = (v, t)" by (cases vt)
  have c: "carries tags v t" and greatest: "\<forall>w u. carries tags w u \<longrightarrow> w \<le> v"
    using max_by_Some[OF Some] unfolding vt in_map_filter[symmetric] by force+
  show ?thesis
  proof (cases "app < v")
    case True
    then have "cmp v app = Greater" by (simp only: cmp_simps)
    with assms Some vt
    have "decide_downgrade app_version tags force
        = Some (if force then ForcedProceed app v t else Refuse app v t)"
      by (simp add: decide_downgrade_def del: cmp_simps)
    with True c greatest show ?thesis by auto
  next
    case False
    with greatest have "\<nexists>v t. carries tags v t \<and> app < v" by fastforce
    moreover from False have "cmp v app \<noteq> Greater" by simp
    ultimately show ?thesis using assms Some vt
      by (auto simp: decide_downgrade_def split: ordering.splits)
  qed
qed

definition sample_app :: app_version where "sample_app = AppVersion 0 4 9 1"
definition sample_newer :: app_version where "sample_newer = AppVersion 0 4 9 10"
definition sample_tag :: string where "sample_tag = ''forge'' @ '':v'' @ show_app_version sample_newer"

lemma sample_fits: "fits_u64 sample_app" "fits_u64 sample_newer"
  by (simp_all add: fits_u64_def sample_app_def sample_newer_def)

theorem downgrade_verdict_spec_witness:
  "\<exists>v t. carries [''forge:latest'', sample_tag] v t \<and> sample_app < v
     \<and> decide_downgrade (show_app_version sample_app) [''forge:latest'', sample_tag] False
         = Some (Refuse sample_app v t)"
proof -
  have "tagged_version sample_tag = Some (sample_newer, sample_tag)"
    unfolding sample_tag_def by (rule tagged_version_release[OF sample_fits(2)])
  then have "carries [''forge:latest'', sample_tag] sample_newer sample_tag" by (simp add: carries_def)
  moreover have "sample_app < sample_newer"
    by (simp add: less_app_version_def sample_app_def sample_newer_def)
  ultimately have "\<exists>v t. carries [''forge:latest'', sample_tag] v t \<and> sample_app < v" by blast
  with downgrade_verdict_spec[OF parse_show(1)[OF sample_fits(1)], of "[''forge:latest'', sample_tag]" False]
  show ?thesis by auto
qed

text \<open>A printed version is read back, bare and after a \<open>v\<close>, for all components of 64 bits.\<close>

theorem app_version_round_trip:
  assumes "fits_u64 v"
  shows "parse_app_version (show_app_version v) = Some v
    \<and> parse_app_version (''v'' @ show_app_version v) = Some v"
  using parse_show[OF assms] by simp

theorem app_version_round_trip_witness:
  "parse_app_version (show_app_version sample_newer) = Some sample_newer
    \<and> parse_app_version (''v'' @ show_app_version sample_newer) = Some sample_newer"
  by (rule app_version_round_trip[OF sample_fits(2)])

end
