(* ===== verification/Crash_Loop.thy ===== *)
theory Crash_Loop
  imports Rust_Std
begin

text \<open>
  Guest crash-loop detection and the automatic reset policy
  (\<open>crates/tillandsias-control-wire/src/lib.rs\<close>, module \<open>crashloop\<close>): the verdict grammar, phase
  regressions, the windowed detector with its state file, and the bounded, backed-off resets.
  The clock is an argument, as in the source. Times are \<open>u64\<close>, counts \<open>u32\<close>.
\<close>

subsection \<open>Phases, subsystems and verdicts\<close>

datatype vm_phase = Provisioning | Starting | Ready | Draining | Stopping | Failed

datatype crash_loop_subsystem = Guest | VaultUnseal | Handshake

datatype guest_health = Healthy | BringingUp | CrashLoop crash_loop_subsystem

fun subsystem_slug :: "crash_loop_subsystem \<Rightarrow> string" where
  "subsystem_slug Guest = ''guest''"
| "subsystem_slug VaultUnseal = ''vault-unseal''"
| "subsystem_slug Handshake = ''handshake''"

definition subsystem_from_slug :: "string \<Rightarrow> crash_loop_subsystem option" where
  "subsystem_from_slug s =
     (if s = ''guest'' then Some Guest
      else if s = ''vault-unseal'' then Some VaultUnseal
      else if s = ''handshake'' then Some Handshake
      else None)"

fun health_verdict :: "guest_health \<Rightarrow> string" where
  "health_verdict Healthy = ''healthy''"
| "health_verdict BringingUp = ''starting''"
| "health_verdict (CrashLoop sub) = ''crash-loop:'' @ subsystem_slug sub"

fun is_crash_loop :: "guest_health \<Rightarrow> bool" where
  "is_crash_loop (CrashLoop _) = True"
| "is_crash_loop _ = False"

definition verdict_matches_grammar :: "string \<Rightarrow> bool" where
  "verdict_matches_grammar s =
     (if s = ''healthy'' \<or> s = ''starting'' then True
      else (case strip_prefix ''crash-loop:'' s of
              Some sub \<Rightarrow> sub \<noteq> [] \<and>
                list_all (\<lambda>b. is_ascii_lowercase b \<or> is_ascii_digit b \<or> b = CHR ''-'') sub
            | None \<Rightarrow> False))"

fun phase_rank :: "vm_phase \<Rightarrow> nat option" where
  "phase_rank Failed = Some 0"
| "phase_rank Provisioning = Some 1"
| "phase_rank Starting = Some 2"
| "phase_rank Ready = Some 3"
| "phase_rank Draining = None"
| "phase_rank Stopping = None"

definition is_phase_regression :: "vm_phase \<Rightarrow> vm_phase \<Rightarrow> bool" where
  "is_phase_regression prev next_phase =
     (case (phase_rank prev, phase_rank next_phase) of
        (Some p, Some n) \<Rightarrow> n < p
      | _ \<Rightarrow> False)"

fun phase_slug :: "vm_phase \<Rightarrow> string" where
  "phase_slug Provisioning = ''provisioning''"
| "phase_slug Starting = ''starting''"
| "phase_slug Ready = ''ready''"
| "phase_slug Draining = ''draining''"
| "phase_slug Stopping = ''stopping''"
| "phase_slug Failed = ''failed''"

definition phase_from_slug :: "string \<Rightarrow> vm_phase option" where
  "phase_from_slug s =
     (if s = ''provisioning'' then Some Provisioning
      else if s = ''starting'' then Some Starting
      else if s = ''ready'' then Some Ready
      else if s = ''draining'' then Some Draining
      else if s = ''stopping'' then Some Stopping
      else if s = ''failed'' then Some Failed
      else None)"

definition classify_last_event :: "string \<Rightarrow> crash_loop_subsystem option" where
  "classify_last_event last_event =
     (let lc = to_ascii_lowercase last_event
      in if contains_text ''unseal'' lc \<or> contains_text ''vault seal'' lc
            \<or> contains_text ''sealed vault'' lc
         then Some VaultUnseal
         else if contains_text ''handshake'' lc \<or> contains_text ''connect timeout'' lc
            \<or> contains_text ''wire timeout'' lc \<or> contains_text ''connect timed out'' lc
         then Some Handshake
         else None)"

subsection \<open>The detector\<close>

record crash_event =
  at_unix :: "64 word"
  ev_subsystem :: crash_loop_subsystem

text \<open>The queue of events is a list, its front first.\<close>

record crash_loop_detector =
  window_secs :: "64 word"
  threshold :: "32 word"
  written_at :: "64 word option"
  crash_events :: "crash_event list"
  last_ranked_phase :: "vm_phase option"
  ever_ready :: bool

definition default_window_secs :: "64 word" where "default_window_secs = 180"

definition default_threshold :: "32 word" where "default_threshold = 3"

definition detector_new :: "64 word \<Rightarrow> 32 word \<Rightarrow> crash_loop_detector" where
  "detector_new window thr =
     \<lparr>window_secs = window, threshold = max thr 1, written_at = None, crash_events = [],
      last_ranked_phase = None, ever_ready = False\<rparr>"

definition detector_defaults :: crash_loop_detector where
  "detector_defaults = detector_new default_window_secs default_threshold"

definition prune :: "64 word \<Rightarrow> crash_loop_detector \<Rightarrow> crash_loop_detector" where
  "prune now d =
     (let floor = saturating_sub now (window_secs d)
      in d\<lparr>crash_events := dropWhile (\<lambda>e. at_unix e < floor) (crash_events d)\<rparr>)"

text \<open>\<open>events.len() as u32\<close> keeps the low 32 bits of the length.\<close>

definition detector_verdict :: "64 word \<Rightarrow> crash_loop_detector \<Rightarrow> guest_health \<times> crash_loop_detector" where
  "detector_verdict now d =
     (let d' = prune now d
      in (if threshold d' \<le> word_of_nat (length (crash_events d'))
          then CrashLoop (if crash_events d' = [] then Guest else ev_subsystem (last (crash_events d')))
          else if ever_ready d' \<and> last_ranked_phase d' = Some Ready then Healthy
          else BringingUp, d'))"

definition push_crash_event :: "64 word \<Rightarrow> crash_loop_subsystem \<Rightarrow> crash_loop_detector \<Rightarrow> crash_loop_detector" where
  "push_crash_event now sub d =
     d\<lparr>crash_events := crash_events d @ [\<lparr>at_unix = now, ev_subsystem = sub\<rparr>]\<rparr>"

definition attributed :: "string option \<Rightarrow> crash_loop_subsystem" where
  "attributed last_event =
     (case Option.bind last_event classify_last_event of Some sub \<Rightarrow> sub | None \<Rightarrow> Guest)"

definition observe_phase ::
  "vm_phase \<Rightarrow> string option \<Rightarrow> 64 word \<Rightarrow> crash_loop_detector \<Rightarrow> guest_health \<times> crash_loop_detector" where
  "observe_phase ph last_event now d =
     detector_verdict now
       (if phase_rank ph = None then d
        else let d1 = (case last_ranked_phase d of
                         Some prev \<Rightarrow>
                           if is_phase_regression prev ph
                           then push_crash_event now (attributed last_event) d else d
                       | None \<Rightarrow> d);
                 d2 = d1\<lparr>last_ranked_phase := Some ph\<rparr>
             in if ph = Ready then d2\<lparr>ever_ready := True\<rparr> else d2)"

definition record_failure ::
  "crash_loop_subsystem \<Rightarrow> 64 word \<Rightarrow> crash_loop_detector \<Rightarrow> guest_health \<times> crash_loop_detector" where
  "record_failure sub now d = detector_verdict now (push_crash_event now sub d)"

subsection \<open>The state file\<close>

definition state_lines :: "64 word \<Rightarrow> crash_loop_detector \<Rightarrow> string list" where
  "state_lines now d =
     [''tillandsias-crashloop-state v1'',
      ''written_at '' @ show_word now,
      ''window_secs '' @ show_word (window_secs d),
      ''threshold '' @ show_word (threshold d),
      ''ever_ready '' @ (if ever_ready d then ''1'' else ''0'')]
     @ (case last_ranked_phase d of Some ph \<Rightarrow> [''last_phase '' @ phase_slug ph] | None \<Rightarrow> [])
     @ map (\<lambda>e. ''event '' @ show_word (at_unix e) @ '' '' @ subsystem_slug (ev_subsystem e))
         (crash_events d)"

definition to_state_string_at :: "64 word \<Rightarrow> crash_loop_detector \<Rightarrow> string" where
  "to_state_string_at now d = unlines (state_lines now d)"

text \<open>\<open>parts.next()\<close> is the first of the words left, and the rest stay.\<close>

definition next_word :: "string list \<Rightarrow> string option" where
  "next_word ws = (case ws of [] \<Rightarrow> None | w # _ \<Rightarrow> Some w)"

definition state_event :: "string list \<Rightarrow> crash_event option" where
  "state_event ws =
     (case (Option.bind (next_word ws) parse_word64,
            Option.bind (next_word (tl ws)) subsystem_from_slug) of
        (Some at, Some sub) \<Rightarrow> Some \<lparr>at_unix = at, ev_subsystem = sub\<rparr>
      | _ \<Rightarrow> None)"

definition state_line :: "crash_loop_detector \<Rightarrow> string \<Rightarrow> crash_loop_detector" where
  "state_line d line =
     (case split_whitespace line of
        [] \<Rightarrow> d
      | key # ws \<Rightarrow>
          if key = ''window_secs'' then
            (case Option.bind (next_word ws) parse_word64 of Some v \<Rightarrow> d\<lparr>window_secs := v\<rparr> | None \<Rightarrow> d)
          else if key = ''threshold'' then
            (case Option.bind (next_word ws) parse_word32 of
               Some v \<Rightarrow> d\<lparr>threshold := max v 1\<rparr> | None \<Rightarrow> d)
          else if key = ''ever_ready'' then d\<lparr>ever_ready := (next_word ws = Some ''1'')\<rparr>
          else if key = ''written_at'' then
            d\<lparr>written_at := Option.bind (next_word ws) parse_word64\<rparr>
          else if key = ''last_phase'' then
            d\<lparr>last_ranked_phase := Option.bind (next_word ws) phase_from_slug\<rparr>
          else if key = ''event'' then
            (case state_event ws of
               Some e \<Rightarrow> d\<lparr>crash_events := crash_events d @ [e]\<rparr> | None \<Rightarrow> d)
          else d)"

definition from_state_string :: "string \<Rightarrow> crash_loop_detector" where
  "from_state_string s =
     foldl state_line
       (detector_defaults\<lparr>crash_events := [], last_ranked_phase := None, ever_ready := False\<rparr>) (lines s)"

text \<open>\<open>load\<close>: what reading the file returned, if it could be read.\<close>

definition load_detector :: "string option \<Rightarrow> crash_loop_detector" where
  "load_detector contents =
     (case contents of Some s \<Rightarrow> from_state_string s | None \<Rightarrow> detector_defaults)"

subsection \<open>The automatic reset policy\<close>

datatype auto_reset_decision = Reset "32 word" | Wait | Defer | NotTripped

record auto_reset_policy =
  max_attempts :: "32 word"
  base_backoff_secs :: "64 word"
  attempts :: "32 word"
  last_attempt_unix :: "64 word option"

definition policy_new :: "32 word \<Rightarrow> 64 word \<Rightarrow> auto_reset_policy" where
  "policy_new maxi base =
     \<lparr>max_attempts = max maxi 1, base_backoff_secs = base, attempts = 0, last_attempt_unix = None\<rparr>"

definition auto_reset_max_attempts :: "32 word" where "auto_reset_max_attempts = 2"

definition auto_reset_base_backoff_secs :: "64 word" where "auto_reset_base_backoff_secs = 300"

definition policy_defaults :: auto_reset_policy where
  "policy_defaults = policy_new auto_reset_max_attempts auto_reset_base_backoff_secs"

definition backoff_secs :: "auto_reset_policy \<Rightarrow> 64 word" where
  "backoff_secs p =
     (let e = min (if attempts p = 0 then 0 else attempts p - 1) 16
      in saturating_mul (base_backoff_secs p) (push_bit (unat e) 1))"

definition consult :: "guest_health \<Rightarrow> 64 word \<Rightarrow> auto_reset_policy \<Rightarrow> auto_reset_decision \<times> auto_reset_policy" where
  "consult verdict now p =
     (case verdict of
        Healthy \<Rightarrow> (NotTripped, p\<lparr>attempts := 0, last_attempt_unix := None\<rparr>)
      | BringingUp \<Rightarrow> (NotTripped, p)
      | CrashLoop _ \<Rightarrow>
          if max_attempts p \<le> attempts p then (Defer, p)
          else if (case last_attempt_unix p of
                     Some at \<Rightarrow> now < saturating_add at (backoff_secs p) | None \<Rightarrow> False)
          then (Wait, p)
          else (Reset (attempts p + 1),
                p\<lparr>attempts := attempts p + 1, last_attempt_unix := Some now\<rparr>))"


subsection \<open>The state file reads back\<close>

lemma subsystem_slug_inverse [simp]: "subsystem_from_slug (subsystem_slug sub) = Some sub"
  by (cases sub) (simp_all add: subsystem_from_slug_def)

lemma phase_slug_inverse [simp]: "phase_from_slug (phase_slug ph) = Some ph"
  by (cases ph) (simp_all add: phase_from_slug_def)

lemma slug_visible [simp]:
  "list_all token_byte (subsystem_slug sub)" "list_all token_byte (phase_slug ph)"
  "subsystem_slug sub \<noteq> []" "phase_slug ph \<noteq> []"
     apply (cases sub; simp add: token_byte_def)
    apply (cases ph; simp add: token_byte_def)
   apply (cases sub; simp)
  apply (cases ph; simp)
  done

lemma split_key:
  "list_all token_byte k \<Longrightarrow> k \<noteq> [] \<Longrightarrow> list_all token_byte v \<Longrightarrow> v \<noteq> [] \<Longrightarrow>
     split_whitespace (k @ CHR 32 # v) = [k, v]"
  by (simp add: split_whitespace_word split_whitespace_single)

lemma split_key2:
  "list_all token_byte k \<Longrightarrow> k \<noteq> [] \<Longrightarrow> list_all token_byte v \<Longrightarrow> v \<noteq> [] \<Longrightarrow>
   list_all token_byte u \<Longrightarrow> u \<noteq> [] \<Longrightarrow>
     split_whitespace (k @ CHR 32 # v @ CHR 32 # u) = [k, v, u]"
  by (simp add: split_whitespace_word split_whitespace_single)

lemmas split_keys =
  split_key[of "''written_at''", simplified] split_key[of "''window_secs''", simplified]
  split_key[of "''threshold''", simplified] split_key[of "''ever_ready''", simplified]
  split_key[of "''last_phase''", simplified] split_key2[of "''event''", simplified]
  split_key[of "''tillandsias-crashloop-state''", simplified]

lemma state_line_reads:
  "state_line d ''tillandsias-crashloop-state v1'' = d"
  "state_line d (''written_at '' @ show_word w) = d\<lparr>written_at := Some w\<rparr>"
  "state_line d (''window_secs '' @ show_word w) = d\<lparr>window_secs := w\<rparr>"
  "state_line d (''threshold '' @ show_word t) = d\<lparr>threshold := max t 1\<rparr>"
  "state_line d ''ever_ready 1'' = d\<lparr>ever_ready := True\<rparr>"
  "state_line d ''ever_ready 0'' = d\<lparr>ever_ready := False\<rparr>"
  "state_line d (''last_phase '' @ phase_slug ph) = d\<lparr>last_ranked_phase := Some ph\<rparr>"
  "state_line d (''event '' @ show_word w @ '' '' @ subsystem_slug sub) =
     d\<lparr>crash_events := crash_events d @ [\<lparr>at_unix = w, ev_subsystem = sub\<rparr>]\<rparr>"
  by (simp_all add: state_line_def split_keys token_byte_def show_word_visible next_word_def
      state_event_def)

lemmas state_line_reads_simps [simp] = state_line_reads[simplified]

lemma read_events:
  "foldl state_line d
     (map (\<lambda>e. ''event '' @ show_word (at_unix e) @ '' '' @ subsystem_slug (ev_subsystem e)) es) =
   d\<lparr>crash_events := crash_events d @ es\<rparr>"
  by (induction es arbitrary: d) simp_all

lemma state_lines_clean:
  "list_all (\<lambda>l. CHR 10 \<notin> set l \<and> CHR 13 \<notin> set l) (state_lines now d)"
  using token_byte_no_newline[OF slug_visible(1)]
    token_byte_no_newline[OF slug_visible(2)]
  by (auto simp: state_lines_def list_all_iff split: option.splits)

text \<open>
  Reading a state file that the detector wrote gives the detector back, with the time of the
  write: nothing of the window, the threshold, the events, the phase and readiness is lost.
\<close>

theorem state_file_round_trip:
  assumes "1 \<le> threshold d"
  shows "from_state_string (to_state_string_at now d) = d\<lparr>written_at := Some now\<rparr>"
proof -
  have "max (threshold d) 1 = threshold d" using assms by (simp add: max_def)
  moreover have "lines (to_state_string_at now d) = state_lines now d"
    unfolding to_state_string_at_def by (rule lines_unlines) (rule state_lines_clean)
  ultimately show ?thesis
    by (cases "last_ranked_phase d"; cases "ever_ready d")
      (simp_all add: from_state_string_def state_lines_def read_events[simplified] detector_defaults_def detector_new_def)
qed


subsection \<open>The detector refines a sliding window over the full history\<close>

text \<open>The operations of the detector as inputs, and its runs.\<close>

datatype crash_op =
    Observe vm_phase "string option" "64 word"
  | Failure crash_loop_subsystem "64 word"
  | Ask "64 word"

fun op_time :: "crash_op \<Rightarrow> 64 word" where
  "op_time (Observe _ _ now) = now"
| "op_time (Failure _ now) = now"
| "op_time (Ask now) = now"

fun detector_step :: "crash_loop_detector \<Rightarrow> crash_op \<Rightarrow> guest_health \<times> crash_loop_detector" where
  "detector_step d (Observe ph last_event now) = observe_phase ph last_event now d"
| "detector_step d (Failure sub now) = record_failure sub now d"
| "detector_step d (Ask now) = detector_verdict now d"

definition detector_run :: "crash_loop_detector \<Rightarrow> crash_op list \<Rightarrow> crash_loop_detector" where
  "detector_run d ops = foldl (\<lambda>d op. snd (detector_step d op)) d ops"

text \<open>
  The specification keeps every failure with its time and never forgets one; its verdict looks at
  the failures no older than the window.
\<close>

record guest_history =
  failures :: "crash_event list"
  h_phase :: "vm_phase option"
  h_ready :: bool
  h_now :: "64 word"

definition no_history :: guest_history where
  "no_history = \<lparr>failures = [], h_phase = None, h_ready = False, h_now = 0\<rparr>"

fun new_failures :: "guest_history \<Rightarrow> crash_op \<Rightarrow> crash_event list" where
  "new_failures h (Failure sub now) = [\<lparr>at_unix = now, ev_subsystem = sub\<rparr>]"
| "new_failures h (Ask now) = []"
| "new_failures h (Observe ph last_event now) =
     (case h_phase h of
        Some prev \<Rightarrow> if is_phase_regression prev ph
                       then [\<lparr>at_unix = now, ev_subsystem = attributed last_event\<rparr>] else []
      | None \<Rightarrow> [])"

fun observed_phase :: "crash_op \<Rightarrow> vm_phase option" where
  "observed_phase (Observe ph _ _) = (if phase_rank ph = None then None else Some ph)"
| "observed_phase _ = None"

definition note_op :: "guest_history \<Rightarrow> crash_op \<Rightarrow> guest_history" where
  "note_op h op =
     \<lparr>failures = failures h @ new_failures h op,
      h_phase = (case observed_phase op of Some ph \<Rightarrow> Some ph | None \<Rightarrow> h_phase h),
      h_ready = (h_ready h \<or> observed_phase op = Some Ready),
      h_now = op_time op\<rparr>"

definition recent :: "64 word \<Rightarrow> guest_history \<Rightarrow> crash_event list" where
  "recent w h = filter (\<lambda>e. uint (h_now h) \<le> uint (at_unix e) + uint w) (failures h)"

definition window_verdict :: "64 word \<Rightarrow> nat \<Rightarrow> guest_history \<Rightarrow> guest_health" where
  "window_verdict w thr h =
     (if thr \<le> length (recent w h) then CrashLoop (ev_subsystem (last (recent w h)))
      else if h_ready h \<and> h_phase h = Some Ready then Healthy
      else BringingUp)"

definition history_rel :: "64 word \<Rightarrow> 32 word \<Rightarrow> guest_history \<Rightarrow> crash_loop_detector \<Rightarrow> bool" where
  "history_rel w thr h d \<longleftrightarrow>
     window_secs d = w \<and> threshold d = thr \<and> last_ranked_phase d = h_phase h
     \<and> ever_ready d = h_ready h \<and> sorted (map at_unix (failures h))
     \<and> (\<forall>e \<in> set (failures h). at_unix e \<le> h_now h)
     \<and> crash_events d = recent w h"

lemma below_floor: "a < saturating_sub now w \<longleftrightarrow> \<not> uint now \<le> uint a + uint w"
proof (cases "w \<le> now")
  case True
  then show ?thesis
    by (auto simp: saturating_sub_def word_less_def word_le_def uint_sub_if_size)
next
  case False
  then have "uint now < uint w" by (simp add: word_le_def)
  moreover have "0 \<le> uint a" by simp
  ultimately have "uint now \<le> uint a + uint w" by linarith
  with False show ?thesis by (simp add: saturating_sub_def)
qed

lemma dropWhile_sorted:
  "sorted (map f xs) \<Longrightarrow> dropWhile (\<lambda>x. f x < (c :: 'a::linorder)) xs = filter (\<lambda>x. \<not> f x < c) xs"
proof (induction xs)
  case (Cons x xs)
  show ?case
  proof (cases "f x < c")
    case True
    with Cons show ?thesis by simp
  next
    case False
    with Cons.prems have "\<forall>y \<in> set xs. \<not> f y < c" by force
    with False show ?thesis by simp
  qed
qed simp

lemma unprefix_new_failures: "e \<in> set (new_failures h op) \<Longrightarrow> at_unix e = op_time op"
  by (cases op) (auto split: option.splits if_splits)

lemma prune_recent:
  assumes h: "sorted (map at_unix (failures h))" "\<forall>e \<in> set (failures h). at_unix e \<le> h_now h"
    and later: "h_now h \<le> op_time op"
  shows "sorted (map at_unix (failures (note_op h op)))"
    and "\<forall>e \<in> set (failures (note_op h op)). at_unix e \<le> op_time op"
    and "dropWhile (\<lambda>e. at_unix e < saturating_sub (op_time op) w) (recent w h @ new_failures h op)
         = recent w (note_op h op)"
proof -
  have new: "\<forall>e \<in> set (new_failures h op). at_unix e = op_time op"
    using unprefix_new_failures by blast
  show all_le: "\<forall>e \<in> set (failures (note_op h op)). at_unix e \<le> op_time op"
    using h(2) later new by (auto simp: note_op_def)
  have "sorted (map at_unix (new_failures h op))"
    by (cases op) (auto split: option.splits)
  then show "sorted (map at_unix (failures (note_op h op)))"
    using h new later by (auto simp: note_op_def sorted_append)
  have "sorted (map at_unix (recent w h @ new_failures h op))"
    using h new later \<open>sorted (map at_unix (new_failures h op))\<close>
    by (auto simp: sorted_append recent_def sorted_filter)
  then have "dropWhile (\<lambda>e. at_unix e < saturating_sub (op_time op) w) (recent w h @ new_failures h op)
      = filter (\<lambda>e. \<not> at_unix e < saturating_sub (op_time op) w) (recent w h @ new_failures h op)"
    by (rule dropWhile_sorted)
  also have "\<dots> = recent w (note_op h op)"
    using later by (auto simp: recent_def note_op_def below_floor word_le_def intro!: filter_cong)
  finally show "dropWhile (\<lambda>e. at_unix e < saturating_sub (op_time op) w)
      (recent w h @ new_failures h op) = recent w (note_op h op)" .
qed

text \<open>A step of the detector is a pruning at the time of the operation, then the verdict.\<close>

definition apply_op :: "crash_op \<Rightarrow> guest_history \<Rightarrow> crash_loop_detector \<Rightarrow> crash_loop_detector" where
  "apply_op op h d =
     d\<lparr>crash_events := crash_events d @ new_failures h op,
       last_ranked_phase := h_phase (note_op h op), ever_ready := h_ready (note_op h op)\<rparr>"

lemma detector_step_apply:
  assumes "last_ranked_phase d = h_phase h" and "ever_ready d = h_ready h"
  shows "detector_step d op = detector_verdict (op_time op) (apply_op op h d)"
  using assms
  by (cases op)
    (auto simp: observe_phase_def record_failure_def apply_op_def note_op_def push_crash_event_def Let_def
      is_phase_regression_def split: option.splits intro!: arg_cong2[where f = detector_verdict])

lemma step_history_rel:
  assumes "history_rel w thr h d" and "h_now h \<le> op_time op"
  shows "history_rel w thr (note_op h op) (snd (detector_step d op))"
proof -
  have d: "last_ranked_phase d = h_phase h" "ever_ready d = h_ready h"
    using assms(1) by (simp_all add: history_rel_def)
  note pr = prune_recent[OF _ _ assms(2)]
  show ?thesis
    unfolding detector_step_apply[OF d]
    using assms(1) pr
    by (auto simp: history_rel_def detector_verdict_def prune_def apply_op_def Let_def)
      (auto simp: note_op_def)
qed

interpretation crash: simulation note_op "\<lambda>d op. snd (detector_step d op)" "history_rel w thr"
    "\<lambda>h op. h_now h \<le> op_time op" for w thr
  by unfold_locales (rule step_history_rel)


text \<open>
  C37. Refinement of the sliding window. While the clock does not go backwards, every verdict of the
  detector, which forgets pruned events for good, is the verdict of the specification over the full
  history of failures: a crash loop exactly when the window of the current time holds at least the
  threshold of them, attributed to the latest.
\<close>

theorem detector_refines_window:
  assumes "sorted (map op_time (ops @ [op]))" and "length ops < 2 ^ 32 - 1"
  shows "fst (detector_step (detector_run (detector_new w thr) ops) op)
         = window_verdict w (unat (max thr 1)) (foldl note_op no_history (ops @ [op]))"
proof -
  let ?h = "foldl note_op no_history ops" and ?d = "detector_run (detector_new w thr) ops"
  have en: "crash.trace_enabled h es" if "sorted (h_now h # map op_time es)" for h es
    using that by (induction es arbitrary: h) (auto simp: note_op_def)
  have "crash.trace_enabled no_history (ops @ [op])"
    by (rule en) (use assms(1) in \<open>simp add: no_history_def\<close>)
  then have ok: "crash.trace_enabled no_history ops" "h_now ?h \<le> op_time op"
    by (simp_all add: crash.trace_enabled_append)
  have "history_rel w (max thr 1) no_history (detector_new w thr)"
    by (simp add: history_rel_def no_history_def detector_new_def recent_def)
  from crash.run_rel[OF this ok(1)] have rel: "history_rel w (max thr 1) ?h ?d"
    by (simp add: detector_run_def)
  have len: "length (failures (foldl note_op h es)) \<le> length (failures h) + length es" for h es
  proof (induction es arbitrary: h)
    case (Cons e es)
    have "length (new_failures h e) \<le> 1" by (cases e) (auto split: option.splits)
    with Cons[of "note_op h e"] show ?case by (simp add: note_op_def)
  qed simp
  have "length (recent w (note_op ?h op)) \<le> length (failures (foldl note_op no_history (ops @ [op])))"
    by (simp add: recent_def)
  also have "\<dots> < 2 ^ 32"
    using len[of no_history "ops @ [op]"] assms(2) by (simp add: no_history_def)
  finally have small: "unat (word_of_nat (length (recent w (note_op ?h op))) :: 32 word)
      = length (recent w (note_op ?h op))"
    by (simp add: unsigned_of_nat take_bit_nat_eq_self)
  have d: "last_ranked_phase ?d = h_phase ?h" "ever_ready ?d = h_ready ?h"
    using rel by (simp_all add: history_rel_def)
  have nonempty: "unat (max thr 1) \<noteq> 0"
    by (metis max.cobounded2 unat_eq_zero word_le_0_iff zero_neq_one)
  show ?thesis
    unfolding detector_step_apply[OF d]
    using rel step_history_rel[OF rel ok(2)] small nonempty
    by (auto simp: detector_step_apply[OF d] history_rel_def detector_verdict_def prune_def apply_op_def
        window_verdict_def Let_def word_le_nat_alt)
qed


text \<open>Two failures in the window of a third: the loop is named after the last.\<close>

theorem detector_refines_window_witness:
  "fst (detector_step (detector_run (detector_new 180 3)
       [Failure Handshake 1000, Failure Guest 1100, Observe Starting None 1150])
     (Failure VaultUnseal 1170)) = CrashLoop VaultUnseal"
proof -
  let ?ops = "[Failure Handshake 1000, Failure Guest 1100, Observe Starting None 1150]"
  have "sorted (map op_time (?ops @ [Failure VaultUnseal 1170]))" by simp
  moreover have "length ?ops < 2 ^ 32 - 1" by simp
  ultimately have "fst (detector_step (detector_run (detector_new 180 3) ?ops) (Failure VaultUnseal 1170))
      = window_verdict 180 (unat (max (3 :: 32 word) 1))
          (foldl note_op no_history (?ops @ [Failure VaultUnseal 1170]))"
    by (rule detector_refines_window)
  also have "\<dots> = CrashLoop VaultUnseal" by code_simp
  finally show ?thesis .
qed

text \<open>Between two observations of the same ranked phase or a higher one, no event is recorded.\<close>

fun op_rank :: "crash_op \<Rightarrow> nat option" where
  "op_rank (Observe ph _ _) = phase_rank ph"
| "op_rank _ = None"

definition op_ranks :: "crash_op list \<Rightarrow> nat list" where
  "op_ranks ops = List.map_filter op_rank ops"

fun is_failure :: "crash_op \<Rightarrow> bool" where
  "is_failure (Failure _ _) = True"
| "is_failure _ = False"

lemma op_ranks_append [simp]: "op_ranks (xs @ ys) = op_ranks xs @ op_ranks ys"
  by (simp add: op_ranks_def List.map_filter_def)

lemma op_ranks_single [simp]: "op_ranks [op] = (case op_rank op of Some r \<Rightarrow> [r] | None \<Rightarrow> [])"
  by (simp add: op_ranks_def List.map_filter_def split: option.splits)

lemma verdict_quiet: "crash_events d = [] \<Longrightarrow> 1 \<le> threshold d \<Longrightarrow>
    \<not> is_crash_loop (fst (detector_verdict now d)) \<and> snd (detector_verdict now d) = d"
  by (auto simp: detector_verdict_def prune_def Let_def)

lemma observe_forward:
  assumes "crash_events d = []" and "1 \<le> threshold d" and "\<not> is_failure op"
    and "case (last_ranked_phase d, op_rank op) of (Some p, Some n) \<Rightarrow> the (phase_rank p) \<le> n | _ \<Rightarrow> True"
  shows "\<not> is_crash_loop (fst (detector_step d op)) \<and> crash_events (snd (detector_step d op)) = []
    \<and> threshold (snd (detector_step d op)) = threshold d
    \<and> last_ranked_phase (snd (detector_step d op)) =
        (case op of Observe ph _ _ \<Rightarrow> if phase_rank ph = None then last_ranked_phase d else Some ph
         | _ \<Rightarrow> last_ranked_phase d)"
  using assms
  by (cases op) (auto simp: observe_phase_def verdict_quiet Let_def is_phase_regression_def
      split: option.splits)

lemma forward_run:
  assumes "sorted (op_ranks ops)" and "list_all (\<lambda>op. \<not> is_failure op) ops"
  shows "crash_events (detector_run (detector_new w thr) ops) = []
    \<and> threshold (detector_run (detector_new w thr) ops) = max thr 1
    \<and> (case last_ranked_phase (detector_run (detector_new w thr) ops) of
         None \<Rightarrow> True | Some ph \<Rightarrow> \<exists>r \<in> set (op_ranks ops). phase_rank ph = Some r)"
  using assms
proof (induction ops rule: rev_induct)
  case Nil
  then show ?case by (simp add: detector_run_def detector_new_def)
next
  case (snoc op ops)
  let ?d = "detector_run (detector_new w thr) ops"
  have sorted: "sorted (op_ranks ops)" "\<forall>r \<in> set (op_ranks ops). \<forall>n. op_rank op = Some n \<longrightarrow> r \<le> n"
    using snoc.prems(1) by (auto simp: sorted_append split: option.splits)
  with snoc have IH: "crash_events ?d = []" "threshold ?d = max thr 1"
    "case last_ranked_phase ?d of None \<Rightarrow> True | Some ph \<Rightarrow> \<exists>r \<in> set (op_ranks ops). phase_rank ph = Some r"
    by auto
  have "case (last_ranked_phase ?d, op_rank op) of
      (Some p, Some n) \<Rightarrow> the (phase_rank p) \<le> n | _ \<Rightarrow> True"
    using IH(3) sorted(2) by (fastforce split: option.splits)
  with observe_forward[OF IH(1) _ _ this] IH(2) snoc.prems(2)
  have step: "crash_events (snd (detector_step ?d op)) = []"
    "threshold (snd (detector_step ?d op)) = max thr 1"
    "last_ranked_phase (snd (detector_step ?d op)) =
        (case op of Observe ph _ _ \<Rightarrow> if phase_rank ph = None then last_ranked_phase ?d else Some ph
         | _ \<Rightarrow> last_ranked_phase ?d)"
    by simp_all
  moreover have "detector_run (detector_new w thr) (ops @ [op]) = snd (detector_step ?d op)"
    by (simp add: detector_run_def)
  ultimately show ?case using IH(3) by (cases op) (auto split: option.splits)
qed


text \<open>
  A slow start never trips. Whatever the window, the threshold and the clock do, a guest whose
  ranked phases never fall, with clean shutdown phases anywhere between them and no failure reported
  from outside, is never judged to be in a crash loop.
\<close>

theorem steady_progress_never_trips:
  assumes "sorted (op_ranks (ops @ [op]))" and "list_all (\<lambda>op. \<not> is_failure op) (ops @ [op])"
  shows "\<not> is_crash_loop (fst (detector_step (detector_run (detector_new w thr) ops) op))"
proof -
  let ?d = "detector_run (detector_new w thr) ops"
  have s: "sorted (op_ranks ops)" "\<forall>r \<in> set (op_ranks ops). \<forall>n. op_rank op = Some n \<longrightarrow> r \<le> n"
    using assms(1) by (auto simp: sorted_append split: option.splits)
  from forward_run[OF s(1)] assms(2) have f: "crash_events ?d = []" "threshold ?d = max thr 1"
    "case last_ranked_phase ?d of None \<Rightarrow> True | Some ph \<Rightarrow> \<exists>r \<in> set (op_ranks ops). phase_rank ph = Some r"
    by auto
  have "case (last_ranked_phase ?d, op_rank op) of
      (Some p, Some n) \<Rightarrow> the (phase_rank p) \<le> n | _ \<Rightarrow> True"
    using f(3) s(2) by (fastforce split: option.splits)
  with observe_forward[OF f(1) _ _ this] f(2) assms(2) show ?thesis by simp
qed

theorem steady_progress_never_trips_witness:
  "\<not> is_crash_loop (fst (detector_step (detector_run (detector_new 180 1)
      [Observe Failed None 5, Observe Provisioning None 9, Observe Stopping None 7,
       Observe Starting (Some ''unseal'') 1]) (Observe Ready None 3)))"
  by (rule steady_progress_never_trips) code_simp+

text \<open>
  The queue is pruned from its front only. After the clock has stepped back the detector counts an
  event far older than the window: of the three below only two are in it.
\<close>

theorem stale_event_counted:
  "fst (detector_step (detector_run (detector_new 180 3) [Failure Guest 5000, Failure Guest 100])
       (Failure Guest 5100)) = CrashLoop Guest
   \<and> length (recent 180 (foldl note_op no_history
       [Failure Guest 5000, Failure Guest 100, Failure Guest 5100])) = 2"
  by code_simp

subsection \<open>Resets are bounded and backed off\<close>

text \<open>The resets that a policy grants over a sequence of observed verdicts: number and time.\<close>

fun resets :: "auto_reset_policy \<Rightarrow> (guest_health \<times> 64 word) list \<Rightarrow> (32 word \<times> 64 word) list" where
  "resets p [] = []"
| "resets p ((v, now) # obs) =
     (case consult v now p of
        (Reset k, p') \<Rightarrow> (k, now) # resets p' obs
      | (_, p') \<Rightarrow> resets p' obs)"

text \<open>
  A schedule: the attempts are numbered from \<open>k + 1\<close>, and each follows the one before it after at
  least \<open>base * 2 ^ (n - 1)\<close> seconds, \<open>n\<close> the number of the one before, the exponent at most 16 and
  the arithmetic cut at the largest \<open>u64\<close>.
\<close>

fun reset_schedule :: "64 word \<Rightarrow> nat \<Rightarrow> 64 word option \<Rightarrow> (32 word \<times> 64 word) list \<Rightarrow> bool" where
  "reset_schedule base k previous [] = True"
| "reset_schedule base k previous ((j, now) # rs) =
     (unat j = Suc k
      \<and> (case previous of
           None \<Rightarrow> True
         | Some at \<Rightarrow> min (2 ^ 64 - 1) (uint at + min (2 ^ 64 - 1) (uint base * 2 ^ min (k - 1) 16)) \<le> uint now)
      \<and> reset_schedule base (Suc k) (Some now) rs)"

lemma backoff_value:
  "uint (backoff_secs p) =
     min (2 ^ 64 - 1) (uint (base_backoff_secs p) * 2 ^ min (unat (attempts p) - 1) 16)"
proof -
  let ?e = "min (if attempts p = 0 then 0 else attempts p - 1) (16 :: 32 word)"
  have e: "unat ?e = min (unat (attempts p) - 1) 16"
  proof (cases "attempts p = 0")
    case False
    then have "unat (attempts p - 1) = unat (attempts p) - 1"
      by (simp add: unat_minus_one)
    with False show ?thesis by (simp add: min_def word_le_nat_alt)
  qed simp
  have "uint (push_bit n 1 :: 64 word) = 2 ^ n" if "n \<le> 16" for n
  proof -
    have "(2 :: int) ^ n < 2 ^ 64" using that by (intro power_strict_increasing) auto
    then have "uint ((word_of_int (2 ^ n)) :: 64 word) = 2 ^ n"
      unfolding uint_word_of_int_eq using that by (simp add: take_bit_int_eq_self)
    then show ?thesis by (simp add: push_bit_eq_mult)
  qed
  from this[of "unat ?e"] e show ?thesis
    by (simp add: backoff_secs_def Let_def uint_saturating_mul)
qed

lemma consult_facts:
  assumes "attempts p \<le> max_attempts p" and "v \<noteq> Healthy" and "consult v now p = (dec, p')"
  shows "max_attempts p' = max_attempts p \<and> base_backoff_secs p' = base_backoff_secs p
    \<and> attempts p' \<le> max_attempts p'
    \<and> (case dec of
         Reset j \<Rightarrow> unat j = Suc (unat (attempts p)) \<and> attempts p' = j \<and> last_attempt_unix p' = Some now
           \<and> (case last_attempt_unix p of
                None \<Rightarrow> True | Some at \<Rightarrow> uint (saturating_add at (backoff_secs p)) \<le> uint now)
       | _ \<Rightarrow> attempts p' = attempts p \<and> last_attempt_unix p' = last_attempt_unix p)"
proof (cases "(\<exists>sub. v = CrashLoop sub) \<and> attempts p < max_attempts p")
  case True
  then have "unat (attempts p) < unat (max_attempts p)" by (simp add: word_less_nat_alt)
  then have inc: "unat (attempts p + 1) = Suc (unat (attempts p))"
    using unsigned_less[of "max_attempts p", where ?'a = nat] by (simp add: unat_word_ariths)
  with True have "attempts p + 1 \<le> max_attempts p"
    by (simp add: word_le_nat_alt word_less_nat_alt)
  with True inc assms(3) show ?thesis
    by (auto simp: consult_def word_le_def word_less_def not_le split: if_splits option.splits)
next
  case False
  with assms show ?thesis by (cases v) (auto simp: consult_def not_less split: if_splits)
qed

lemma resets_from:
  assumes "attempts p \<le> max_attempts p" and "list_all (\<lambda>(v, _). v \<noteq> Healthy) obs"
    and "last_attempt_unix p = None \<longleftrightarrow> attempts p = 0"
  shows "length (resets p obs) + unat (attempts p) \<le> unat (max_attempts p)
    \<and> reset_schedule (base_backoff_secs p) (unat (attempts p)) (last_attempt_unix p) (resets p obs)"
  using assms
proof (induction p obs rule: resets.induct)
  case (1 p)
  then show ?case by (simp add: word_le_nat_alt)
next
  case (2 p v now obs)
  obtain dec p' where c: "consult v now p = (dec, p')" by (cases "consult v now p")
  from 2 have v: "v \<noteq> Healthy" and obs: "list_all (\<lambda>(v, _). v \<noteq> Healthy) obs" by simp_all
  note f = consult_facts[OF "2.prems"(1) v c]
  show ?case
  proof (cases "\<exists>j. dec = Reset j")
    case True
    then obtain j where j: "dec = Reset j" by blast
    with f have n: "unat (attempts p') = Suc (unat (attempts p))" "attempts p' \<le> max_attempts p'"
      "max_attempts p' = max_attempts p" "base_backoff_secs p' = base_backoff_secs p"
      "attempts p' = j" "last_attempt_unix p' = Some now"
      "case last_attempt_unix p of None \<Rightarrow> True | Some at \<Rightarrow> uint (saturating_add at (backoff_secs p)) \<le> uint now"
      by auto
    then have z: "last_attempt_unix p' = None \<longleftrightarrow> attempts p' = 0" by auto
    have "resets p ((v, now) # obs) = (j, now) # resets p' obs" using c j by simp
    with "2.IH"(1)[OF c[symmetric] j n(2) obs z] n show ?thesis
      by (simp add: uint_saturating_add backoff_value split: option.splits)
  next
    case False
    with f have "attempts p' = attempts p" "last_attempt_unix p' = last_attempt_unix p"
      "resets p ((v, now) # obs) = resets p' obs"
      using c by (auto split: auto_reset_decision.splits)
    moreover from f False have "attempts p' \<le> max_attempts p'" "max_attempts p' = max_attempts p"
      "base_backoff_secs p' = base_backoff_secs p" by auto
    moreover have "?thesis" if "length (resets p' obs) + unat (attempts p') \<le> unat (max_attempts p')
        \<and> reset_schedule (base_backoff_secs p') (unat (attempts p')) (last_attempt_unix p') (resets p' obs)"
      using that calculation by simp
    ultimately show ?thesis
      using "2.IH"(2-)[OF c[symmetric]] obs "2.prems"(3) False
      by (cases dec) simp_all
  qed
qed

text \<open>
  C38. Automatic resets are bounded and backed off: until the guest is seen healthy, a policy grants
  at most its maximum of resets, numbered from one, each no earlier than the doubled backoff after
  the one before, whatever verdicts and clock readings arrive.
\<close>

theorem resets_bounded_and_spaced:
  assumes "list_all (\<lambda>(v, _). v \<noteq> Healthy) obs"
  shows "length (resets (policy_new maxi base) obs) \<le> unat (max maxi 1)
    \<and> reset_schedule base 0 None (resets (policy_new maxi base) obs)"
  using resets_from[OF _ assms, of "policy_new maxi base"]
  by (simp add: policy_new_def word_le_nat_alt)

theorem resets_bounded_and_spaced_witness:
  "length (resets policy_defaults
     [(CrashLoop Guest, 1000), (BringingUp, 1010), (CrashLoop Guest, 1299), (CrashLoop Guest, 1300),
      (CrashLoop Guest, 9000)]) \<le> 2"
  using resets_bounded_and_spaced[of
      "[(CrashLoop Guest, 1000), (BringingUp, 1010), (CrashLoop Guest, 1299), (CrashLoop Guest, 1300),
      (CrashLoop Guest, 9000)]" auto_reset_max_attempts auto_reset_base_backoff_secs]
  by (simp add: policy_defaults_def auto_reset_max_attempts_def)

text \<open>The exponent stops at 16: the reset after the eighteenth attempt waits no longer than the one before.\<close>

theorem backoff_stops_doubling:
  "backoff_secs ((policy_new 20 300)\<lparr>attempts := 18\<rparr>) = backoff_secs ((policy_new 20 300)\<lparr>attempts := 17\<rparr>)"
  by code_simp

text \<open>Every rendered verdict is in the grammar, and only the loop verdict names a subsystem.\<close>

lemma verdict_in_grammar: "verdict_matches_grammar (health_verdict h)"
proof -
  have all: "list_all (\<lambda>h. verdict_matches_grammar (health_verdict h))
      [Healthy, BringingUp, CrashLoop Guest, CrashLoop VaultUnseal, CrashLoop Handshake]"
    by code_simp
  then have "verdict_matches_grammar (health_verdict (CrashLoop sub))" for sub
    by (cases sub) (simp_all only: list.pred_inject)
  with all show ?thesis by (cases h) (simp_all only: list.pred_inject)
qed

theorem state_file_round_trip_witness:
  "from_state_string (to_state_string_at 1700000000
     (snd (detector_step (detector_new 180 3) (Failure Handshake 1600000000)))) =
   (snd (detector_step (detector_new 180 3) (Failure Handshake 1600000000)))\<lparr>written_at := Some 1700000000\<rparr>"
  by (rule state_file_round_trip)
    (simp add: record_failure_def detector_verdict_def prune_def push_crash_event_def detector_new_def Let_def)

end
