(* ===== verification/F64.thy ===== *)
theory F64
  imports Rust_Std Complex_Main
begin

text \<open>
  The \<open>f64\<close> values that JSON numbers are read as: a sign and a magnitude, the magnitude a rational
  that a double can hold, or an infinity. \<open>NaN\<close> does not arise: no operation of the modelled code
  produces one out of finite numbers. Conversions round to the nearest double, ties to even, with
  subnormals below and infinity above.
\<close>

datatype f64 = Finite bool rat | Infinite bool

function ilog2 :: "int \<Rightarrow> nat" where
  "ilog2 n = (if n \<le> 1 then 0 else Suc (ilog2 (n div 2)))"
  by pat_completeness auto
termination by (relation "measure nat") auto

declare ilog2.simps [simp del]

definition two_pow :: "int \<Rightarrow> rat" where
  "two_pow e = (if 0 \<le> e then 2 ^ nat e else 1 / 2 ^ nat (- e))"

definition ilog2_rat :: "rat \<Rightarrow> int" where
  "ilog2_rat q =
     (case quotient_of q of (a, b) \<Rightarrow>
        let e = int (ilog2 a) - int (ilog2 b) in if q < two_pow e then e - 1 else e)"

definition round_half_even :: "rat \<Rightarrow> int" where
  "round_half_even x =
     (let f = \<lfloor>x\<rfloor>; d = x - of_int f
      in if d < 1 / 2 then f else if 1 / 2 < d then f + 1 else if even f then f else f + 1)"

text \<open>The double nearest to a magnitude, \<open>None\<close> from the halfway point above the largest one on.\<close>

definition round_magnitude :: "rat \<Rightarrow> rat option" where
  "round_magnitude q =
     (if q = 0 then Some 0
      else let e = max (ilog2_rat q - 52) (-1074);
               r = of_int (round_half_even (q / two_pow e)) * two_pow e
           in if r \<ge> 2 ^ 1024 then None else Some r)"

definition round_f64 :: "bool \<Rightarrow> rat \<Rightarrow> f64" where
  "round_f64 neg q = (case round_magnitude q of Some r \<Rightarrow> Finite neg r | None \<Rightarrow> Infinite neg)"

definition f64_of_int :: "int \<Rightarrow> f64" where
  "f64_of_int i = round_f64 (i < 0) (of_int \<bar>i\<bar>)"

text \<open>The value of a finite one; the two zeros have the same.\<close>

fun f64_value :: "f64 \<Rightarrow> rat" where
  "f64_value (Finite neg q) = (if neg then - q else q)"
| "f64_value (Infinite _) = 0"

text \<open>\<open>partial_cmp\<close>, which always answers without a \<open>NaN\<close>.\<close>

fun f64_cmp :: "f64 \<Rightarrow> f64 \<Rightarrow> ordering" where
  "f64_cmp (Infinite True) (Infinite True) = Equal"
| "f64_cmp (Infinite False) (Infinite False) = Equal"
| "f64_cmp (Infinite True) _ = Less"
| "f64_cmp _ (Infinite True) = Greater"
| "f64_cmp (Infinite False) _ = Greater"
| "f64_cmp _ (Infinite False) = Less"
| "f64_cmp x y = cmp (f64_value x) (f64_value y)"

text \<open>Casts to integers saturate.\<close>

definition saturate_i64 :: "int \<Rightarrow> int" where
  "saturate_i64 i = max (- (2 ^ 63)) (min (2 ^ 63 - 1) i)"

fun floor_i64 :: "f64 \<Rightarrow> int" where
  "floor_i64 (Infinite neg) = saturate_i64 (if neg then - (2 ^ 63) else 2 ^ 63)"
| "floor_i64 x = saturate_i64 \<lfloor>f64_value x\<rfloor>"

subsection \<open>Decimal literals\<close>

text \<open>
  \<open>parse::<f64>()\<close> on text without the words for infinity and \<open>NaN\<close>: an optional sign, digits with
  at most one point and at least one digit, an optional exponent with at least one digit.
\<close>

definition parse_sign :: "string \<Rightarrow> bool \<times> string" where
  "parse_sign s =
     (case s of c # r \<Rightarrow> if c = CHR ''-'' then (True, r) else if c = CHR ''+'' then (False, r) else (False, s)
      | [] \<Rightarrow> (False, s))"

definition is_exponent_mark :: "char \<Rightarrow> bool" where
  "is_exponent_mark c \<longleftrightarrow> c = CHR ''e'' \<or> c = CHR ''E''"

fun digits_int :: "int \<Rightarrow> string \<Rightarrow> int" where
  "digits_int acc [] = acc"
| "digits_int acc (c # cs) = digits_int (10 * acc + int (digit_value c)) cs"

definition parse_exponent :: "string \<Rightarrow> int option" where
  "parse_exponent s =
     (case s of
        [] \<Rightarrow> Some 0
      | _ # r \<Rightarrow>
          (case parse_sign r of (neg, d) \<Rightarrow>
             if d = [] \<or> \<not> list_all is_ascii_digit d then None
             else Some (if neg then - digits_int 0 d else digits_int 0 d)))"

definition ten_pow :: "int \<Rightarrow> rat" where
  "ten_pow e = (if 0 \<le> e then 10 ^ nat e else 1 / 10 ^ nat (- e))"

definition parse_f64 :: "string \<Rightarrow> f64 option" where
  "parse_f64 s =
     (case parse_sign s of (neg, body) \<Rightarrow>
        let mant = takeWhile (\<lambda>c. \<not> is_exponent_mark c) body;
            ex = dropWhile (\<lambda>c. \<not> is_exponent_mark c) body;
            whole = takeWhile is_ascii_digit mant;
            rest = dropWhile is_ascii_digit mant;
            frac = (case rest of [] \<Rightarrow> [] | _ # f \<Rightarrow> f)
        in if whole @ frac = [] \<or> (rest \<noteq> [] \<and> hd rest \<noteq> CHR ''.'') \<or> \<not> list_all is_ascii_digit frac
           then None
           else map_option
             (\<lambda>e. round_f64 neg (of_int (digits_int 0 (whole @ frac)) * ten_pow (e - int (length frac))))
             (parse_exponent ex))"

subsection \<open>Facts\<close>

lemma f64_cmp_refl [simp]: "f64_cmp x x = Equal"
proof (cases x)
  case (Infinite b)
  then show ?thesis by (cases b) simp_all
qed simp

lemma f64_cmp_reverse: "ordering_reverse (f64_cmp x y) = f64_cmp y x"
  by (cases "(x, y)" rule: f64_cmp.cases) (auto simp: cmp_reverse)

lemma f64_cmp_trans:
  assumes "f64_cmp x y \<noteq> Greater" and "f64_cmp y z \<noteq> Greater"
  shows "f64_cmp x z \<noteq> Greater \<and> (f64_cmp x z = Equal \<longleftrightarrow> f64_cmp x y = Equal \<and> f64_cmp y z = Equal)"
proof -
  define key :: "f64 \<Rightarrow> int \<times> rat" where
    "key = (\<lambda>v. case v of Infinite neg \<Rightarrow> (if neg then -1 else 1, 0) | Finite neg q \<Rightarrow> (0, f64_value v))"
  have "f64_cmp a b = cmp (key a) (key b)" for a b
    by (cases "(a, b)" rule: f64_cmp.cases) (auto simp: key_def cmp_def less_prod_def')
  with assms show ?thesis by (auto simp: cmp_def split: if_splits)
qed


lemma ilog2_bounds: "0 < n \<Longrightarrow> 2 ^ ilog2 n \<le> n \<and> n < 2 ^ Suc (ilog2 n)"
proof (induction n rule: ilog2.induct)
  case (1 n)
  show ?case
  proof (cases "n \<le> 1")
    case True
    with 1 have "n = 1" by simp
    then show ?thesis by (simp add: ilog2.simps)
  next
    case False
    with 1 have IH: "2 ^ ilog2 (n div 2) \<le> n div 2" "n div 2 < 2 ^ Suc (ilog2 (n div 2))" by auto
    have "ilog2 n = Suc (ilog2 (n div 2))" using False by (subst ilog2.simps) simp
    with IH show ?thesis by auto
  qed
qed

lemma ilog2_rat_int: "0 < n \<Longrightarrow> ilog2_rat (of_int n) = int (ilog2 n)"
proof -
  assume n: "0 < n"
  have "(2 :: rat) ^ ilog2 n \<le> of_int n"
    using ilog2_bounds[OF n] by (metis of_int_le_iff of_int_numeral of_int_power)
  then show ?thesis
    by (simp add: ilog2_rat_def two_pow_def Let_def ilog2.simps[of 1] not_less)
qed

lemma round_half_even_int [simp]: "round_half_even (of_int m) = m"
  by (simp add: round_half_even_def Let_def)

text \<open>Integers of up to 53 bits are doubles.\<close>

lemma round_magnitude_int:
  assumes "0 \<le> n" and "n \<le> 2 ^ 53"
  shows "round_magnitude (of_int n) = Some (of_int n)"
proof (cases "n = 0 \<or> n = 2 ^ 53")
  case True
  have "ilog2 (2 ^ 53) = 53" by code_simp
  with True show ?thesis
    by (auto simp: round_magnitude_def Let_def two_pow_def ilog2_rat_int[of "2 ^ 53", simplified]
        round_half_even_int[of "2 ^ 52", simplified])
next
  case False
  with assms have n: "0 < n" "n < 2 ^ 53" by auto
  define k where "k = ilog2 n"
  have "(2 :: int) ^ k < 2 ^ 53" using ilog2_bounds[OF n(1)] n(2) unfolding k_def by linarith
  then have "k < 53" by (rule power_less_imp_less_exp[rotated]) simp
  then have k: "k \<le> 52" by simp
  have e: "max (ilog2_rat (of_int n) - 52) (-1074) = int k - 52"
    using k by (simp add: ilog2_rat_int n k_def)
  have scale: "two_pow (int k - 52) = 1 / 2 ^ (52 - k)"
    using k by (cases "k = 52") (auto simp: two_pow_def nat_diff_distrib')
  have "of_int n / two_pow (int k - 52) = (of_int (n * 2 ^ (52 - k)) :: rat)"
    by (simp add: scale)
  then have "of_int (round_half_even (of_int n / two_pow (int k - 52))) * two_pow (int k - 52) = (of_int n :: rat)"
    by (simp only: round_half_even_int) (simp add: scale)
  moreover have "\<not> (2 :: rat) ^ 1024 \<le> of_int n"
  proof -
    have "n < 2 ^ 1024" using n(2) by simp
    then have "(of_int n :: rat) < of_int (2 ^ 1024)" by (simp only: of_int_less_iff)
    then show ?thesis by simp
  qed
  ultimately show ?thesis using n e by (simp add: round_magnitude_def Let_def)
qed

lemma f64_of_int_exact:
  "\<bar>i\<bar> \<le> 2 ^ 53 \<Longrightarrow> f64_of_int i = Finite (i < 0) (of_int \<bar>i\<bar>)"
  using round_magnitude_int[of "\<bar>i\<bar>"] by (simp add: f64_of_int_def round_f64_def)

lemma f64_cmp_ints:
  "\<bar>i\<bar> \<le> 2 ^ 53 \<Longrightarrow> \<bar>j\<bar> \<le> 2 ^ 53 \<Longrightarrow> f64_cmp (f64_of_int i) (f64_of_int j) = cmp i j"
  by (auto simp: f64_of_int_exact cmp_def)

end
