(* ===== verification/Json_Query.thy ===== *)
theory Json_Query
  imports F64
begin

text \<open>
  The JSON query engine (\<open>crates/tillandsias-plan/src/json_query.rs\<close>): values, the abstract syntax
  of filters, jq's order over values and the evaluator. \<open>out\<close> and the returned \<open>Result\<close> of the code
  are one pair: the values pushed, and the error if there was one; nothing is ever removed from
  \<open>out\<close>. Error texts are constructors with the data the text is made of. \<open>serde_json::to_string\<close> is
  the parameter \<open>ser\<close>.
\<close>

subsection \<open>Values\<close>

text \<open>\<open>serde_json::Number\<close>: unsigned, negative, or a double.\<close>

datatype number = PosInt "64 word" | NegInt "64 word" | Float f64

text \<open>Objects keep the order of insertion (\<open>preserve_order\<close>), their keys are distinct.\<close>

datatype json =
    JNull
  | JBool bool
  | JNumber number
  | JString string
  | JArray "json list"
  | JObject "(string \<times> json) list"

fun as_f64 :: "number \<Rightarrow> f64" where
  "as_f64 (PosInt w) = f64_of_int (uint w)"
| "as_f64 (NegInt w) = f64_of_int (sint w)"
| "as_f64 (Float f) = f"

text \<open>\<open>Value::from\<close> an \<open>i64\<close> and a \<open>usize\<close>.\<close>

definition json_of_int :: "int \<Rightarrow> json" where
  "json_of_int i = JNumber (if 0 \<le> i then PosInt (word_of_int i) else NegInt (word_of_int i))"

definition json_of_len :: "nat \<Rightarrow> json" where
  "json_of_len n = JNumber (PosInt (word_of_nat n))"

fun json_number :: "f64 \<Rightarrow> json" where
  "json_number (Infinite neg) = JNull"
| "json_number (Finite neg q) =
     (if q = of_int \<lfloor>q\<rfloor> \<and> q < 9007199254740992
      then json_of_int (if neg then - \<lfloor>q\<rfloor> else \<lfloor>q\<rfloor>)
      else JNumber (Float (Finite neg q)))"

datatype json_type = TNull | TBoolean | TNumber | TString | TArray | TObject

fun type_of_json :: "json \<Rightarrow> json_type" where
  "type_of_json JNull = TNull"
| "type_of_json (JBool _) = TBoolean"
| "type_of_json (JNumber _) = TNumber"
| "type_of_json (JString _) = TString"
| "type_of_json (JArray _) = TArray"
| "type_of_json (JObject _) = TObject"

fun type_name :: "json_type \<Rightarrow> string" where
  "type_name TNull = ''null''"
| "type_name TBoolean = ''boolean''"
| "type_name TNumber = ''number''"
| "type_name TString = ''string''"
| "type_name TArray = ''array''"
| "type_name TObject = ''object''"

fun truthy :: "json \<Rightarrow> bool" where
  "truthy JNull = False"
| "truthy (JBool b) = b"
| "truthy _ = True"

subsection \<open>The order over values\<close>

fun type_rank :: "json \<Rightarrow> nat" where
  "type_rank JNull = 0"
| "type_rank (JBool False) = 1"
| "type_rank (JBool True) = 2"
| "type_rank (JNumber _) = 3"
| "type_rank (JString _) = 4"
| "type_rank (JArray _) = 5"
| "type_rank (JObject _) = 6"

text \<open>Lexicographic comparison of equally long prefixes: the first that is not equal decides.\<close>

fun first_unequal :: "ordering list \<Rightarrow> ordering \<Rightarrow> ordering" where
  "first_unequal [] d = d"
| "first_unequal (c # cs) d = (if c \<noteq> Equal then c else first_unequal cs d)"

lemma size_map_of: "map_of m k = Some v \<Longrightarrow> size v < size_list (size_prod (\<lambda>_. 0) size) m"
  by (induction m) (auto split: if_splits)

lemma size_map_of_sym: "Some v = map_of m k \<Longrightarrow> size v \<le> size_list (size_prod (\<lambda>_. 0) size) m"
  using size_map_of[of m k v] by simp

function compare :: "json \<Rightarrow> json \<Rightarrow> ordering" where
  "compare a b =
     (if type_rank a \<noteq> type_rank b then cmp (type_rank a) (type_rank b)
      else (case (a, b) of
        (JNumber x, JNumber y) \<Rightarrow> f64_cmp (as_f64 x) (as_f64 y)
      | (JString x, JString y) \<Rightarrow> cmp x y
      | (JArray x, JArray y) \<Rightarrow>
          first_unequal (map (\<lambda>(p, q). compare p q) (zip x y)) (cmp (length x) (length y))
      | (JObject x, JObject y) \<Rightarrow>
          (let kx = sort (map fst x); ky = sort (map fst y); c = cmp kx ky
           in if c \<noteq> Equal then c
              else first_unequal
                (map (\<lambda>k. (case (map_of x k, map_of y k) of
                             (Some v, Some w) \<Rightarrow> compare v w | _ \<Rightarrow> Equal)) kx) Equal)
      | _ \<Rightarrow> Equal))"
  by pat_completeness auto
termination
  by (relation "measure (\<lambda>(a, b). size a)")
    (auto dest!: set_zip_leftD size_map_of_sym simp: size_list_estimation' less_Suc_eq_le
      intro: size_list_estimation')


declare compare.simps [simp del]

lemma compare_simps:
  "type_rank a \<noteq> type_rank b \<Longrightarrow> compare a b = cmp (type_rank a) (type_rank b)"
  "compare JNull JNull = Equal"
  "compare (JBool p) (JBool q) = cmp p q"
  "compare (JNumber x) (JNumber y) = f64_cmp (as_f64 x) (as_f64 y)"
  "compare (JString s) (JString t) = cmp s t"
  "compare (JArray xs) (JArray ys) =
     first_unequal (map (\<lambda>(p, q). compare p q) (zip xs ys)) (cmp (length xs) (length ys))"
  by (subst compare.simps; cases p; cases q; simp add: cmp_def; fail)+

subsection \<open>Filters\<close>

datatype cmp_op = OpEq | OpNe | OpLt | OpLe | OpGt | OpGe

datatype builtin =
    Select | Has | Length | Keys | KeysUnsorted | TypeOf | Not | Empty | AsciiDowncase | ToString

datatype ast =
    Identity
  | Literal json
  | Var string
  | Index ast ast
  | Iterate ast
  | Try ast
  | Pipe ast ast
  | Comma ast ast
  | Alt ast ast
  | And ast ast
  | Or ast ast
  | Cmp cmp_op ast ast
  | Collect "ast option"
  | Call builtin "ast option"

fun collect_vars :: "ast \<Rightarrow> string list" where
  "collect_vars (Var n) = [n]"
| "collect_vars Identity = []"
| "collect_vars (Literal _) = []"
| "collect_vars (Iterate a) = collect_vars a"
| "collect_vars (Try a) = collect_vars a"
| "collect_vars (Collect None) = []"
| "collect_vars (Collect (Some a)) = collect_vars a"
| "collect_vars (Call _ None) = []"
| "collect_vars (Call _ (Some a)) = collect_vars a"
| "collect_vars (Index a b) = collect_vars a @ collect_vars b"
| "collect_vars (Pipe a b) = collect_vars a @ collect_vars b"
| "collect_vars (Comma a b) = collect_vars a @ collect_vars b"
| "collect_vars (Alt a b) = collect_vars a @ collect_vars b"
| "collect_vars (And a b) = collect_vars a @ collect_vars b"
| "collect_vars (Or a b) = collect_vars a @ collect_vars b"
| "collect_vars (Cmp _ a b) = collect_vars a @ collect_vars b"

definition variables :: "ast \<Rightarrow> string list" where
  "variables f = bt_set (collect_vars f)"

subsection \<open>Evaluation\<close>

datatype runtime_error =
    NotDefined string
  | CannotIndexWithKey json_type string
  | CannotIndexWithType json_type json_type
  | CannotIterate json
  | CannotCheckKey json_type json_type
  | NoLength json
  | NoKeys json
  | CannotDowncase json

type_synonym outcome = "json list \<times> runtime_error option"

abbreviation emit :: "json \<Rightarrow> outcome" where "emit v \<equiv> ([v], None)"

abbreviation raise :: "runtime_error \<Rightarrow> outcome" where "raise e \<equiv> ([], Some e)"

text \<open>One computation after another; the second runs only if the first raised no error.\<close>

fun and_then :: "outcome \<Rightarrow> outcome \<Rightarrow> outcome" where
  "and_then (out, Some e) r = (out, Some e)"
| "and_then (out, None) (out', e) = (out @ out', e)"

text \<open>A loop over values that ends at the first error.\<close>

fun each :: "('a \<Rightarrow> outcome) \<Rightarrow> 'a list \<Rightarrow> outcome" where
  "each f [] = ([], None)"
| "each f (x # xs) = and_then (f x) (each f xs)"

text \<open>The body over all values a computation pushed, then its own error.\<close>

definition for_results :: "outcome \<Rightarrow> (json \<Rightarrow> outcome) \<Rightarrow> outcome" where
  "for_results r f = and_then (each f (fst r)) ([], snd r)"

text \<open>A computation into a buffer of its own with \<open>?\<close>: on an error the buffer is lost.\<close>

fun with_all :: "outcome \<Rightarrow> (json list \<Rightarrow> outcome) \<Rightarrow> outcome" where
  "with_all (vs, Some e) f = raise e"
| "with_all (vs, None) f = f vs"

definition index_array :: "json list \<Rightarrow> number \<Rightarrow> json" where
  "index_array xs n =
     (let f = floor_i64 (as_f64 n);
          i = (if f < 0 then f + int (length xs) else f)
      in if i < 0 then JNull else if i < int (length xs) then xs ! nat i else JNull)"

fun index :: "json \<Rightarrow> json \<Rightarrow> outcome" where
  "index JNull (JString _) = emit JNull"
| "index JNull (JNumber _) = emit JNull"
| "index JNull JNull = emit JNull"
| "index (JObject m) (JString s) = emit (case map_of m s of Some v \<Rightarrow> v | None \<Rightarrow> JNull)"
| "index (JArray xs) (JNumber n) = emit (index_array xs n)"
| "index (JObject m) k = raise (CannotIndexWithType TObject (type_of_json k))"
| "index (JArray xs) (JString s) = raise (CannotIndexWithKey TArray s)"
| "index t (JString s) = raise (CannotIndexWithKey (type_of_json t) s)"
| "index t k = raise (CannotIndexWithType (type_of_json t) (type_of_json k))"

fun iterate :: "json \<Rightarrow> outcome" where
  "iterate (JArray xs) = (xs, None)"
| "iterate (JObject m) = (map snd m, None)"
| "iterate v = raise (CannotIterate v)"

fun cmp_holds :: "cmp_op \<Rightarrow> ordering \<Rightarrow> bool" where
  "cmp_holds OpEq c = (c = Equal)"
| "cmp_holds OpNe c = (c \<noteq> Equal)"
| "cmp_holds OpLt c = (c = Less)"
| "cmp_holds OpLe c = (c \<noteq> Greater)"
| "cmp_holds OpGt c = (c = Greater)"
| "cmp_holds OpGe c = (c \<noteq> Less)"

text \<open>\<open>f >= 0.0 && (f as usize) < len\<close>\<close>

definition has_index :: "json list \<Rightarrow> number \<Rightarrow> bool" where
  "has_index xs n =
     (case as_f64 n of
        Finite neg q \<Rightarrow> 0 \<le> f64_value (Finite neg q) \<and> \<lfloor>q\<rfloor> < int (length xs)
      | Infinite neg \<Rightarrow> False)"

fun has_key :: "json \<Rightarrow> json \<Rightarrow> outcome" where
  "has_key (JObject m) (JString s) = emit (JBool (s \<in> fst ` set m))"
| "has_key (JArray xs) (JNumber n) = emit (JBool (has_index xs n))"
| "has_key v k = raise (CannotCheckKey (type_of_json v) (type_of_json k))"

fun f64_abs :: "f64 \<Rightarrow> f64" where
  "f64_abs (Finite neg q) = Finite False q"
| "f64_abs (Infinite neg) = Infinite False"

text \<open>\<open>s.chars().count()\<close>: every byte that does not continue an encoded character starts one.\<close>

definition count_chars :: "string \<Rightarrow> nat" where
  "count_chars s = length (filter (\<lambda>c. (of_char c :: nat) < 128 \<or> 192 \<le> (of_char c :: nat)) s)"

fun json_length :: "json \<Rightarrow> outcome" where
  "json_length JNull = emit (json_of_int 0)"
| "json_length (JBool b) = raise (NoLength (JBool b))"
| "json_length (JNumber n) = emit (json_number (f64_abs (as_f64 n)))"
| "json_length (JString s) = emit (json_of_len (count_chars s))"
| "json_length (JArray xs) = emit (json_of_len (length xs))"
| "json_length (JObject m) = emit (json_of_len (length m))"

fun json_keys :: "bool \<Rightarrow> json \<Rightarrow> outcome" where
  "json_keys sorted_keys (JObject m) =
     emit (JArray (map JString (if sorted_keys then sort (map fst m) else map fst m)))"
| "json_keys sorted_keys (JArray xs) = emit (JArray (map json_of_len [0..<length xs]))"
| "json_keys sorted_keys v = raise (NoKeys v)"

fun ascii_downcase :: "json \<Rightarrow> outcome" where
  "ascii_downcase (JString s) = emit (JString (to_ascii_lowercase s))"
| "ascii_downcase v = raise (CannotDowncase v)"

fun to_json_string :: "(json \<Rightarrow> string) \<Rightarrow> json \<Rightarrow> json" where
  "to_json_string ser (JString s) = JString s"
| "to_json_string ser v = JString (ser v)"

text \<open>The builtins, the argument given as the outcome of running it on the input. Only \<open>select\<close> and
  \<open>has\<close> look at it; the parser gives an argument to exactly these two.\<close>

fun call_builtin :: "(json \<Rightarrow> string) \<Rightarrow> builtin \<Rightarrow> outcome \<Rightarrow> json \<Rightarrow> outcome" where
  "call_builtin ser Select arg v =
     for_results arg (\<lambda>x. if truthy x then emit v else ([], None))"
| "call_builtin ser Has arg v = with_all arg (each (has_key v))"
| "call_builtin ser Length arg v = json_length v"
| "call_builtin ser Keys arg v = json_keys True v"
| "call_builtin ser KeysUnsorted arg v = json_keys False v"
| "call_builtin ser TypeOf arg v = emit (JString (type_name (type_of_json v)))"
| "call_builtin ser Not arg v = emit (JBool (\<not> truthy v))"
| "call_builtin ser Empty arg v = ([], None)"
| "call_builtin ser AsciiDowncase arg v = ascii_downcase v"
| "call_builtin ser ToString arg v = emit (to_json_string ser v)"

fun run :: "(json \<Rightarrow> string) \<Rightarrow> (string, json) btmap \<Rightarrow> ast \<Rightarrow> json \<Rightarrow> outcome" where
  "run ser args Identity v = emit v"
| "run ser args (Literal l) v = emit l"
| "run ser args (Var name) v =
     (case map_of args name of Some x \<Rightarrow> emit x | None \<Rightarrow> raise (NotDefined name))"
| "run ser args (Index target key) v =
     for_results (run ser args target v) (\<lambda>t. with_all (run ser args key v) (each (index t)))"
| "run ser args (Iterate target) v = for_results (run ser args target v) iterate"
| "run ser args (Try inner) v = (fst (run ser args inner v), None)"
| "run ser args (Pipe lhs rhs) v = for_results (run ser args lhs v) (run ser args rhs)"
| "run ser args (Comma a b) v = and_then (run ser args a v) (run ser args b v)"
| "run ser args (Alt a b) v =
     (let kept = filter truthy (fst (run ser args a v))
      in if kept = [] then run ser args b v else (kept, None))"
| "run ser args (And a b) v =
     for_results (run ser args a v)
       (\<lambda>x. if \<not> truthy x then emit (JBool False)
            else with_all (run ser args b v) (\<lambda>ys. (map (\<lambda>y. JBool (truthy y)) ys, None)))"
| "run ser args (Or a b) v =
     for_results (run ser args a v)
       (\<lambda>x. if truthy x then emit (JBool True)
            else with_all (run ser args b v) (\<lambda>ys. (map (\<lambda>y. JBool (truthy y)) ys, None)))"
| "run ser args (Cmp c a b) v =
     for_results (run ser args b v)
       (\<lambda>bv. with_all (run ser args a v)
          (\<lambda>xs. (map (\<lambda>av. JBool (cmp_holds c (compare av bv))) xs, None)))"
| "run ser args (Collect None) v = emit (JArray [])"
| "run ser args (Collect (Some inner)) v =
     with_all (run ser args inner v) (\<lambda>xs. emit (JArray xs))"
| "run ser args (Call f None) v = call_builtin ser f ([], None) v"
| "run ser args (Call f (Some arg)) v = call_builtin ser f (run ser args arg v) v"

text \<open>\<open>eval\<close> keeps the results only without an error; \<open>eval_partial\<close> keeps both.\<close>

definition eval :: "(json \<Rightarrow> string) \<Rightarrow> (string, json) btmap \<Rightarrow> ast \<Rightarrow> json \<Rightarrow> runtime_error + json list" where
  "eval ser args f v =
     (case run ser args f v of (out, None) \<Rightarrow> Inr out | (_, Some e) \<Rightarrow> Inl e)"

definition render ::
  "(json \<Rightarrow> string) \<Rightarrow> (json \<Rightarrow> string) \<Rightarrow> json \<Rightarrow> bool \<Rightarrow> bool \<Rightarrow> string" where
  "render ser pretty v raw cpt =
     (case (raw, v) of
        (True, JString s) \<Rightarrow> s
      | _ \<Rightarrow>
        concat (map (\<lambda>c. if c = CHR 127 then CHR 0x5C # ''u007f'' else [c]) (if cpt then ser v else pretty v)))"

end
