(* ===== verification/Json_Query_Props.thy ===== *)
theory Json_Query_Props
  imports Json_Query
begin

text \<open>
  Properties of the evaluator and of jq's order: the algebra of filters, variables, selection and the
  total preorder over values.
\<close>

subsection \<open>The algebra of outcomes\<close>

lemma and_then_assoc: "and_then (and_then r s) t = and_then r (and_then s t)"
  by (cases r; cases s; cases t; cases "snd r"; cases "snd s") auto

lemma and_then_unit [simp]: "and_then ([], None) r = r" "and_then r ([], None) = r"
  by (cases r; simp) (cases r; cases "snd r"; simp)

lemma each_append: "each f (xs @ ys) = and_then (each f xs) (each f ys)"
  by (induction xs) (simp_all add: and_then_assoc)

lemma each_emit: "each (\<lambda>x. ([g x], None)) xs = (map g xs, None)"
  by (induction xs) simp_all

lemma for_results_emit [simp]: "for_results ([v], None) f = f v"
  by (simp add: for_results_def)

lemma for_results_emits [simp]: "for_results r (\<lambda>x. ([x], None)) = r"
  by (cases r; cases "snd r") (auto simp: for_results_def each_emit[of "\<lambda>x. x", simplified])

lemma and_then_error: "and_then r ([], e) = (fst r, case snd r of None \<Rightarrow> e | Some e' \<Rightarrow> Some e')"
  by (cases r; cases "snd r") auto

lemma each_results:
  "and_then (each g (fst (each f vs))) ([], snd (each f vs)) = each (\<lambda>x. for_results (f x) g) vs"
proof (induction vs)
  case Nil
  then show ?case by simp
next
  case (Cons v vs)
  obtain out e where f: "f v = (out, e)" by (cases "f v")
  show ?case
  proof (cases e)
    case None
    obtain o2 e2 where r: "each f vs = (o2, e2)" by (cases "each f vs")
    show ?thesis
      using Cons f None r by (simp add: for_results_def each_append and_then_assoc)
  next
    case (Some err)
    then show ?thesis using f by (cases "snd (each g out)"; cases "each g out") (simp_all add: for_results_def)
  qed
qed

lemma for_results_assoc:
  "for_results (for_results r f) g = for_results r (\<lambda>x. for_results (f x) g)"
proof -
  obtain vs e where r: "r = (vs, e)" by (cases r)
  obtain o2 e2 where f: "each f vs = (o2, e2)" by (cases "each f vs")
  have "and_then (each g o2) ([], case e2 of None \<Rightarrow> e | Some e' \<Rightarrow> Some e')
      = and_then (and_then (each g o2) ([], e2)) ([], e)"
    by (cases e2; cases "each g o2"; cases "snd (each g o2)") auto
  with each_results[of g f vs] f r show ?thesis
    by (simp add: for_results_def and_then_error)
qed

lemma for_results_and_then:
  "for_results (and_then r s) f = and_then (for_results r f) (for_results s f)"
proof -
  obtain vs e ws e' where r: "r = (vs, e)" "s = (ws, e')" by (cases r; cases s)
  then show ?thesis
    by (cases e; cases "each f vs"; cases "snd (each f vs)") (auto simp: for_results_def each_append and_then_assoc)
qed

lemma run_as_function:
  "run ser args Identity = (\<lambda>v. emit v)"
  "run ser args (Pipe a b) = (\<lambda>v. for_results (run ser args a v) (run ser args b))"
  by (rule ext, simp)+

text \<open>
  The algebra of filters: pipe and comma are associative, the identity is neutral for the pipe,
  \<open>empty\<close> for the comma, and the pipe distributes over a comma on its left, in the values pushed and
  in the error.
\<close>

theorem filter_algebra:
  "run ser args (Pipe (Pipe a b) c) v = run ser args (Pipe a (Pipe b c)) v
   \<and> run ser args (Comma (Comma a b) c) v = run ser args (Comma a (Comma b c)) v
   \<and> run ser args (Pipe Identity a) v = run ser args a v
   \<and> run ser args (Pipe a Identity) v = run ser args a v
   \<and> run ser args (Comma (Call Empty None) a) v = run ser args a v
   \<and> run ser args (Comma a (Call Empty None)) v = run ser args a v
   \<and> run ser args (Pipe (Comma a b) c) v = run ser args (Comma (Pipe a c) (Pipe b c)) v"
  by (simp add: run_as_function for_results_assoc and_then_assoc for_results_and_then)

subsection \<open>Variables\<close>

text \<open>The error of a computation comes out of one of its parts.\<close>

definition raised :: "outcome \<Rightarrow> runtime_error set" where
  "raised r = set_option (snd r)"

lemma raised_pair [simp]: "raised (vs, e) = set_option e"
  by (simp add: raised_def)

lemma raised_and_then: "raised (and_then r s) \<subseteq> raised r \<union> raised s"
  by (cases r; cases s; cases "snd r") auto

lemma raised_each: "raised (each f xs) \<subseteq> (\<Union>x \<in> set xs. raised (f x))"
proof (induction xs)
  case (Cons x xs)
  with raised_and_then[of "f x" "each f xs"] show ?case by auto
qed simp

lemma raised_for_results: "raised (for_results r f) \<subseteq> raised r \<union> (\<Union>x. raised (f x))"
proof -
  have "raised (for_results r f) \<subseteq> raised (each f (fst r)) \<union> raised ([], snd r)"
    unfolding for_results_def by (rule raised_and_then)
  moreover have "raised (each f (fst r)) \<subseteq> (\<Union>x. raised (f x))"
    using raised_each[of f "fst r"] by (auto simp del: raised_pair)
  ultimately show ?thesis by (auto simp: raised_def)
qed

lemma raised_with_all: "raised (with_all r f) \<subseteq> raised r \<union> (\<Union>vs. raised (f vs))"
  by (cases r; cases "snd r") auto

lemma primitives_defined:
  "NotDefined n \<notin> raised (index t k)" "NotDefined n \<notin> raised (iterate v)"
  "NotDefined n \<notin> raised (has_key v k)" "NotDefined n \<notin> raised (json_length v)"
  "NotDefined n \<notin> raised (json_keys b v)" "NotDefined n \<notin> raised (ascii_downcase v)"
  subgoal by (cases "(t, k)" rule: index.cases; simp)
  subgoal by (cases v; simp)
  subgoal by (cases "(v, k)" rule: has_key.cases; simp)
  subgoal by (cases v; simp)
  subgoal by (cases v; simp)
  subgoal by (cases v; simp)
  done

lemma call_defined:
  assumes "NotDefined n \<notin> raised arg"
  shows "NotDefined n \<notin> raised (call_builtin ser f arg v)"
proof (cases f)
  case Select
  with assms raised_for_results[of arg "\<lambda>x. if truthy x then emit v else ([], None)"]
  show ?thesis by (auto split: if_splits)
next
  case Has
  have "NotDefined n \<notin> raised (each (has_key v) ks)" for ks
    using raised_each[of "has_key v" ks] primitives_defined(3) by blast
  with Has assms raised_with_all[of arg "each (has_key v)"] show ?thesis by auto
qed (simp_all add: primitives_defined)

lemma set_variables [simp]: "set (variables f) = set (collect_vars f)"
  by (simp add: variables_def)

lemma for_results_defined:
  "NotDefined n \<notin> raised r \<Longrightarrow> (\<And>x. NotDefined n \<notin> raised (f x)) \<Longrightarrow> NotDefined n \<notin> raised (for_results r f)"
  using raised_for_results[of r f] by blast

lemma with_all_defined:
  "NotDefined n \<notin> raised r \<Longrightarrow> (\<And>x. NotDefined n \<notin> raised (f x)) \<Longrightarrow> NotDefined n \<notin> raised (with_all r f)"
  using raised_with_all[of r f] by blast

lemma each_defined:
  "(\<And>x. NotDefined n \<notin> raised (f x)) \<Longrightarrow> NotDefined n \<notin> raised (each f xs)"
  using raised_each[of f xs] by blast

lemma and_then_defined:
  "NotDefined n \<notin> raised r \<Longrightarrow> NotDefined n \<notin> raised s \<Longrightarrow> NotDefined n \<notin> raised (and_then r s)"
  using raised_and_then[of r s] by blast

lemmas defined_intros =
  for_results_defined with_all_defined each_defined and_then_defined call_defined primitives_defined

lemma run_defined:
  "set (collect_vars f) \<subseteq> dom (map_of args) \<Longrightarrow> NotDefined n \<notin> raised (run ser args f v)"
proof (induction ser args f v rule: run.induct)
  case (3 ser args name v)
  then show ?case by (auto split: option.splits)
qed (simp_all add: Let_def defined_intros)

text \<open>Only the variables that occur in a filter matter to it.\<close>

lemma run_agree:
  "(\<And>n. n \<in> set (collect_vars f) \<Longrightarrow> map_of args n = map_of args' n) \<Longrightarrow>
     run ser args f = run ser args' f"
proof (induction f)
  case (Collect a)
  then show ?case by (cases a) (auto intro!: ext)
next
  case (Call b a)
  then show ?case by (cases a) (auto intro!: ext)
qed (intro ext; simp add: Let_def cong: if_cong)+

text \<open>
  Variables. After the check that each variable of the filter is bound, no input makes it fail for
  an undefined variable, and bindings of other names change nothing.
\<close>

theorem checked_variables_are_enough:
  assumes "find (\<lambda>n. map_of args n = None) (variables f) = None"
  shows "snd (run ser args f v) \<noteq> Some (NotDefined n)
    \<and> (map_of args other = None \<longrightarrow> run ser (bt_insert other x args) f v = run ser args f v)"
proof
  from assms have bound: "set (collect_vars f) \<subseteq> dom (map_of args)"
    by (auto simp: find_None_iff)
  from run_defined[OF this, of n ser v] show "snd (run ser args f v) \<noteq> Some (NotDefined n)"
    by (auto simp: raised_def)
  show "map_of args other = None \<longrightarrow> run ser (bt_insert other x args) f v = run ser args f v"
  proof
    assume "map_of args other = None"
    with bound have "run ser (bt_insert other x args) f = run ser args f"
      by (intro run_agree) auto
    then show "run ser (bt_insert other x args) f v = run ser args f v" by simp
  qed
qed

theorem checked_variables_are_enough_witness:
  "snd (run (\<lambda>_. []) [(''k'', JString ''a'')] (Index Identity (Var ''k'')) JNull) \<noteq> Some (NotDefined ''k'')"
proof -
  have "find (\<lambda>n. map_of [(''k'', JString ''a'')] n = None) (variables (Index Identity (Var ''k''))) = None"
    by code_simp
  from checked_variables_are_enough[OF this] show ?thesis by blast
qed

subsection \<open>Selection\<close>

text \<open>
  Iterate and select is filtering: where the condition yields exactly one value on each element,
  \<open>.[] | select(c)\<close> pushes the elements on which it is true, in order, without an error, and the
  number of results of \<open>[.[] | select(c)] | length\<close> is their count.
\<close>

theorem select_filters:
  assumes "list_all (\<lambda>x. run ser args c x = emit (verdict x)) xs"
  shows "run ser args (Pipe (Iterate Identity) (Call Select (Some c))) (JArray xs)
      = (filter (\<lambda>x. truthy (verdict x)) xs, None)
    \<and> run ser args (Pipe (Collect (Some (Pipe (Iterate Identity) (Call Select (Some c))))) (Call Length None)) (JArray xs)
      = emit (json_of_len (length (filter (\<lambda>x. truthy (verdict x)) xs)))"
proof -
  have "each (run ser args (Call Select (Some c))) xs = (filter (\<lambda>x. truthy (verdict x)) xs, None)"
    using assms by (induction xs) (auto simp: for_results_def)
  then show ?thesis by (simp add: for_results_def)
qed

theorem select_filters_witness:
  "run (\<lambda>_. []) [] (Pipe (Iterate Identity) (Call Select (Some (Cmp OpGt Identity (Literal JNull)))))
     (JArray [JNull, JBool True, JString ''a'']) = ([JBool True, JString ''a''], None)"
proof -
  let ?xs = "[JNull, JBool True, JString ''a'']"
  let ?verdict = "\<lambda>x. JBool (cmp_holds OpGt (compare x JNull))"
  have "list_all (\<lambda>x. run (\<lambda>_. []) [] (Cmp OpGt Identity (Literal JNull)) x = emit (?verdict x)) ?xs"
    by simp
  from select_filters[OF this, THEN conjunct1] show ?thesis
    by (simp add: compare_simps)
qed

subsection \<open>The order over values\<close>

lemma compare_Equal_rank: "compare a b = Equal \<Longrightarrow> type_rank a = type_rank b"
  by (rule ccontr) (simp add: compare_simps(1))

lemma first_unequal_refl: "list_all (\<lambda>c. c = Equal) cs \<Longrightarrow> first_unequal cs d = d"
  by (induction cs) auto

lemma first_unequal_reverse:
  "ordering_reverse (first_unequal cs d) = first_unequal (map ordering_reverse cs) (ordering_reverse d)"
  by (induction cs) (auto, metis ordering.distinct ordering_reverse.elims)

text \<open>Same rank: the two values have the same constructor.\<close>

lemma same_rank_cases:
  assumes "type_rank a = type_rank b"
  obtains "a = JNull" "b = JNull" | p where "a = JBool p" "b = JBool p"
    | x y where "a = JNumber x" "b = JNumber y" | s t where "a = JString s" "b = JString t"
    | xs ys where "a = JArray xs" "b = JArray ys" | m n where "a = JObject m" "b = JObject n"
  using assms that by (cases a rule: type_rank.cases; cases b rule: type_rank.cases) auto

definition compare_at :: "(string \<times> json) list \<Rightarrow> (string \<times> json) list \<Rightarrow> string \<Rightarrow> ordering" where
  "compare_at m n k = (case (map_of m k, map_of n k) of (Some v, Some w) \<Rightarrow> compare v w | _ \<Rightarrow> Equal)"

lemma compare_object:
  "compare (JObject m) (JObject n) =
     (if cmp (sort (map fst m)) (sort (map fst n)) \<noteq> Equal
      then cmp (sort (map fst m)) (sort (map fst n))
      else first_unequal (map (compare_at m n) (sort (map fst m))) Equal)"
  by (subst compare.simps) (simp add: Let_def compare_at_def[abs_def])

lemma compare_refl: "compare a a = Equal"
proof (induction a)
  case (JArray xs)
  have "zip xs xs = map (\<lambda>x. (x, x)) xs" by (induction xs) auto
  with JArray show ?case
    by (auto simp: compare_simps list_all_iff intro!: first_unequal_refl[THEN trans])
next
  case (JObject m)
  then show ?case
    by (auto simp: compare_object compare_at_def list_all_iff cmp_def split: option.splits
        intro!: first_unequal_refl dest!: map_of_SomeD)
qed (simp_all add: compare_simps)


lemma compare_reverse_ranks:
  "type_rank a \<noteq> type_rank b \<Longrightarrow> compare b a = ordering_reverse (compare a b)"
  using compare_simps(1)[of a b] compare_simps(1)[of b a] by (simp add: cmp_reverse)

lemma compare_reverse: "compare b a = ordering_reverse (compare a b)"
proof (induction a arbitrary: b)
  case (JArray xs)
  show ?case
  proof (cases "\<exists>ys. b = JArray ys")
    case True
    then obtain ys where b: "b = JArray ys" by blast
    have "map (\<lambda>(p, q). compare p q) (zip ys xs) = map ordering_reverse (map (\<lambda>(p, q). compare p q) (zip xs ys))"
      by (subst zip_commute) (auto simp: JArray dest: set_zip_leftD)
    then show ?thesis by (simp add: b compare_simps first_unequal_reverse cmp_reverse)
  next
    case False
    then have "type_rank (JArray xs) \<noteq> type_rank b" by (cases b rule: type_rank.cases) auto
    then show ?thesis by (rule compare_reverse_ranks)
  qed
next
  case (JObject m)
  show ?case
  proof (cases "\<exists>n. b = JObject n")
    case True
    then obtain n where b: "b = JObject n" by blast
    have lookups: "compare_at n m = (\<lambda>k. ordering_reverse (compare_at m n k))"
      using JObject by (auto simp: compare_at_def split: option.splits dest!: map_of_SomeD intro!: ext)
    show ?thesis
    proof (cases "sort (map fst m) = sort (map fst n)")
      case True
      then show ?thesis
        by (simp add: b compare_object first_unequal_reverse lookups o_def)
    next
      case False
      then show ?thesis by (simp add: b compare_object cmp_reverse not_sym)
    qed
  next
    case False
    then have "type_rank (JObject m) \<noteq> type_rank b" by (cases b rule: type_rank.cases) auto
    then show ?thesis by (rule compare_reverse_ranks)
  qed
next
  case JNull
  then show ?case by (cases b rule: type_rank.cases) (simp_all add: compare_simps cmp_def)
next
  case (JBool p)
  then show ?case by (cases b rule: type_rank.cases; cases p) (simp_all add: compare_simps cmp_def)
next
  case (JNumber x)
  then show ?case by (cases b rule: type_rank.cases) (simp_all add: compare_simps cmp_def f64_cmp_reverse)
next
  case (JString s)
  then show ?case
    by (cases b rule: type_rank.cases)
      (auto intro: compare_reverse_ranks simp: compare_simps(5) cmp_reverse)
qed

text \<open>Three comparisons in a row: the outer one follows from the inner two.\<close>

definition chained :: "ordering \<Rightarrow> ordering \<Rightarrow> ordering \<Rightarrow> bool" where
  "chained ab bc ac \<longleftrightarrow>
     (ab \<noteq> Greater \<longrightarrow> bc \<noteq> Greater \<longrightarrow> ac \<noteq> Greater \<and> (ac = Equal \<longleftrightarrow> ab = Equal \<and> bc = Equal))"

lemma chained_cmp: "chained (cmp x y) (cmp y z) (cmp x z)"
  by (auto simp: chained_def cmp_def split: if_splits)

lemma chained_first_unequal:
  "(\<And>k. k \<in> set ks \<Longrightarrow> chained (f k) (g k) (h k)) \<Longrightarrow> chained d d' d'' \<Longrightarrow>
     chained (first_unequal (map f ks) d) (first_unequal (map g ks) d') (first_unequal (map h ks) d'')"
proof (induction ks)
  case (Cons k ks)
  then have "chained (f k) (g k) (h k)" by simp
  with Cons show ?case
    by (auto simp: chained_def split: if_splits)
qed simp

lemma chained_arrays:
  "(\<And>x y z. x \<in> set xs \<Longrightarrow> chained (compare x y) (compare y z) (compare x z)) \<Longrightarrow>
     chained (compare (JArray xs) (JArray ys)) (compare (JArray ys) (JArray zs)) (compare (JArray xs) (JArray zs))"
proof (induction xs arbitrary: ys zs)
  case Nil
  then show ?case
    by (cases ys; cases zs) (auto simp: compare_simps chained_def cmp_def split: if_splits)
next
  case (Cons x xs)
  show ?case
  proof (cases "ys = [] \<or> zs = []")
    case True
    then show ?thesis
      by (cases ys; cases zs) (auto simp: compare_simps chained_def cmp_def split: if_splits)
  next
    case False
    then obtain y ys' z zs' where yz: "ys = y # ys'" "zs = z # zs'" by (meson neq_Nil_conv)
    have "chained (compare (JArray xs) (JArray ys')) (compare (JArray ys') (JArray zs')) (compare (JArray xs) (JArray zs'))"
      using Cons by simp
    moreover have "chained (compare x y) (compare y z) (compare x z)" using Cons.prems by simp
    moreover have "cmp (Suc a) (Suc b) = cmp a b" for a b by (simp add: cmp_def)
    ultimately show ?thesis
      unfolding yz by (auto simp: compare_simps chained_def split: if_splits)
  qed
qed


lemma chained_objects:
  assumes "\<And>k x y z. (k, x) \<in> set m \<Longrightarrow> chained (compare x y) (compare y z) (compare x z)"
  shows "chained (compare (JObject m) (JObject n)) (compare (JObject n) (JObject l)) (compare (JObject m) (JObject l))"
proof (cases "sort (map fst m) = sort (map fst n) \<and> sort (map fst n) = sort (map fst l)")
  case True
  have keys: "set (map fst m) = set (map fst n)" "set (map fst n) = set (map fst l)"
    using True by (metis set_sort)+
  have "chained (compare_at m n k) (compare_at n l k) (compare_at m l k)" if "k \<in> set (sort (map fst m))" for k
  proof -
    from that keys have "k \<in> set (map fst m)" "k \<in> set (map fst n)" "k \<in> set (map fst l)" by auto
    then obtain x y z where "map_of m k = Some x" "map_of n k = Some y" "map_of l k = Some z"
      by (metis list.set_map map_of_eq_None_iff not_Some_eq)
    with assms[of k x] show ?thesis by (auto simp: compare_at_def dest: map_of_SomeD)
  qed
  with chained_first_unequal[of "sort (map fst m)" "compare_at m n" "compare_at n l" "compare_at m l" Equal Equal Equal]
  have "chained (first_unequal (map (compare_at m n) (sort (map fst m))) Equal)
      (first_unequal (map (compare_at n l) (sort (map fst m))) Equal)
      (first_unequal (map (compare_at m l) (sort (map fst m))) Equal)"
    by (simp add: chained_def)
  with True show ?thesis by (simp add: compare_object)
next
  case False
  let ?k = "\<lambda>m :: (string \<times> json) list. sort (map fst m)"
  from False chained_cmp[of "?k m" "?k n" "?k l"] show ?thesis
    by (auto simp: compare_object chained_def)
qed

lemma compare_rank:
  "compare a b \<noteq> Greater \<Longrightarrow> type_rank a \<le> type_rank b"
  "type_rank a < type_rank b \<Longrightarrow> compare a b = Less"
  using compare_simps(1)[of a b] by (cases "type_rank a = type_rank b"; simp)+

lemma chained_ranks:
  assumes "\<not> (type_rank a = type_rank b \<and> type_rank b = type_rank c)"
  shows "chained (compare a b) (compare b c) (compare a c)"
proof -
  have "compare a c = Less \<and> \<not> (compare a b = Equal \<and> compare b c = Equal)"
    if "compare a b \<noteq> Greater" "compare b c \<noteq> Greater"
  proof -
    from compare_rank(1)[OF that(1)] compare_rank(1)[OF that(2)] assms
    have "type_rank a < type_rank c" by auto
    with compare_rank(2) compare_Equal_rank assms show ?thesis by blast
  qed
  then show ?thesis by (auto simp: chained_def)
qed

lemma chained_same_rank:
  assumes "type_rank a = type_rank b" and "type_rank b = type_rank c"
    and "type_rank a \<noteq> 5" and "type_rank a \<noteq> 6"
  shows "chained (compare a b) (compare b c) (compare a c)"
proof -
  have "chained (f64_cmp x y) (f64_cmp y z) (f64_cmp x z)" for x y z
    using f64_cmp_trans[of x y z] by (auto simp: chained_def)
  with assms chained_cmp show ?thesis
    by (cases a rule: type_rank.cases; cases b rule: type_rank.cases; cases c rule: type_rank.cases)
      (simp_all add: compare_simps, simp_all add: chained_def)
qed

lemma compare_chained: "chained (compare a b) (compare b c) (compare a c)"
proof (induction a arbitrary: b c)
  case (JArray xs)
  show ?case
  proof (cases "type_rank (JArray xs) = type_rank b \<and> type_rank b = type_rank c")
    case True
    then obtain ys zs where "b = JArray ys" "c = JArray zs"
      by (cases b rule: type_rank.cases; cases c rule: type_rank.cases) auto
    with chained_arrays[of xs] JArray show ?thesis by blast
  next
    case False
    then show ?thesis by (rule chained_ranks)
  qed
next
  case (JObject m)
  show ?case
  proof (cases "type_rank (JObject m) = type_rank b \<and> type_rank b = type_rank c")
    case True
    then obtain n l where bc: "b = JObject n" "c = JObject l"
      by (cases b rule: type_rank.cases; cases c rule: type_rank.cases) auto
    have "chained (compare x y) (compare y z) (compare x z)" if "(k, x) \<in> set m" for k x y z
      using JObject[OF that] by simp
    then show ?thesis unfolding bc by (rule chained_objects)
  next
    case False
    then show ?thesis by (rule chained_ranks)
  qed
next
  case (JBool p)
  then show ?case
    by (cases "type_rank (JBool p) = type_rank b \<and> type_rank b = type_rank c"; cases p)
      (auto intro: chained_ranks chained_same_rank)
next
  case JNull
  then show ?case
    by (cases "type_rank JNull = type_rank b \<and> type_rank b = type_rank c")
      (auto intro: chained_ranks chained_same_rank)
next
  case (JNumber x)
  then show ?case
    by (cases "type_rank (JNumber x) = type_rank b \<and> type_rank b = type_rank c")
      (auto intro: chained_ranks chained_same_rank)
next
  case (JString s)
  then show ?case
    by (cases "type_rank (JString s) = type_rank b \<and> type_rank b = type_rank c")
      (auto intro: chained_ranks chained_same_rank)
qed

text \<open>
  \<open>compare\<close> is a total preorder: every value equals itself, swapping the arguments reverses the
  answer, and below is transitive, with equality exactly when both steps are equalities.
\<close>

theorem compare_total_preorder:
  "compare a a = Equal
   \<and> compare b a = ordering_reverse (compare a b)
   \<and> (compare a b \<noteq> Greater \<and> compare b c \<noteq> Greater \<longrightarrow>
        compare a c \<noteq> Greater \<and> (compare a c = Equal \<longleftrightarrow> compare a b = Equal \<and> compare b c = Equal))"
proof (intro conjI)
  show "compare a a = Equal" by (rule compare_refl)
  show "compare b a = ordering_reverse (compare a b)" by (rule compare_reverse)
qed (use compare_chained[of a b c] in \<open>unfold chained_def, blast\<close>)


theorem compare_total_preorder_witness:
  "compare JNull (JString ''a'') \<noteq> Greater"
proof -
  have "compare JNull (JBool True) \<noteq> Greater" "compare (JBool True) (JString ''a'') \<noteq> Greater"
    by (simp_all add: compare_simps)
  with compare_total_preorder[of JNull "JBool True" "JString ''a''"] show ?thesis by blast
qed


text \<open>
  Numbers compare by value: integers of up to 53 bits, whether they were read as integers or as
  doubles, as their values do.
\<close>

definition denotes :: "json \<Rightarrow> int \<Rightarrow> bool" where
  "denotes v i \<longleftrightarrow> v = json_of_int i \<or> v = JNumber (Float (f64_of_int i))"

lemma compare_integers:
  assumes "\<bar>i\<bar> \<le> 2 ^ 53" and "\<bar>j\<bar> \<le> 2 ^ 53" and "denotes a i" and "denotes b j"
  shows "compare a b = cmp i j"
proof -
  have "\<exists>n. v = JNumber n \<and> as_f64 n = f64_of_int k" if "denotes v k" "\<bar>k\<bar> \<le> 2 ^ 53" for v k
  proof (cases "v = json_of_int k")
    case True
    have "sint (word_of_int k :: 64 word) = k" "0 \<le> k \<Longrightarrow> uint (word_of_int k :: 64 word) = k"
      using that(2) by (auto simp: sint_uint uint_word_of_int_eq signed_take_bit_take_bit signed_take_bit_int_eq_self
          take_bit_int_eq_self)
    with True show ?thesis by (auto simp: json_of_int_def)
  next
    case False
    with that show ?thesis by (simp add: denotes_def)
  qed
  with assms obtain n m where "a = JNumber n" "as_f64 n = f64_of_int i" "b = JNumber m" "as_f64 m = f64_of_int j"
    by metis
  then show ?thesis using f64_cmp_ints[OF assms(1,2)] by (simp add: compare_simps)
qed

end
