(* ===== verification/Json_Parser.thy ===== *)
theory Json_Parser
  imports Json_Query
begin

text \<open>
  The lexer and the recursive descent parser of filters (\<open>json_query.rs\<close>). The source is a byte
  sequence, offsets are byte offsets as in the code; the characters that mean something to the lexer
  are ASCII, and a byte above 127 is copied inside a string literal and refused elsewhere; an error names a character
  by its first byte. The parser
  functions take the tokens that are left instead of a position. Recursion is bounded by fuel that
  every call passes on less one, \<open>None\<close> when it runs out; \<open>parse\<close> starts with enough.
\<close>

subsection \<open>Tokens and errors\<close>

datatype tok =
    TDot | TDotDot | TField string | TIdent string | TVar string | TStr string | TNum f64
  | TPipe | TComma | TAlt | TEq | TNe | TLt | TLe | TGt | TGe
  | TLParen | TRParen | TLBrack | TRBrack | TQuestion

type_synonym spanned = "tok \<times> nat"

datatype parse_problem =
    Unexpected tok
  | UnexpectedWord string
  | UnexpectedEnd
  | UnexpectedDot
  | UnexpectedBang
  | UnexpectedCharacter char
  | ExpectedVariable
  | UnterminatedString
  | UnterminatedEscape
  | BadUnicodeEscape
  | BadEscape char
  | BadNumber string
  | Expected tok "tok option"
  | ComparisonChain

datatype query_error = ParseError nat parse_problem | Unsupported string

subsection \<open>The lexer\<close>

definition is_ident_start :: "char \<Rightarrow> bool" where
  "is_ident_start c \<longleftrightarrow> is_ascii_lowercase c \<or> is_ascii_uppercase c \<or> c = CHR ''_''"

definition is_ident_char :: "char \<Rightarrow> bool" where
  "is_ident_char c \<longleftrightarrow> is_ascii_alphanumeric c \<or> c = CHR ''_''"

definition next_is :: "(char \<Rightarrow> bool) \<Rightarrow> string \<Rightarrow> bool" where
  "next_is P s = (case s of [] \<Rightarrow> False | c # _ \<Rightarrow> P c)"

abbreviation next_char :: "char \<Rightarrow> string \<Rightarrow> bool" where
  "next_char c \<equiv> next_is (\<lambda>x. x = c)"

definition hex_value :: "char \<Rightarrow> nat option" where
  "hex_value c =
     (if is_ascii_digit c then Some (of_char c - 48)
      else if 97 \<le> (of_char c :: nat) \<and> (of_char c :: nat) \<le> 102 then Some (of_char c - 87)
      else if 65 \<le> (of_char c :: nat) \<and> (of_char c :: nat) \<le> 70 then Some (of_char c - 55)
      else None)"

fun hex_digits :: "nat \<Rightarrow> string \<Rightarrow> nat option" where
  "hex_digits acc [] = Some acc"
| "hex_digits acc (c # cs) =
     (case hex_value c of Some d \<Rightarrow> hex_digits (16 * acc + d) cs | None \<Rightarrow> None)"

text \<open>\<open>u32::from_str_radix(hex, 16)\<close>, which admits a plus sign, on at most four characters.\<close>

definition parse_hex :: "string \<Rightarrow> nat option" where
  "parse_hex s =
     (let d = (case s of c # r \<Rightarrow> if c = CHR ''+'' then r else s | [] \<Rightarrow> [])
      in if d = [] then None else hex_digits 0 d)"

text \<open>\<open>char::from_u32\<close> up to four hexadecimal digits, in UTF-8; the surrogates are no characters.\<close>

definition encode_utf8 :: "nat \<Rightarrow> string option" where
  "encode_utf8 n =
     (if 0xD800 \<le> n \<and> n \<le> 0xDFFF then None
      else Some (if n < 0x80 then [char_of n]
                 else if n < 0x800 then [char_of (0xC0 + n div 64), char_of (0x80 + n mod 64)]
                 else [char_of (0xE0 + n div 4096), char_of (0x80 + n div 64 mod 64),
                       char_of (0x80 + n mod 64)]))"

definition simple_escape :: "char \<Rightarrow> char option" where
  "simple_escape e =
     (if e = CHR 0x22 \<or> e = CHR 0x5C \<or> e = CHR ''/'' then Some e
      else if e = CHR ''b'' then Some (CHR 8)
      else if e = CHR ''f'' then Some (CHR 12)
      else if e = CHR ''n'' then Some (CHR 10)
      else if e = CHR ''r'' then Some (CHR 13)
      else if e = CHR ''t'' then Some (CHR 9)
      else None)"

text \<open>
  The body of a string literal that opened at \<open>start\<close>, reading at \<open>j\<close>: its content and the text
  after the closing quote.
\<close>

function lex_string :: "nat \<Rightarrow> nat \<Rightarrow> string \<Rightarrow> string \<Rightarrow> query_error + string \<times> string" where
  "lex_string start j acc [] = Inl (ParseError start UnterminatedString)"
| "lex_string start j acc (ch # s) =
     (if ch = CHR 0x22 then Inr (acc, s)
      else if ch = CHR 0x5C then
        (case s of
           [] \<Rightarrow> Inl (ParseError start UnterminatedEscape)
         | e # r \<Rightarrow>
             (case simple_escape e of
                Some c \<Rightarrow> lex_string start (j + 2) (acc @ [c]) r
              | None \<Rightarrow>
                  if e = CHR ''u'' then
                    (case parse_hex (take 4 r) of
                       None \<Rightarrow> Inl (ParseError j BadUnicodeEscape)
                     | Some code \<Rightarrow>
                         (case encode_utf8 code of
                            None \<Rightarrow> Inl (Unsupported (''surrogate '' @ CHR 0x5C # ''u escape''))
                          | Some cs \<Rightarrow> lex_string start (j + 6) (acc @ cs) (drop 4 r)))
                  else if e = CHR ''('' then Inl (Unsupported ''string interpolation'')
                  else Inl (ParseError j (BadEscape e))))
      else lex_string start (j + 1) (acc @ [ch]) s)"
  by pat_completeness auto
termination by (relation "measure (\<lambda>(_, _, _, s). length s)") auto

text \<open>The extent of a number: digits and points, and for an unsigned one an exponent.\<close>

definition is_number_char :: "char \<Rightarrow> bool" where
  "is_number_char c \<longleftrightarrow> is_ascii_digit c \<or> c = CHR ''.''"

definition number_extent :: "string \<Rightarrow> nat" where
  "number_extent s =
     (let m = length (takeWhile is_number_char s);
          r = drop m s
      in if next_is is_exponent_mark r
         then (let r1 = tl r;
                   sg = (if next_char (CHR ''+'') r1 \<or> next_char (CHR ''-'') r1 then 1 else 0)
               in m + 1 + sg + length (takeWhile is_ascii_digit (drop sg r1)))
         else m)"

fun is_operand :: "tok \<Rightarrow> bool" where
  "is_operand TDot = True"
| "is_operand (TField _) = True"
| "is_operand (TIdent _) = True"
| "is_operand (TVar _) = True"
| "is_operand (TStr _) = True"
| "is_operand (TNum _) = True"
| "is_operand TRParen = True"
| "is_operand TRBrack = True"
| "is_operand TQuestion = True"
| "is_operand _ = False"

definition ident_extent :: "string \<Rightarrow> nat" where
  "ident_extent s = length (takeWhile is_ident_char s)"

text \<open>
  One turn of the loop of \<open>lex\<close> at offset \<open>pos\<close>, on the text \<open>c # s\<close> from there, after the token
  \<open>prev\<close>: the token it pushes, if any, and how many bytes it consumes.
\<close>

definition push :: "tok \<Rightarrow> nat \<Rightarrow> query_error + tok option \<times> nat" where
  "push k n = Inr (Some k, n)"

definition lex_number :: "nat \<Rightarrow> string \<Rightarrow> query_error + tok option \<times> nat" where
  "lex_number pos txt =
     (case parse_f64 txt of
        Some f \<Rightarrow> push (TNum f) (length txt)
      | None \<Rightarrow> Inl (ParseError pos (BadNumber txt)))"

text \<open>The arms of the match in three parts: words and literals of the front, operators, the rest.\<close>

definition lex_rest :: "nat \<Rightarrow> tok option \<Rightarrow> char \<Rightarrow> string \<Rightarrow> query_error + tok option \<times> nat" where
  "lex_rest pos prev c s =
     (if c = CHR ''{'' \<or> c = CHR ''}'' then Inl (Unsupported ''object construction'')
      else if c = CHR ''+'' \<or> c = CHR ''*'' \<or> c = CHR ''%'' then Inl (Unsupported ''arithmetic'')
      else if c = CHR ''-'' then
        (if next_is is_ascii_digit s
         then (if (case prev of Some k \<Rightarrow> is_operand k | None \<Rightarrow> False)
               then Inl (Unsupported ''arithmetic'')
               else lex_number pos (c # takeWhile is_number_char s))
         else Inl (Unsupported ''arithmetic''))
      else if c = CHR ''@'' then Inl (Unsupported ''@format'')
      else if c = CHR '':'' then Inl (Unsupported ''slice'')
      else if c = CHR '';'' then Inl (Unsupported ''multi-argument call'')
      else if is_ident_start c then
        (let n = ident_extent (c # s)
         in if next_char (CHR '':'') (drop n (c # s)) then Inl (Unsupported ''module path'')
            else push (TIdent (take n (c # s))) n)
      else Inl (ParseError pos (UnexpectedCharacter c)))"

definition lex_operator :: "nat \<Rightarrow> tok option \<Rightarrow> char \<Rightarrow> string \<Rightarrow> query_error + tok option \<times> nat" where
  "lex_operator pos prev c s =
     (if c = CHR ''|'' then
        (if next_char (CHR ''='') s then Inl (Unsupported ''update-assignment'') else push TPipe 1)
      else if c = CHR '','' then push TComma 1
      else if c = CHR ''/'' then
        (if next_char (CHR ''/'') s
         then (if next_char (CHR ''='') (tl s) then Inl (Unsupported ''alternative-assignment'')
               else push TAlt 2)
         else Inl (Unsupported ''arithmetic''))
      else if c = CHR ''='' then
        (if next_char (CHR ''='') s then push TEq 2 else Inl (Unsupported ''assignment''))
      else if c = CHR ''!'' then
        (if next_char (CHR ''='') s then push TNe 2 else Inl (ParseError pos UnexpectedBang))
      else if c = CHR ''<'' then (if next_char (CHR ''='') s then push TLe 2 else push TLt 1)
      else if c = CHR ''>'' then (if next_char (CHR ''='') s then push TGe 2 else push TGt 1)
      else if c = CHR ''('' then push TLParen 1
      else if c = CHR '')'' then push TRParen 1
      else if c = CHR ''['' then push TLBrack 1
      else if c = CHR '']'' then push TRBrack 1
      else if c = CHR ''?'' then
        (if next_char (CHR ''/'') s \<and> next_char (CHR ''/'') (tl s)
         then Inl (Unsupported ''destructuring-alternative'') else push TQuestion 1)
      else lex_rest pos prev c s)"

definition lex_token :: "nat \<Rightarrow> tok option \<Rightarrow> char \<Rightarrow> string \<Rightarrow> query_error + tok option \<times> nat" where
  "lex_token pos prev c s =
     (if c \<in> {CHR '' '', CHR 9, CHR 10, CHR 13} then Inr (None, 1)
      else if c = CHR ''#'' then Inl (Unsupported ''comment'')
      else if c = CHR ''.'' then
        (if next_char (CHR ''.'') s then push TDotDot 2
         else if next_is is_ident_start s
           then push (TField (take (ident_extent s) s)) (1 + ident_extent s)
         else push TDot 1)
      else if c = CHR ''$'' then
        (if \<not> next_is is_ident_start s then Inl (ParseError pos ExpectedVariable)
         else if take (ident_extent s) s = ''__loc__'' then Inl (Unsupported ''$__loc__'')
         else push (TVar (take (ident_extent s) s)) (1 + ident_extent s))
      else if c = CHR 0x22 then
        (case lex_string pos (pos + 1) [] s of
           Inl e \<Rightarrow> Inl e
         | Inr (str, r) \<Rightarrow> push (TStr str) (1 + length s - length r))
      else if is_ascii_digit c then
        lex_number pos (take (number_extent (c # s)) (c # s))
      else lex_operator pos prev c s)"

text \<open>The loop. Every turn consumes at least one byte, which \<open>max\<close> makes visible.\<close>

function lex_loop :: "nat \<Rightarrow> string \<Rightarrow> spanned list \<Rightarrow> query_error + spanned list" where
  "lex_loop pos [] out = Inr out"
| "lex_loop pos (c # s) out =
     (case lex_token pos (if out = [] then None else Some (fst (last out))) c s of
        Inl e \<Rightarrow> Inl e
      | Inr (k, n) \<Rightarrow>
          lex_loop (pos + max 1 n) (drop (max 1 n) (c # s))
            (case k of Some t \<Rightarrow> out @ [(t, pos)] | None \<Rightarrow> out))"
  by pat_completeness auto
termination by (relation "measure (\<lambda>(_, s, _). length s)") auto

definition lex :: "string \<Rightarrow> query_error + spanned list" where
  "lex src = lex_loop 0 src []"


subsection \<open>The parser\<close>

type_synonym 'a presult = "(query_error + 'a \<times> spanned list) option"

abbreviation ok :: "'a \<Rightarrow> spanned list \<Rightarrow> 'a presult" where "ok a ts \<equiv> Some (Inr (a, ts))"

abbreviation fail :: "query_error \<Rightarrow> 'a presult" where "fail e \<equiv> Some (Inl e)"

fun pbind :: "'a presult \<Rightarrow> ('a \<Rightarrow> spanned list \<Rightarrow> 'b presult) \<Rightarrow> 'b presult" where
  "pbind None f = None"
| "pbind (Some (Inl e)) f = Some (Inl e)"
| "pbind (Some (Inr (a, ts))) f = f a ts"

definition at_of :: "nat \<Rightarrow> spanned list \<Rightarrow> nat" where
  "at_of len ts = (case ts of [] \<Rightarrow> len | (_, pos) # _ \<Rightarrow> pos)"

definition peek_ident :: "string \<Rightarrow> spanned list \<Rightarrow> bool" where
  "peek_ident w ts = (case ts of (TIdent k, _) # _ \<Rightarrow> k = w | _ \<Rightarrow> False)"

definition expect :: "nat \<Rightarrow> tok \<Rightarrow> spanned list \<Rightarrow> unit presult" where
  "expect len want ts =
     (case ts of
        (k, pos) # r \<Rightarrow> if k = want then ok () r else fail (ParseError pos (Expected want (Some k)))
      | [] \<Rightarrow> fail (ParseError len (Expected want None)))"

definition cmp_op_of :: "spanned list \<Rightarrow> cmp_op option" where
  "cmp_op_of ts =
     (case ts of
        (TEq, _) # _ \<Rightarrow> Some OpEq | (TNe, _) # _ \<Rightarrow> Some OpNe
      | (TLt, _) # _ \<Rightarrow> Some OpLt | (TLe, _) # _ \<Rightarrow> Some OpLe
      | (TGt, _) # _ \<Rightarrow> Some OpGt | (TGe, _) # _ \<Rightarrow> Some OpGe
      | _ \<Rightarrow> None)"

definition builtin_of :: "string \<Rightarrow> ast option \<Rightarrow> query_error + ast" where
  "builtin_of name arg =
     (if name = ''select'' \<and> arg \<noteq> None then Inr (Call Select arg)
      else if name = ''has'' \<and> arg \<noteq> None then Inr (Call Has arg)
      else if name = ''length'' \<and> arg = None then Inr (Call Length arg)
      else if name = ''keys'' \<and> arg = None then Inr (Call Keys arg)
      else if name = ''keys_unsorted'' \<and> arg = None then Inr (Call KeysUnsorted arg)
      else if name = ''type'' \<and> arg = None then Inr (Call TypeOf arg)
      else if name = ''not'' \<and> arg = None then Inr (Call Not arg)
      else if name = ''empty'' \<and> arg = None then Inr (Call Empty arg)
      else if name = ''ascii_downcase'' \<and> arg = None then Inr (Call AsciiDowncase arg)
      else if name = ''tostring'' \<and> arg = None then Inr (Call ToString arg)
      else Inl (Unsupported (name @ (if arg \<noteq> None then ''/1'' else ''/0''))))"

definition finish_call :: "string \<Rightarrow> ast option \<Rightarrow> spanned list \<Rightarrow> ast presult" where
  "finish_call name arg ts =
     (case builtin_of name arg of Inl e \<Rightarrow> fail e | Inr a \<Rightarrow> ok a ts)"

text \<open>Words that are not calls: literals, refused keywords and misplaced operators.\<close>

definition keyword :: "string \<Rightarrow> nat \<Rightarrow> (query_error + ast) option" where
  "keyword name pos =
     (if name = ''true'' then Some (Inr (Literal (JBool True)))
      else if name = ''false'' then Some (Inr (Literal (JBool False)))
      else if name = ''null'' then Some (Inr (Literal JNull))
      else if name \<in> {''if'', ''then'', ''elif'', ''else'', ''end''} then Some (Inl (Unsupported ''if''))
      else if name \<in> {''reduce'', ''foreach'', ''try'', ''catch'', ''label'', ''import'', ''include'', ''def''}
        then Some (Inl (Unsupported name))
      else if name \<in> {''and'', ''or'', ''as''} then Some (Inl (ParseError pos (UnexpectedWord name)))
      else None)"

text \<open>
  The grammar's functions call each other through \<open>p\<close>, which takes the name of the function and the
  tokens; \<open>parse_nt\<close> below ties the knot and counts the fuel down. Loops carry what they have
  built so far.
\<close>

datatype grammar_rule =
    NPipe | NComma | NCommaLoop ast | NAlt | NOr | NOrLoop ast | NAnd | NAndLoop ast | NCmp
  | NPostfix | NPostfixLoop ast | NBracket ast | NTerm | NCall string nat

type_synonym parser = "grammar_rule \<Rightarrow> spanned list \<Rightarrow> ast presult"

definition p_pipe :: "parser \<Rightarrow> spanned list \<Rightarrow> ast presult" where
  "p_pipe p ts =
     (if peek_ident ''def'' ts then fail (Unsupported ''def'')
      else pbind (p NComma ts) (\<lambda>lhs r.
        if peek_ident ''as'' r then fail (Unsupported ''variable binding'')
        else (case r of
           (TPipe, _) # r' \<Rightarrow> pbind (p NPipe r') (\<lambda>rhs r2. ok (Pipe lhs rhs) r2)
         | _ \<Rightarrow> ok lhs r)))"

definition p_comma :: "parser \<Rightarrow> spanned list \<Rightarrow> ast presult" where
  "p_comma p ts = pbind (p NAlt ts) (\<lambda>lhs. p (NCommaLoop lhs))"

definition p_comma_loop :: "parser \<Rightarrow> ast \<Rightarrow> spanned list \<Rightarrow> ast presult" where
  "p_comma_loop p lhs ts =
     (case ts of
        (TComma, _) # r \<Rightarrow> pbind (p NAlt r) (\<lambda>rhs. p (NCommaLoop (Comma lhs rhs)))
      | _ \<Rightarrow> ok lhs ts)"

definition p_alt :: "parser \<Rightarrow> spanned list \<Rightarrow> ast presult" where
  "p_alt p ts =
     pbind (p NOr ts) (\<lambda>lhs r.
       (case r of
          (TAlt, _) # r' \<Rightarrow> pbind (p NAlt r') (\<lambda>rhs r2. ok (Alt lhs rhs) r2)
        | _ \<Rightarrow> ok lhs r))"

definition p_or :: "parser \<Rightarrow> spanned list \<Rightarrow> ast presult" where
  "p_or p ts = pbind (p NAnd ts) (\<lambda>lhs. p (NOrLoop lhs))"

definition p_or_loop :: "parser \<Rightarrow> ast \<Rightarrow> spanned list \<Rightarrow> ast presult" where
  "p_or_loop p lhs ts =
     (if peek_ident ''or'' ts then pbind (p NAnd (tl ts)) (\<lambda>rhs. p (NOrLoop (Or lhs rhs)))
      else ok lhs ts)"

definition p_and :: "parser \<Rightarrow> spanned list \<Rightarrow> ast presult" where
  "p_and p ts = pbind (p NCmp ts) (\<lambda>lhs. p (NAndLoop lhs))"

definition p_and_loop :: "parser \<Rightarrow> ast \<Rightarrow> spanned list \<Rightarrow> ast presult" where
  "p_and_loop p lhs ts =
     (if peek_ident ''and'' ts then pbind (p NCmp (tl ts)) (\<lambda>rhs. p (NAndLoop (And lhs rhs)))
      else ok lhs ts)"

definition p_cmp :: "parser \<Rightarrow> nat \<Rightarrow> spanned list \<Rightarrow> ast presult" where
  "p_cmp p len ts =
     pbind (p NPostfix ts) (\<lambda>lhs r.
       (case cmp_op_of r of
          None \<Rightarrow> ok lhs r
        | Some c \<Rightarrow>
            pbind (p NPostfix (tl r)) (\<lambda>rhs r2.
              if cmp_op_of r2 \<noteq> None then fail (ParseError (at_of len r2) ComparisonChain)
              else ok (Cmp c lhs rhs) r2)))"

definition p_postfix :: "parser \<Rightarrow> spanned list \<Rightarrow> ast presult" where
  "p_postfix p ts = pbind (p NTerm ts) (\<lambda>t. p (NPostfixLoop t))"

definition p_postfix_loop :: "parser \<Rightarrow> ast \<Rightarrow> spanned list \<Rightarrow> ast presult" where
  "p_postfix_loop p t ts =
     (case ts of
        (TField name, _) # r \<Rightarrow> p (NPostfixLoop (Index t (Literal (JString name)))) r
      | (TDot, pos) # r \<Rightarrow>
          (case r of
             (TStr s, _) # r' \<Rightarrow> p (NPostfixLoop (Index t (Literal (JString s)))) r'
           | (TLBrack, _) # _ \<Rightarrow> pbind (p (NBracket t) r) (\<lambda>t'. p (NPostfixLoop t'))
           | _ \<Rightarrow> fail (ParseError pos UnexpectedDot))
      | (TLBrack, _) # _ \<Rightarrow> pbind (p (NBracket t) ts) (\<lambda>t'. p (NPostfixLoop t'))
      | (TQuestion, _) # r \<Rightarrow> p (NPostfixLoop (Try t)) r
      | _ \<Rightarrow> ok t ts)"

definition p_bracket :: "parser \<Rightarrow> nat \<Rightarrow> ast \<Rightarrow> spanned list \<Rightarrow> ast presult" where
  "p_bracket p len target ts =
     pbind (expect len TLBrack ts) (\<lambda>_ r.
       (case r of
          (TRBrack, _) # r' \<Rightarrow> ok (Iterate target) r'
        | _ \<Rightarrow> pbind (p NPipe r) (\<lambda>key r2.
                 pbind (expect len TRBrack r2) (\<lambda>_ r3. ok (Index target key) r3))))"

definition p_term :: "parser \<Rightarrow> nat \<Rightarrow> spanned list \<Rightarrow> ast presult" where
  "p_term p len ts =
     (case ts of
        [] \<Rightarrow> fail (ParseError len UnexpectedEnd)
      | (k, pos) # r \<Rightarrow>
          (case k of
             TDot \<Rightarrow>
               (case r of
                  (TStr s, _) # r' \<Rightarrow> ok (Index Identity (Literal (JString s))) r'
                | (TLBrack, _) # _ \<Rightarrow> p (NBracket Identity) r
                | _ \<Rightarrow> ok Identity r)
           | TDotDot \<Rightarrow> fail (Unsupported ''recursive descent (..)'')
           | TField name \<Rightarrow> ok (Index Identity (Literal (JString name))) r
           | TVar name \<Rightarrow> ok (Var name) r
           | TStr s \<Rightarrow> ok (Literal (JString s)) r
           | TNum f \<Rightarrow> ok (Literal (json_number f)) r
           | TLParen \<Rightarrow>
               pbind (p NPipe r) (\<lambda>inner r2.
                 pbind (expect len TRParen r2) (\<lambda>_ r3. ok inner r3))
           | TLBrack \<Rightarrow>
               (case r of
                  (TRBrack, _) # r' \<Rightarrow> ok (Collect None) r'
                | _ \<Rightarrow> pbind (p NPipe r) (\<lambda>inner r2.
                         pbind (expect len TRBrack r2) (\<lambda>_ r3. ok (Collect (Some inner)) r3)))
           | TIdent name \<Rightarrow> p (NCall name pos) r
           | _ \<Rightarrow> fail (ParseError pos (Unexpected k))))"

definition p_call :: "parser \<Rightarrow> string \<Rightarrow> nat \<Rightarrow> spanned list \<Rightarrow> ast presult" where
  "p_call p name pos ts =
     (case keyword name pos of
        Some (Inl e) \<Rightarrow> fail e
      | Some (Inr a) \<Rightarrow> ok a ts
      | None \<Rightarrow>
          (case ts of
             (TLParen, _) # r \<Rightarrow>
               pbind (p NPipe r) (\<lambda>a r2.
                 (case r2 of
                    (TRParen, _) # r3 \<Rightarrow> finish_call name (Some a) r3
                  | _ \<Rightarrow> fail (Unsupported (name @ '' with more than one argument''))))
           | _ \<Rightarrow> finish_call name None ts))"

primrec parse_nt :: "nat \<Rightarrow> nat \<Rightarrow> parser" where
  "parse_nt 0 len x ts = None"
| "parse_nt (Suc n) len x ts =
     (case x of
        NPipe \<Rightarrow> p_pipe (parse_nt n len) ts
      | NComma \<Rightarrow> p_comma (parse_nt n len) ts
      | NCommaLoop a \<Rightarrow> p_comma_loop (parse_nt n len) a ts
      | NAlt \<Rightarrow> p_alt (parse_nt n len) ts
      | NOr \<Rightarrow> p_or (parse_nt n len) ts
      | NOrLoop a \<Rightarrow> p_or_loop (parse_nt n len) a ts
      | NAnd \<Rightarrow> p_and (parse_nt n len) ts
      | NAndLoop a \<Rightarrow> p_and_loop (parse_nt n len) a ts
      | NCmp \<Rightarrow> p_cmp (parse_nt n len) len ts
      | NPostfix \<Rightarrow> p_postfix (parse_nt n len) ts
      | NPostfixLoop a \<Rightarrow> p_postfix_loop (parse_nt n len) a ts
      | NBracket a \<Rightarrow> p_bracket (parse_nt n len) len a ts
      | NTerm \<Rightarrow> p_term (parse_nt n len) len ts
      | NCall name pos \<Rightarrow> p_call (parse_nt n len) name pos ts)"

definition parse_fuel :: "nat \<Rightarrow> nat" where
  "parse_fuel tokens = 16 * (tokens + 1)"

definition parse_filter :: "string \<Rightarrow> (query_error + ast) option" where
  "parse_filter src =
     (case lex src of
        Inl e \<Rightarrow> Some (Inl e)
      | Inr toks \<Rightarrow>
          (case parse_nt (parse_fuel (length toks)) (length src) NPipe toks of
             None \<Rightarrow> None
           | Some (Inl e) \<Rightarrow> Some (Inl e)
           | Some (Inr (a, [])) \<Rightarrow> Some (Inr a)
           | Some (Inr (a, (k, pos) # _)) \<Rightarrow> Some (Inl (ParseError pos (Unexpected k)))))"

end
