(* ===== verification/Json_Parser_Props.thy ===== *)
theory Json_Parser_Props
  imports Json_Parser
begin

text \<open>
  Properties of the filter parser: it always answers within its fuel, what it builds is well formed,
  the offsets it reports lie in the source, and it reads back what is printed.
\<close>

subsection \<open>Well-formed filters and sound parsers\<close>

text \<open>\<open>select\<close> and \<open>has\<close> have an argument, the other builtins have none.\<close>

fun takes_argument :: "builtin \<Rightarrow> bool" where
  "takes_argument Select = True"
| "takes_argument Has = True"
| "takes_argument _ = False"

fun wf_ast :: "ast \<Rightarrow> bool" where
  "wf_ast (Index a b) = (wf_ast a \<and> wf_ast b)"
| "wf_ast (Iterate a) = wf_ast a"
| "wf_ast (Try a) = wf_ast a"
| "wf_ast (Pipe a b) = (wf_ast a \<and> wf_ast b)"
| "wf_ast (Comma a b) = (wf_ast a \<and> wf_ast b)"
| "wf_ast (Alt a b) = (wf_ast a \<and> wf_ast b)"
| "wf_ast (And a b) = (wf_ast a \<and> wf_ast b)"
| "wf_ast (Or a b) = (wf_ast a \<and> wf_ast b)"
| "wf_ast (Cmp c a b) = (wf_ast a \<and> wf_ast b)"
| "wf_ast (Collect (Some a)) = wf_ast a"
| "wf_ast (Call f None) = (\<not> takes_argument f)"
| "wf_ast (Call f (Some a)) = (takes_argument f \<and> wf_ast a)"
| "wf_ast _ = True"

fun error_within :: "nat \<Rightarrow> query_error \<Rightarrow> bool" where
  "error_within len (ParseError pos _) = (pos \<le> len)"
| "error_within len (Unsupported _) = True"

definition tokens_within :: "nat \<Rightarrow> spanned list \<Rightarrow> bool" where
  "tokens_within len ts = list_all (\<lambda>(k, pos). pos \<le> len) ts"

text \<open>
  A result is in order when an error points into the source, and a success satisfies \<open>W\<close> and leaves
  a rest of the tokens, a shorter one if \<open>st\<close>.
\<close>

definition fits :: "nat \<Rightarrow> ('a \<Rightarrow> bool) \<Rightarrow> bool \<Rightarrow> spanned list \<Rightarrow> 'a presult \<Rightarrow> bool" where
  "fits len W st ts res \<longleftrightarrow>
     (case res of
        None \<Rightarrow> True
      | Some (Inl e) \<Rightarrow> error_within len e
      | Some (Inr (a, r)) \<Rightarrow> W a \<and> (\<exists>pre. ts = pre @ r \<and> (st \<longrightarrow> pre \<noteq> [])))"

lemma fits_simps [simp]:
  "fits len W st ts None"
  "fits len W st ts (fail e) \<longleftrightarrow> error_within len e"
  "fits len W False ts (ok a ts) \<longleftrightarrow> W a"
  "fits len W st (t # ts) (ok a ts) \<longleftrightarrow> W a"
  "fits len W st (t # t' # ts) (ok a ts) \<longleftrightarrow> W a"
  by (auto simp: fits_def)

lemma fits_weaken: "fits len W st ts res \<Longrightarrow> fits len W False ts res"
  by (auto simp: fits_def split: option.splits sum.splits)

lemma fits_skip: "fits len W st r res \<Longrightarrow> ts = pre @ r \<Longrightarrow> pre \<noteq> [] \<Longrightarrow> fits len W st' ts res"
  by (fastforce simp: fits_def split: option.splits sum.splits)

lemma fits_skip1: "fits len W st r res \<Longrightarrow> fits len W st' (t # r) res"
  using fits_skip[of len W st r res "t # r" "[t]"] by simp

lemma fits_skip2: "fits len W st r res \<Longrightarrow> fits len W st' (t # t' # r) res"
  using fits_skip[of len W st r res "t # t' # r" "[t, t']"] by simp

lemma fits_pbind:
  assumes m: "fits len W s1 ts m"
    and f: "\<And>a r pre. W a \<Longrightarrow> ts = pre @ r \<Longrightarrow> fits len W' s2 r (f a r)"
    and st: "st \<Longrightarrow> s1 \<or> s2"
  shows "fits len W' st ts (pbind m f)"
proof (cases m)
  case (Some res)
  show ?thesis
  proof (cases res)
    case (Inl e)
    with Some m show ?thesis by simp
  next
    case (Inr p)
    obtain a r where p: "p = (a, r)" by (cases p)
    with Some Inr m obtain pre where pre: "W a" "ts = pre @ r" "s1 \<longrightarrow> pre \<noteq> []"
      by (auto simp: fits_def)
    from f[OF pre(1,2)] pre(2,3) st show ?thesis
      by (fastforce simp: Some Inr p fits_def split: option.splits sum.splits)
  qed
qed simp

lemma tokens_within_suffix: "tokens_within len (pre @ r) \<Longrightarrow> tokens_within len r"
  by (simp add: tokens_within_def)

lemma tokens_within_Cons [simp]:
  "tokens_within len ((k, pos) # r) \<longleftrightarrow> pos \<le> len \<and> tokens_within len r"
  by (simp add: tokens_within_def)

text \<open>What each function is entitled to, and what it owes.\<close>

fun consumes :: "grammar_rule \<Rightarrow> bool" where
  "consumes (NCommaLoop _) = False"
| "consumes (NOrLoop _) = False"
| "consumes (NAndLoop _) = False"
| "consumes (NPostfixLoop _) = False"
| "consumes (NCall _ _) = False"
| "consumes _ = True"

fun entitled :: "nat \<Rightarrow> grammar_rule \<Rightarrow> bool" where
  "entitled len (NCommaLoop a) = wf_ast a"
| "entitled len (NOrLoop a) = wf_ast a"
| "entitled len (NAndLoop a) = wf_ast a"
| "entitled len (NPostfixLoop a) = wf_ast a"
| "entitled len (NBracket a) = wf_ast a"
| "entitled len (NCall name pos) = (pos \<le> len)"
| "entitled len _ = True"

definition sound :: "nat \<Rightarrow> parser \<Rightarrow> bool" where
  "sound len p \<longleftrightarrow>
     (\<forall>x ts. entitled len x \<longrightarrow> tokens_within len ts \<longrightarrow> fits len wf_ast (consumes x) ts (p x ts))"

lemma soundD:
  "sound len p \<Longrightarrow> entitled len x \<Longrightarrow> tokens_within len ts \<Longrightarrow> fits len wf_ast (consumes x) ts (p x ts)"
  by (simp add: sound_def)

lemma sound_loose:
  "sound len p \<Longrightarrow> entitled len x \<Longrightarrow> tokens_within len ts \<Longrightarrow> fits len wf_ast False ts (p x ts)"
  using soundD fits_weaken by blast

lemma expect_fits:
  "tokens_within len ts \<Longrightarrow> fits len (\<lambda>_. True) True ts (expect len want ts)"
  by (cases ts) (auto simp: expect_def split: if_splits)

lemma at_of_within: "tokens_within len ts \<Longrightarrow> at_of len ts \<le> len"
  by (auto simp: at_of_def split: list.splits)

lemma keyword_shape:
  assumes "(if b1 then Some (Inr (Literal (JBool True))) else if b2 then Some (Inr (Literal (JBool False)))
    else if b3 then Some (Inr (Literal JNull)) else if b4 then Some (Inl (Unsupported u))
    else if b5 then Some (Inl (Unsupported w)) else if b6 then Some (Inl (ParseError pos pr)) else None) = Some r"
  shows "case r of Inl e \<Rightarrow> pos \<le> len \<longrightarrow> error_within len e | Inr a \<Rightarrow> wf_ast a"
  using assms by (auto split: if_splits)

lemma keyword_fits:
  "keyword name pos = Some (Inl e) \<Longrightarrow> pos \<le> len \<Longrightarrow> error_within len e"
  "keyword name pos = Some (Inr a) \<Longrightarrow> wf_ast a"
  unfolding keyword_def by (drule keyword_shape[where len = len], simp)+

lemma finish_call_fits:
  "(case arg of None \<Rightarrow> True | Some a \<Rightarrow> wf_ast a) \<Longrightarrow> fits len wf_ast False ts (finish_call name arg ts)"
  by (cases arg) (simp_all add: finish_call_def builtin_of_def)


subsection \<open>Every rule is sound\<close>

text \<open>
  The sequencing step of a rule: the first part is a sound call, the rest of the rule is in order on
  the tokens that are left.
\<close>

lemma fits_call:
  assumes "sound len p" and "entitled len x" and "tokens_within len ts"
    and "\<And>a r. wf_ast a \<Longrightarrow> tokens_within len r \<Longrightarrow> fits len wf_ast s2 r (f a r)"
    and "st \<Longrightarrow> consumes x \<or> s2"
  shows "fits len wf_ast st ts (pbind (p x ts) f)"
  by (rule fits_pbind[OF soundD[OF assms(1-3)] _ assms(5)])
    (use assms(3,4) tokens_within_suffix in blast)+

lemma fits_expect:
  assumes "tokens_within len ts" and "\<And>r. tokens_within len r \<Longrightarrow> fits len wf_ast s2 r (f () r)"
  shows "fits len wf_ast st ts (pbind (expect len want ts) f)"
  by (rule fits_pbind[OF expect_fits[OF assms(1)]])
    (use assms tokens_within_suffix in \<open>auto simp: unit_eq\<close>)

lemma tokens_within_tl: "tokens_within len ts \<Longrightarrow> tokens_within len (tl ts)"
  by (cases ts) auto

lemma peek_ident_Cons: "peek_ident w ts \<Longrightarrow> \<exists>pos r. ts = (TIdent w, pos) # r"
  by (auto simp: peek_ident_def split: list.splits prod.splits tok.splits)

lemma cmp_op_Cons: "cmp_op_of ts = Some c \<Longrightarrow> \<exists>t r. ts = t # r"
  by (auto simp: cmp_op_of_def split: list.splits)

text \<open>A parser whose calls are in order; the rules built on it are.\<close>

locale sound_parser =
  fixes len :: nat and p :: parser
  assumes p_sound: "sound len p"
begin

lemmas call = fits_call[OF p_sound]

lemma then_rule: "entitled len x \<Longrightarrow> tokens_within len ts \<Longrightarrow> fits len wf_ast False ts (p x ts)"
  by (rule sound_loose[OF p_sound])

text \<open>A binary rule after its operator: one more call, then the node.\<close>

lemma then_node:
  assumes "entitled len x" and "tokens_within len r" and "\<And>b. wf_ast b \<Longrightarrow> wf_ast (node b)"
  shows "fits len wf_ast st (t # r) (pbind (p x r) (\<lambda>b r2. ok (node b) r2))"
  by (rule fits_skip1[of _ _ False], rule call[OF assms(1,2), of False]) (use assms(3) in auto)

lemma then_loop:
  assumes "entitled len x" and "tokens_within len r"
    and "\<And>b. wf_ast b \<Longrightarrow> entitled len (loop b)"
  shows "fits len wf_ast st (t # r) (pbind (p x r) (\<lambda>b. p (loop b)))"
  by (rule fits_skip1[of _ _ False], rule call[OF assms(1,2), of False])
    (use assms(3) then_rule in auto)

lemma p_comma_sound: "tokens_within len ts \<Longrightarrow> fits len wf_ast True ts (p_comma p ts)"
  unfolding p_comma_def by (rule call[of _ _ False]) (auto intro: then_rule)

lemma p_or_sound: "tokens_within len ts \<Longrightarrow> fits len wf_ast True ts (p_or p ts)"
  unfolding p_or_def by (rule call[of _ _ False]) (auto intro: then_rule)

lemma p_and_sound: "tokens_within len ts \<Longrightarrow> fits len wf_ast True ts (p_and p ts)"
  unfolding p_and_def by (rule call[of _ _ False]) (auto intro: then_rule)

lemma p_postfix_sound: "tokens_within len ts \<Longrightarrow> fits len wf_ast True ts (p_postfix p ts)"
  unfolding p_postfix_def by (rule call[of _ _ False]) (auto intro: then_rule)

lemma p_pipe_sound: "tokens_within len ts \<Longrightarrow> fits len wf_ast True ts (p_pipe p ts)"
  unfolding p_pipe_def if_split[of "fits len wf_ast True ts"] fits_simps error_within.simps
  by (intro conjI impI TrueI, rule call[of _ _ False])
    (auto intro!: then_node split: list.split prod.split tok.split)

lemma p_alt_sound: "tokens_within len ts \<Longrightarrow> fits len wf_ast True ts (p_alt p ts)"
  unfolding p_alt_def
  by (rule call[of _ _ False]) (auto intro!: then_node split: list.split prod.split tok.split)

lemma p_comma_loop_sound:
  "tokens_within len ts \<Longrightarrow> wf_ast a \<Longrightarrow> fits len wf_ast False ts (p_comma_loop p a ts)"
  unfolding p_comma_loop_def
  by (auto intro!: then_loop split: list.split prod.split tok.split)

lemma p_or_loop_sound:
  "tokens_within len ts \<Longrightarrow> wf_ast a \<Longrightarrow> fits len wf_ast False ts (p_or_loop p a ts)"
  unfolding p_or_loop_def by (auto intro!: then_loop dest!: peek_ident_Cons)

lemma p_and_loop_sound:
  "tokens_within len ts \<Longrightarrow> wf_ast a \<Longrightarrow> fits len wf_ast False ts (p_and_loop p a ts)"
  unfolding p_and_loop_def by (auto intro!: then_loop dest!: peek_ident_Cons)

lemma p_cmp_sound:
  assumes "tokens_within len ts"
  shows "fits len wf_ast True ts (p_cmp p len ts)"
  unfolding p_cmp_def
proof (rule call[OF _ assms, of _ False])
  fix lhs r
  assume lhs: "wf_ast lhs" and r: "tokens_within len r"
  show "fits len wf_ast False r (case cmp_op_of r of None \<Rightarrow> ok lhs r
      | Some c \<Rightarrow> pbind (p NPostfix (tl r)) (\<lambda>rhs r2.
          if cmp_op_of r2 \<noteq> None then fail (ParseError (at_of len r2) ComparisonChain)
          else ok (Cmp c lhs rhs) r2))"
  proof (cases "cmp_op_of r")
    case None
    with lhs show ?thesis by simp
  next
    case (Some c)
    then obtain t r' where t: "r = t # r'" using cmp_op_Cons by blast
    have "fits len wf_ast False r' (pbind (p NPostfix r') (\<lambda>rhs r2.
          if cmp_op_of r2 \<noteq> None then fail (ParseError (at_of len r2) ComparisonChain)
          else ok (Cmp c lhs rhs) r2))"
      using r lhs t by (intro call[of _ _ False]) (auto intro: at_of_within tokens_within_suffix[of len "[t]", simplified])
    then show ?thesis unfolding t using Some[unfolded t] fits_skip1 by simp
  qed
qed simp_all

lemma postfix_step:
  assumes "tokens_within len r" and "wf_ast a"
  shows "fits len wf_ast False r (pbind (p (NBracket a) r) (\<lambda>t'. p (NPostfixLoop t')))"
  by (rule call[of _ _ False]) (use assms then_rule in auto)

lemma p_postfix_loop_sound:
  "tokens_within len ts \<Longrightarrow> wf_ast a \<Longrightarrow> fits len wf_ast False ts (p_postfix_loop p a ts)"
  unfolding p_postfix_loop_def
  by (auto intro!: postfix_step intro: fits_skip1[OF postfix_step] fits_skip1[OF then_rule]
      fits_skip2[OF then_rule] split: list.split prod.split tok.split)

lemma p_bracket_sound:
  assumes "tokens_within len ts" and "wf_ast a"
  shows "fits len wf_ast True ts (p_bracket p len a ts)"
  unfolding p_bracket_def
proof (rule fits_pbind[OF expect_fits[OF assms(1)], where ?s2.0 = False])
  fix u r pre
  assume "ts = pre @ r"
  with assms(1) have r: "tokens_within len r" using tokens_within_suffix by blast
  have "fits len wf_ast False r (pbind (p NPipe r) (\<lambda>key r2.
      pbind (expect len TRBrack r2) (\<lambda>_ r3. ok (Index a key) r3)))"
    by (rule call[OF _ r, of _ False]) (use assms(2) in \<open>auto intro!: fits_expect[of _ _ False]\<close>)
  then show "fits len wf_ast False r (case r of (TRBrack, _) # r' \<Rightarrow> ok (Iterate a) r'
      | _ \<Rightarrow> pbind (p NPipe r) (\<lambda>key r2. pbind (expect len TRBrack r2) (\<lambda>_ r3. ok (Index a key) r3)))"
    using assms(2) by (auto split: list.split prod.split tok.split)
qed simp

lemma enclosed:
  assumes "tokens_within len r" and "\<And>a. wf_ast a \<Longrightarrow> wf_ast (node a)"
  shows "fits len wf_ast st (t # r)
    (pbind (p NPipe r) (\<lambda>inner r2. pbind (expect len close r2) (\<lambda>_ r3. ok (node inner) r3)))"
  by (rule fits_skip1[of _ _ False], rule call[OF _ assms(1), of _ False])
    (use assms(2) in \<open>auto intro!: fits_expect[of _ _ False]\<close>)

lemma p_call_sound:
  assumes "tokens_within len ts" and "pos \<le> len"
  shows "fits len wf_ast False ts (p_call p name pos ts)"
proof -
  have arg: "fits len wf_ast False (t # r)
      (pbind (p NPipe r) (\<lambda>a r2. (case r2 of (TRParen, _) # r3 \<Rightarrow> finish_call name (Some a) r3
        | _ \<Rightarrow> fail (Unsupported (name @ '' with more than one argument'')))))"
    if "tokens_within len r" for t r
    by (rule fits_skip1[of _ _ False], rule call[OF _ that, of _ False])
      (auto intro!: fits_skip1[OF finish_call_fits] split: list.split prod.split tok.split)
  show ?thesis
    unfolding p_call_def
    using assms keyword_fits[of name pos]
    by (auto intro!: arg finish_call_fits split: option.split sum.split list.split prod.split tok.split)
qed

lemma p_term_sound:
  assumes "tokens_within len ts"
  shows "fits len wf_ast True ts (p_term p len ts)"
proof (cases ts)
  case Nil
  then show ?thesis by (simp add: p_term_def)
next
  case (Cons t r)
  then obtain k pos where ts: "ts = (k, pos) # r" by (cases t) auto
  with assms have r: "pos \<le> len" "tokens_within len r" by simp_all
  have dot: "fits len wf_ast True ((TDot, pos) # r) (case r of
      (TStr s, _) # r' \<Rightarrow> ok (Index Identity (Literal (JString s))) r'
    | (TLBrack, _) # _ \<Rightarrow> p (NBracket Identity) r | _ \<Rightarrow> ok Identity r)"
    using r by (auto intro!: fits_skip1[OF then_rule] split: list.split prod.split tok.split)
  have brack: "fits len wf_ast True ((TLBrack, pos) # r) (case r of
      (TRBrack, _) # r' \<Rightarrow> ok (Collect None) r'
    | _ \<Rightarrow> pbind (p NPipe r) (\<lambda>inner r2. pbind (expect len TRBrack r2) (\<lambda>_ r3. ok (Collect (Some inner)) r3)))"
    using r enclosed[of r "\<lambda>a. Collect (Some a)"]
    by (auto split: list.split prod.split tok.split)
  show ?thesis
    using r dot brack enclosed[of r "\<lambda>a. a"] fits_skip1[OF then_rule]
    unfolding ts p_term_def by (cases k) auto
qed

end

lemma parse_nt_sound: "sound len (parse_nt n len)"
proof (induction n)
  case 0
  then show ?case by (simp add: sound_def)
next
  case (Suc n)
  then have sp: "sound_parser len (parse_nt n len)" by (rule sound_parser.intro)
  note rules = sound_parser.p_pipe_sound[OF sp] sound_parser.p_comma_sound[OF sp]
    sound_parser.p_comma_loop_sound[OF sp] sound_parser.p_alt_sound[OF sp] sound_parser.p_or_sound[OF sp]
    sound_parser.p_or_loop_sound[OF sp] sound_parser.p_and_sound[OF sp] sound_parser.p_and_loop_sound[OF sp]
    sound_parser.p_cmp_sound[OF sp] sound_parser.p_postfix_sound[OF sp]
    sound_parser.p_postfix_loop_sound[OF sp] sound_parser.p_bracket_sound[OF sp]
    sound_parser.p_term_sound[OF sp] sound_parser.p_call_sound[OF sp]
  show ?case
    unfolding sound_def
  proof (intro allI impI)
    fix x ts
    assume "entitled len x" "tokens_within len ts"
    then show "fits len wf_ast (consumes x) ts (parse_nt (Suc n) len x ts)"
      by (cases x) (simp_all add: rules)
  qed
qed


interpretation filter_parser: sound_parser len "parse_nt n len" for len n
  by unfold_locales (rule parse_nt_sound)


subsection \<open>The fuel is enough\<close>

text \<open>
  Between two tokens the functions call each other in the order of the grammar, so the tokens that
  are left, times sixteen, plus the level of the function bounds the depth of the calls.
\<close>

fun level :: "grammar_rule \<Rightarrow> nat" where
  "level NPipe = 9"
| "level NComma = 8" | "level (NCommaLoop _) = 8"
| "level NAlt = 7"
| "level NOr = 6" | "level (NOrLoop _) = 6"
| "level NAnd = 5" | "level (NAndLoop _) = 5"
| "level NCmp = 4"
| "level NPostfix = 3" | "level (NPostfixLoop _) = 2"
| "level (NBracket _) = 1" | "level NTerm = 1" | "level (NCall _ _) = 1"

definition depth :: "grammar_rule \<Rightarrow> spanned list \<Rightarrow> nat" where
  "depth x ts = 16 * length ts + level x"

definition answered :: "'a presult \<Rightarrow> bool" where
  "answered res \<longleftrightarrow> res \<noteq> None"

lemma answered_Some [simp]: "answered (Some res)"
  by (simp add: answered_def)

definition answers :: "nat \<Rightarrow> nat \<Rightarrow> parser \<Rightarrow> bool" where
  "answers n len p \<longleftrightarrow>
     (\<forall>x ts. entitled len x \<longrightarrow> tokens_within len ts \<longrightarrow> depth x ts < n \<longrightarrow> answered (p x ts))"

locale fuelled_parser = sound_parser +
  fixes n :: nat
  assumes p_answers: "answers n len p"
begin

lemma answer: "entitled len x \<Longrightarrow> tokens_within len ts \<Longrightarrow> depth x ts < n \<Longrightarrow> answered (p x ts)"
  using p_answers by (simp add: answers_def)

lemma call_answer:
  assumes "entitled len x" and "tokens_within len ts" and "depth x ts < n"
    and "\<And>a r. wf_ast a \<Longrightarrow> tokens_within len r \<Longrightarrow>
      length r + (if consumes x then 1 else 0) \<le> length ts \<Longrightarrow> answered (f a r)"
  shows "answered (pbind (p x ts) f)"
proof -
  obtain res where res: "p x ts = Some res" using answer[OF assms(1-3)] by (auto simp: answered_def)
  show ?thesis
  proof (cases res)
    case (Inl e)
    with res show ?thesis by simp
  next
    case (Inr q)
    obtain a r where q: "q = (a, r)" by (cases q)
    from soundD[OF p_sound assms(1,2)] res Inr q obtain pre where
      pre: "wf_ast a" "ts = pre @ r" "consumes x \<longrightarrow> pre \<noteq> []"
      by (auto simp: fits_def)
    then have "length r + (if consumes x then 1 else 0) \<le> length ts" by (cases pre) auto
    moreover have "tokens_within len r" using assms(2) pre(2) tokens_within_suffix by blast
    ultimately have "answered (f a r)" using assms(4) pre(1) by blast
    then show ?thesis by (simp add: res Inr q)
  qed
qed

lemma expect_answer:
  "(\<And>r. tokens_within len r \<Longrightarrow> length r < length ts \<Longrightarrow> answered (f () r)) \<Longrightarrow> tokens_within len ts \<Longrightarrow>
     answered (pbind (expect len want ts) f)"
  by (cases ts) (auto simp: expect_def)

lemma levels_answer:
  "tokens_within len ts \<Longrightarrow> depth NComma ts \<le> n \<Longrightarrow> answered (p_comma p ts)"
  "tokens_within len ts \<Longrightarrow> depth NOr ts \<le> n \<Longrightarrow> answered (p_or p ts)"
  "tokens_within len ts \<Longrightarrow> depth NAnd ts \<le> n \<Longrightarrow> answered (p_and p ts)"
  "tokens_within len ts \<Longrightarrow> depth NPostfix ts \<le> n \<Longrightarrow> answered (p_postfix p ts)"
  unfolding p_comma_def p_or_def p_and_def p_postfix_def
  by (rule call_answer; (rule answer)?; simp add: depth_def)+

lemma loops_answer:
  "tokens_within len ts \<Longrightarrow> wf_ast a \<Longrightarrow> depth (NCommaLoop a) ts \<le> n \<Longrightarrow> answered (p_comma_loop p a ts)"
  "tokens_within len ts \<Longrightarrow> wf_ast a \<Longrightarrow> depth (NOrLoop a) ts \<le> n \<Longrightarrow> answered (p_or_loop p a ts)"
  "tokens_within len ts \<Longrightarrow> wf_ast a \<Longrightarrow> depth (NAndLoop a) ts \<le> n \<Longrightarrow> answered (p_and_loop p a ts)"
  unfolding p_comma_loop_def p_or_loop_def p_and_loop_def
  by (auto simp: depth_def intro!: call_answer answer dest!: peek_ident_Cons
      split: list.split prod.split tok.split)

lemma p_pipe_answer: "tokens_within len ts \<Longrightarrow> depth NPipe ts \<le> n \<Longrightarrow> answered (p_pipe p ts)"
  unfolding p_pipe_def
  by (auto simp: depth_def intro!: call_answer split: list.split prod.split tok.split)

lemma p_alt_answer: "tokens_within len ts \<Longrightarrow> depth NAlt ts \<le> n \<Longrightarrow> answered (p_alt p ts)"
  unfolding p_alt_def
  by (auto simp: depth_def intro!: call_answer split: list.split prod.split tok.split)

lemma p_cmp_answer:
  assumes "tokens_within len ts" and "depth NCmp ts \<le> n"
  shows "answered (p_cmp p len ts)"
  unfolding p_cmp_def
proof (rule call_answer)
  fix lhs r
  assume r: "wf_ast lhs" "tokens_within len r" "length r + (if consumes NPostfix then 1 else 0) \<le> length ts"
  show "answered (case cmp_op_of r of None \<Rightarrow> ok lhs r
      | Some c \<Rightarrow> pbind (p NPostfix (tl r)) (\<lambda>rhs r2.
          if cmp_op_of r2 \<noteq> None then fail (ParseError (at_of len r2) ComparisonChain)
          else ok (Cmp c lhs rhs) r2))"
    using r assms(2) tokens_within_tl[OF r(2)]
    by (auto simp: depth_def intro!: call_answer dest!: cmp_op_Cons split: option.split)
qed (use assms in \<open>simp_all add: depth_def\<close>)

lemma p_postfix_loop_answer:
  "tokens_within len ts \<Longrightarrow> wf_ast a \<Longrightarrow> depth (NPostfixLoop a) ts \<le> n \<Longrightarrow> answered (p_postfix_loop p a ts)"
  unfolding p_postfix_loop_def
  by (auto simp: depth_def intro!: call_answer answer split: list.split prod.split tok.split)

lemma enclosed_answer:
  "tokens_within len r \<Longrightarrow> 16 * length r + 10 \<le> n \<Longrightarrow>
     answered (pbind (p NPipe r) (\<lambda>inner r2. pbind (expect len close r2) (\<lambda>_ r3. ok (node inner) r3)))"
  by (rule call_answer) (auto simp: depth_def intro: expect_answer)

lemma p_bracket_answer:
  "tokens_within len ts \<Longrightarrow> depth (NBracket a) ts \<le> n \<Longrightarrow> answered (p_bracket p len a ts)"
  unfolding p_bracket_def
  by (rule expect_answer; cases ts)
    (auto simp: depth_def intro!: enclosed_answer split: list.split prod.split tok.split)

lemma p_call_answer:
  "tokens_within len ts \<Longrightarrow> depth (NCall name pos) ts \<le> n \<Longrightarrow> answered (p_call p name pos ts)"
  unfolding p_call_def finish_call_def
  by (auto simp: depth_def intro!: call_answer
      split: option.split sum.split list.split prod.split tok.split)

lemma p_term_answer:
  assumes "tokens_within len ts" and "depth NTerm ts \<le> n"
  shows "answered (p_term p len ts)"
proof (cases ts)
  case Nil
  then show ?thesis by (simp add: p_term_def)
next
  case (Cons t r)
  then obtain k pos where ts: "ts = (k, pos) # r" by (cases t) auto
  with assms have r: "pos \<le> len" "tokens_within len r" "16 * length r + 17 \<le> n"
    by (simp_all add: depth_def)
  show ?thesis
    using r unfolding ts p_term_def
    by (cases k)
      (auto simp: depth_def intro!: enclosed_answer answer split: list.split prod.split tok.split)
qed

end

lemma parse_nt_answers: "answers n len (parse_nt n len)"
proof (induction n)
  case 0
  then show ?case by (simp add: answers_def)
next
  case (Suc n)
  then have fp: "fuelled_parser len (parse_nt n len) n"
    by (intro fuelled_parser.intro fuelled_parser_axioms.intro sound_parser.intro parse_nt_sound)
  note rules = fuelled_parser.levels_answer[OF fp] fuelled_parser.loops_answer[OF fp]
    fuelled_parser.p_pipe_answer[OF fp] fuelled_parser.p_alt_answer[OF fp]
    fuelled_parser.p_cmp_answer[OF fp] fuelled_parser.p_postfix_loop_answer[OF fp]
    fuelled_parser.p_bracket_answer[OF fp] fuelled_parser.p_call_answer[OF fp]
    fuelled_parser.p_term_answer[OF fp]
  show ?case
    unfolding answers_def
  proof (intro allI impI)
    fix x ts
    assume "entitled len x" "tokens_within len ts" "depth x ts < Suc n"
    then show "answered (parse_nt (Suc n) len x ts)"
      by (cases x) (simp_all add: rules)
  qed
qed

interpretation filter_parser_fuel: fuelled_parser len "parse_nt n len" n for len n
  by unfold_locales (rule parse_nt_answers)

subsection \<open>The lexer stays in the source\<close>

definition string_in_order :: "nat \<Rightarrow> nat \<Rightarrow> nat \<Rightarrow> string \<Rightarrow> query_error + string \<times> string \<Rightarrow> bool" where
  "string_in_order len start j s res \<longleftrightarrow>
     (case res of
        Inl e \<Rightarrow> start \<le> len \<longrightarrow> j + length s \<le> len \<longrightarrow> error_within len e
      | Inr (str, r) \<Rightarrow> length r < length s)"

lemma string_in_order_simps [simp]:
  "string_in_order len start j s (Inl (ParseError start pr))"
  "string_in_order len start j s (Inl (ParseError j pr))"
  "string_in_order len start j s (Inl (Unsupported u))"
  "string_in_order len start j (ch # s) (Inr (str, s))"
  by (auto simp: string_in_order_def)

lemma string_in_order_later:
  "string_in_order len start j' r res \<Longrightarrow> j \<le> j' \<Longrightarrow> j' + length r \<le> j + length s \<Longrightarrow> length r \<le> length s \<Longrightarrow>
     string_in_order len start j s res"
  by (auto simp: string_in_order_def split: sum.splits)

declare lex_string.simps [simp del]

lemma lex_string_within: "string_in_order len start j s (lex_string start j acc s)"
proof (induction start j acc s rule: lex_string.induct)
  case (1 start j acc)
  then show ?case by (simp add: lex_string.simps)
next
  case (2 start j acc ch s)
  note step = lex_string.simps(2)[of start j acc ch s]
  show ?case
  proof (cases "ch = CHR 0x5C")
    case False
    show ?thesis
    proof (cases "ch = CHR 0x22")
      case True
      then show ?thesis unfolding step by simp
    next
      case quote: False
      from "2.IH"(3)[OF quote False] have "string_in_order len start j (ch # s) (lex_string start (j + 1) (acc @ [ch]) s)"
        by (rule string_in_order_later) simp_all
      with quote False show ?thesis unfolding step by simp
    qed
  next
    case True
    then have slash: "ch \<noteq> CHR 0x22" "ch = CHR 0x5C" by simp_all
    show ?thesis
    proof (cases s)
      case Nil
      with slash show ?thesis unfolding step by simp
    next
      case (Cons e r)
      show ?thesis
      proof (cases "simple_escape e")
        case (Some c)
        from "2.IH"(2)[OF slash Cons Some]
        have "string_in_order len start j (ch # s) (lex_string start (j + 2) (acc @ [c]) r)"
          by (rule string_in_order_later) (simp_all add: Cons)
        with slash Cons Some show ?thesis unfolding step by simp
      next
        case None
        show ?thesis
        proof (cases "e = CHR ''u'' \<and> parse_hex (take 4 r) \<noteq> None \<and> encode_utf8 (the (parse_hex (take 4 r))) \<noteq> None")
          case True
          then obtain code cs where u: "e = CHR ''u''" "parse_hex (take 4 r) = Some code" "encode_utf8 code = Some cs"
            by auto
          have "string_in_order len start j (ch # s) (lex_string start (j + 6) (acc @ cs) (drop 4 r))"
          proof (cases "drop 4 r = []")
            case True
            then show ?thesis by (simp add: lex_string.simps(1))
          next
            case False
            then have "4 < length r" by simp
            then have shorter: "j \<le> j + 6" "j + 6 + length (drop 4 r) \<le> j + length (ch # s)"
              "length (drop 4 r) \<le> length (ch # s)"
              unfolding Cons length_drop list.size by linarith+
            show ?thesis
              by (rule string_in_order_later[OF "2.IH"(1)[OF slash Cons None u] shorter])
          qed
          with slash Cons None u show ?thesis unfolding step by simp
        next
          case False
          with slash Cons None show ?thesis unfolding step by (auto split: option.splits)
        qed
      qed
    qed
  qed
qed


definition turn_in_order :: "nat \<Rightarrow> nat \<Rightarrow> string \<Rightarrow> query_error + tok option \<times> nat \<Rightarrow> bool" where
  "turn_in_order len pos s res \<longleftrightarrow>
     (case res of
        Inl e \<Rightarrow> pos + Suc (length s) \<le> len \<longrightarrow> error_within len e
      | Inr (k, n) \<Rightarrow> 1 \<le> n \<and> n \<le> Suc (length s))"

lemma turn_in_order_simps [simp]:
  "turn_in_order len pos s (Inl (ParseError pos pr))"
  "turn_in_order len pos s (Inl (Unsupported u))"
  "turn_in_order len pos s (Inr (k, n)) \<longleftrightarrow> 1 \<le> n \<and> n \<le> Suc (length s)"
  "turn_in_order len pos s (push t n) \<longleftrightarrow> 1 \<le> n \<and> n \<le> Suc (length s)"
  by (auto simp: turn_in_order_def push_def)

lemma turn_if: "(b \<Longrightarrow> turn_in_order len pos s x) \<Longrightarrow> (\<not> b \<Longrightarrow> turn_in_order len pos s y) \<Longrightarrow>
    turn_in_order len pos s (if b then x else y)"
  by simp

lemma turn_number:
  "1 \<le> length t \<Longrightarrow> length t \<le> Suc (length s) \<Longrightarrow> turn_in_order len pos s (lex_number pos t)"
  by (auto simp: lex_number_def split: option.split)

lemma number_extent_pos: "is_ascii_digit c \<Longrightarrow> 1 \<le> number_extent (c # s)"
  by (simp add: number_extent_def Let_def is_number_char_def)

lemma ident_extent_le: "ident_extent s \<le> length s"
  by (simp add: ident_extent_def length_takeWhile_le)

lemma ident_extent_pos: "is_ident_start c \<Longrightarrow> 1 \<le> ident_extent (c # s)"
  by (simp add: ident_extent_def is_ident_start_def is_ident_char_def is_ascii_alphanumeric_def)

lemma next_is_Cons: "next_is P s \<Longrightarrow> \<exists>c r. s = c # r \<and> P c"
  by (cases s) (auto simp: next_is_def)

lemma next_is_length: "next_is P s \<Longrightarrow> 1 \<le> length s"
  by (cases s) (auto simp: next_is_def)

lemma turn_string:
  "turn_in_order len pos s
     (case lex_string pos (pos + 1) [] s of
        Inl e \<Rightarrow> Inl e | Inr (str, r) \<Rightarrow> push (TStr str) (1 + length s - length r))"
  using lex_string_within[of len pos "pos + 1" s "[]"]
  by (auto simp: string_in_order_def turn_in_order_def push_def split: sum.splits prod.splits)

lemma take_number_extent:
  "is_ascii_digit c \<Longrightarrow> turn_in_order len pos s (lex_number pos (take (number_extent (c # s)) (c # s)))"
  using number_extent_pos[of c s] by (intro turn_number) (auto simp: min_def)

lemma negative_number: "turn_in_order len pos s (lex_number pos (c # takeWhile is_number_char s))"
  by (rule turn_number) (simp_all add: length_takeWhile_le)

lemma ident_extent_word: "ident_extent (c # s) \<le> Suc (length s)"
  using ident_extent_le[of "c # s"] by simp

lemma lex_token_within: "turn_in_order len pos s (lex_token pos prev c s)"
  unfolding lex_token_def lex_operator_def lex_rest_def Let_def
  by (intro turn_if)
    (simp_all only: turn_in_order_simps turn_string take_number_extent negative_number,
     auto dest: next_is_length ident_extent_pos simp: ident_extent_le ident_extent_word)

lemma lex_loop_within:
  assumes "pos + length s = len" and "tokens_within len out"
  shows "(case lex_loop pos s out of Inl e \<Rightarrow> error_within len e | Inr ts \<Rightarrow> tokens_within len ts)"
  using assms
proof (induction pos s out rule: lex_loop.induct)
  case (1 pos out)
  then show ?case by simp
next
  case (2 pos c s out)
  let ?prev = "if out = [] then None else Some (fst (last out))"
  have turn: "turn_in_order len pos s (lex_token pos ?prev c s)" by (rule lex_token_within)
  show ?case
  proof (cases "lex_token pos ?prev c s")
    case (Inl e)
    with turn "2.prems" show ?thesis by (simp add: turn_in_order_def)
  next
    case (Inr kn)
    obtain k n where kn: "kn = (k, n)" by (cases kn)
    with turn Inr have n: "1 \<le> n" "n \<le> Suc (length s)" by simp_all
    then have "pos + max 1 n + length (drop (max 1 n) (c # s)) = len"
      using "2.prems"(1) by auto
    moreover have "tokens_within len (case k of Some t \<Rightarrow> out @ [(t, pos)] | None \<Rightarrow> out)"
      using "2.prems" by (auto simp: tokens_within_def split: option.split)
    ultimately show ?thesis using "2.IH"[OF Inr kn[symmetric]] Inr kn by simp
  qed
qed

text \<open>
  C34. The parser is total and its errors point into the source: on every text it answers within its
  fuel, either with a well-formed filter, in which exactly \<open>select\<close> and \<open>has\<close> carry an argument, so
  that the evaluator cannot panic, or with an error at an offset of at most the length of the text.
\<close>

theorem parse_filter_total:
  "\<exists>res. parse_filter src = Some res \<and>
     (case res of Inl e \<Rightarrow> error_within (length src) e | Inr f \<Rightarrow> wf_ast f)"
proof -
  let ?len = "length src"
  have lexed: "case lex src of Inl e \<Rightarrow> error_within ?len e | Inr ts \<Rightarrow> tokens_within ?len ts"
    unfolding lex_def by (rule lex_loop_within) (simp_all add: tokens_within_def)
  show ?thesis
  proof (cases "lex src")
    case (Inl e)
    with lexed show ?thesis by (simp add: parse_filter_def)
  next
    case (Inr ts)
    with lexed have ts: "tokens_within ?len ts" by simp
    let ?res = "parse_nt (parse_fuel (length ts)) ?len NPipe ts"
    have "answered ?res"
      by (rule filter_parser_fuel.answer) (simp_all add: ts depth_def parse_fuel_def)
    then obtain res where res: "?res = Some res" by (auto simp: answered_def)
    have "fits ?len wf_ast True ts ?res"
      using filter_parser.p_sound soundD[of ?len _ NPipe ts] ts by fastforce
    with res ts Inr show ?thesis
      by (cases res)
        (auto simp: parse_filter_def fits_def dest!: tokens_within_suffix split: list.split)
  qed
qed

end
