(* ===== verification/Json_Get.thy ===== *)
theory Json_Get
  imports Json_Query_Props Json_Parser_Props
begin

text \<open>
  The command \<open>json get\<close> / \<open>yaml get\<close> (\<open>json_query_dispatch\<close> in \<open>crates/tillandsias-plan/src/main.rs\<close>).
  What the process reads and how texts become values is a record of functions: the content of a
  source (\<open>-\<close> is standard input), one JSON value, a stream of them, a YAML document as a value, and
  the two writers of \<open>serde_json\<close>. An outcome is the lines on standard output, the messages on
  standard error (the help text, which goes to standard output, is one of them), and the exit code.
\<close>

record world =
  read_source :: "string \<Rightarrow> string option"
  parse_value :: "string \<Rightarrow> json option"
  parse_stream :: "string \<Rightarrow> json list option"
  parse_yaml_value :: "string \<Rightarrow> json option"
  write_compact :: "json \<Rightarrow> string"
  write_pretty :: "json \<Rightarrow> string"

datatype message =
    Usage
  | Help
  | InvalidArgJson string
  | CannotRead string
  | CannotParseInput string
  | FilterError query_error
  | UnboundVariable string
  | EvalError runtime_error

record get_outcome =
  stdout_lines :: "string list"
  stderr_messages :: "message list"
  exit_code :: nat

definition stop_with :: "message \<Rightarrow> nat \<Rightarrow> get_outcome" where
  "stop_with m code = \<lparr>stdout_lines = [], stderr_messages = [m], exit_code = code\<rparr>"

record get_options =
  o_raw :: bool
  o_compact :: bool
  o_exit_status :: bool
  o_null_input :: bool
  o_slurp :: bool
  o_parse_only :: bool
  o_args :: "(string, json) btmap"
  o_positional :: "string list"

definition no_options :: get_options where
  "no_options =
     \<lparr>o_raw = False, o_compact = False, o_exit_status = False, o_null_input = False, o_slurp = False,
      o_parse_only = False, o_args = [], o_positional = []\<rparr>"

text \<open>A cluster of one-letter flags.\<close>

fun flag_cluster :: "string \<Rightarrow> get_options \<Rightarrow> get_outcome + get_options" where
  "flag_cluster [] o1 = Inr o1"
| "flag_cluster (c # cs) o1 =
     (if c = CHR ''r'' then flag_cluster cs (o1\<lparr>o_raw := True\<rparr>)
      else if c = CHR ''c'' then flag_cluster cs (o1\<lparr>o_compact := True\<rparr>)
      else if c = CHR ''e'' then flag_cluster cs (o1\<lparr>o_exit_status := True\<rparr>)
      else if c = CHR ''n'' then flag_cluster cs (o1\<lparr>o_null_input := True\<rparr>)
      else if c = CHR ''s'' then flag_cluster cs (o1\<lparr>o_slurp := True\<rparr>)
      else if c = CHR ''h'' then Inl (stop_with Help 0)
      else if c = CHR ''M'' then flag_cluster cs o1
      else Inl (stop_with Usage 2))"

text \<open>One argument other than \<open>--arg\<close> and \<open>--argjson\<close>.\<close>

definition scan_flag :: "string \<Rightarrow> get_options \<Rightarrow> get_outcome + get_options" where
  "scan_flag a o1 =
     (if a = ''--parse-only'' then Inr (o1\<lparr>o_parse_only := True\<rparr>)
      else if a = ''--help'' then Inl (stop_with Help 0)
      else if a = ''--raw-output'' then Inr (o1\<lparr>o_raw := True\<rparr>)
      else if a = ''--compact-output'' then Inr (o1\<lparr>o_compact := True\<rparr>)
      else if a = ''--exit-status'' then Inr (o1\<lparr>o_exit_status := True\<rparr>)
      else if a = ''--null-input'' then Inr (o1\<lparr>o_null_input := True\<rparr>)
      else if a = ''--slurp'' then Inr (o1\<lparr>o_slurp := True\<rparr>)
      else if a = ''-'' then Inr (o1\<lparr>o_positional := o_positional o1 @ [a]\<rparr>)
      else if starts_with ''--'' a then Inl (stop_with Usage 2)
      else if starts_with ''-'' a \<and> length a > 1 \<and> o_positional o1 = [] then flag_cluster (tl a) o1
      else Inr (o1\<lparr>o_positional := o_positional o1 @ [a]\<rparr>))"

fun scan_args :: "world \<Rightarrow> string list \<Rightarrow> get_options \<Rightarrow> get_outcome + get_options" where
  "scan_args w [] o1 = Inr o1"
| "scan_args w (a # rest) o1 =
     (if a = ''--arg'' \<or> a = ''--argjson'' then
        (case rest of
           k # v # rest' \<Rightarrow>
             (if a = ''--arg'' then scan_args w rest' (o1\<lparr>o_args := bt_insert k (JString v) (o_args o1)\<rparr>)
              else (case parse_value w v of
                      None \<Rightarrow> Inl (stop_with (InvalidArgJson k) 2)
                    | Some x \<Rightarrow> scan_args w rest' (o1\<lparr>o_args := bt_insert k x (o_args o1)\<rparr>)))
         | _ \<Rightarrow> Inl (stop_with Usage 2))
      else (case scan_flag a o1 of Inl e \<Rightarrow> Inl e | Inr o2 \<Rightarrow> scan_args w rest o2))"

text \<open>The values of all sources, in order; the first unreadable or malformed one ends the process.\<close>

fun read_inputs :: "world \<Rightarrow> bool \<Rightarrow> string list \<Rightarrow> get_outcome + json list" where
  "read_inputs w yaml [] = Inr []"
| "read_inputs w yaml (src # srcs) =
     (case read_source w src of
        None \<Rightarrow> Inl (stop_with (CannotRead src) 2)
      | Some txt \<Rightarrow>
          (case (if yaml then map_option (\<lambda>v. [v]) (parse_yaml_value w txt) else parse_stream w txt) of
             None \<Rightarrow> Inl (stop_with (CannotParseInput src) 2)
           | Some vs \<Rightarrow>
               (case read_inputs w yaml srcs of Inl e \<Rightarrow> Inl e | Inr vs' \<Rightarrow> Inr (vs @ vs'))))"

definition collect_inputs :: "world \<Rightarrow> bool \<Rightarrow> get_options \<Rightarrow> string list \<Rightarrow> get_outcome + json list" where
  "collect_inputs w yaml o1 files =
     (case (if \<not> o_null_input o1 \<or> o_slurp o1
            then read_inputs w yaml (if files = [] then [''-''] else files) else Inr []) of
        Inl e \<Rightarrow> Inl e
      | Inr vs \<Rightarrow>
          Inr (if o_slurp o1 then [JArray vs] else if o_null_input o1 then [JNull] else vs))"

text \<open>The loop over the inputs: lines, messages, the last result, and whether one failed.\<close>

definition eval_input ::
  "world \<Rightarrow> get_options \<Rightarrow> ast \<Rightarrow> string list \<times> message list \<times> json option \<times> bool \<Rightarrow> json
     \<Rightarrow> string list \<times> message list \<times> json option \<times> bool" where
  "eval_input w o1 f st v =
     (case st of (out, msgs, final, failed) \<Rightarrow>
        (case run (write_compact w) (o_args o1) f v of (vs, e) \<Rightarrow>
           (out @ map (\<lambda>x. render (write_compact w) (write_pretty w) x (o_raw o1) (o_compact o1)) vs,
            msgs @ (case e of Some err \<Rightarrow> [EvalError err] | None \<Rightarrow> []),
            (if vs = [] then final else Some (last vs)),
            failed \<or> e \<noteq> None)))"

definition final_code :: "get_options \<Rightarrow> json option \<Rightarrow> bool \<Rightarrow> nat" where
  "final_code o1 final failed =
     (if failed then 5
      else if o_exit_status o1 then
        (case final of None \<Rightarrow> 4 | Some v \<Rightarrow> if v = JNull \<or> v = JBool False then 1 else 0)
      else 0)"

definition parse_source :: "string \<Rightarrow> query_error + ast" where
  "parse_source src = the (parse_filter src)"

definition run_filter :: "world \<Rightarrow> bool \<Rightarrow> get_options \<Rightarrow> ast \<Rightarrow> string list \<Rightarrow> get_outcome" where
  "run_filter w yaml o1 f files =
     (case collect_inputs w yaml o1 files of
        Inl e \<Rightarrow> e
      | Inr vs \<Rightarrow>
          (case foldl (eval_input w o1 f) ([], [], None, False) vs of (out, msgs, final, failed) \<Rightarrow>
             \<lparr>stdout_lines = out, stderr_messages = msgs, exit_code = final_code o1 final failed\<rparr>))"

text \<open>\<open>args\<close> starts with the verb.\<close>

definition json_query_dispatch :: "world \<Rightarrow> string \<Rightarrow> string list \<Rightarrow> get_outcome" where
  "json_query_dispatch w subcommand args =
     (case args of
        [] \<Rightarrow> stop_with Usage 2
      | verb # rest \<Rightarrow>
          if verb = ''-h'' \<or> verb = ''--help'' then stop_with Help 0
          else if verb \<noteq> ''get'' then stop_with Usage 2
          else (case scan_args w rest no_options of
            Inl e \<Rightarrow> e
          | Inr o1 \<Rightarrow>
              (case o_positional o1 of
                 [] \<Rightarrow> stop_with Usage 2
               | src # files \<Rightarrow>
                   (case parse_source src of
                      Inl e \<Rightarrow> stop_with (FilterError e) 3
                    | Inr f \<Rightarrow>
                        if o_parse_only o1
                        then \<lparr>stdout_lines = [], stderr_messages = [], exit_code = 0\<rparr>
                        else (case find (\<lambda>v. map_of (o_args o1) v = None) (variables f) of
                          Some v \<Rightarrow> stop_with (UnboundVariable v) 3
                        | None \<Rightarrow> run_filter w (subcommand = ''yaml'') o1 f files)))))"


subsection \<open>What a run means\<close>





text \<open>Everything else ends with another code.\<close>

lemma stop_with_code [simp]: "exit_code (stop_with m c) = c"
  by (simp add: stop_with_def)

lemma flag_cluster_code: "flag_cluster cs o1 = Inl e \<Longrightarrow> exit_code e \<in> {0, 2}"
  by (induction cs o1 rule: flag_cluster.induct) (auto split: if_splits)

lemma scan_flag_code: "scan_flag a o1 = Inl e \<Longrightarrow> exit_code e \<in> {0, 2}"
proof -
  have "\<forall>e. scan_flag a o1 = Inl e \<longrightarrow> exit_code e = 0 \<or> exit_code e = 2"
    unfolding scan_flag_def
    using flag_cluster_code[of "tl a" o1] by (simp split: if_split) 
  then show "scan_flag a o1 = Inl e \<Longrightarrow> exit_code e \<in> {0, 2}" by simp
qed

lemma scan_args_code: "scan_args w rest o1 = Inl e \<Longrightarrow> exit_code e \<in> {0, 2}"
proof (induction w rest o1 rule: scan_args.induct)
  case (1 w o1)
  then show ?case by simp
next
  case (2 w a rest o1)
  show ?case
  proof (cases "a = ''--arg'' \<or> a = ''--argjson''")
    case True
    note step = "2.prems"[unfolded scan_args.simps(2) if_P[OF True]]
    show ?thesis
    proof (cases "\<exists>k v rest'. rest = k # v # rest'")
      case False
      with step have "e = stop_with Usage 2" by (auto split: list.splits)
      then show ?thesis by simp
    next
      case rest: True
      then obtain k v rest' where r: "rest = k # v # rest'" by blast
      show ?thesis
      proof (cases "a = ''--arg''")
        case arg: True
        with "2.IH"(1)[OF True r refl arg] step r show ?thesis by simp
      next
        case arg: False
        with "2.IH"(2)[OF True r refl arg] step r show ?thesis by (auto split: option.splits)
      qed
    qed
  next
    case False
    with 2 scan_flag_code[of a o1] show ?thesis by (auto split: sum.splits)
  qed
qed

lemma read_inputs_code: "read_inputs w yaml srcs = Inl e \<Longrightarrow> exit_code e = 2"
  by (induction w yaml srcs rule: read_inputs.induct) (auto split: option.splits sum.splits)

lemma collect_inputs_code: "collect_inputs w yaml o1 files = Inl e \<Longrightarrow> exit_code e = 2"
  using read_inputs_code by (auto simp: collect_inputs_def split: sum.splits if_splits)

lemma final_code_not_three: "final_code o1 final failed \<noteq> 3"
  by (cases final) (simp_all add: final_code_def)

lemma run_filter_code: "exit_code (run_filter w yaml o1 f files) \<noteq> 3"
proof (cases "collect_inputs w yaml o1 files")
  case (Inl e)
  with collect_inputs_code[OF Inl] show ?thesis by (simp add: run_filter_def)
next
  case (Inr vs)
  then show ?thesis
    by (simp add: run_filter_def final_code_not_three split: prod.split)
qed

text \<open>
  A filter is refused before any input is read: the code is 3 exactly when the arguments are in
  order, a filter is given, and it does not parse or, outside \<open>--parse-only\<close>, has an unbound variable.
\<close>

theorem exit_three_iff:
  "exit_code (json_query_dispatch w subcommand (''get'' # rest)) = 3 \<longleftrightarrow>
     (\<exists>o1 src files. scan_args w rest no_options = Inr o1 \<and> o_positional o1 = src # files
       \<and> (case parse_source src of
            Inr f \<Rightarrow> \<not> o_parse_only o1 \<and> \<not> set (variables f) \<subseteq> dom (map_of (o_args o1))
          | Inl e \<Rightarrow> True))"
proof (cases "scan_args w rest no_options")
  case (Inl e)
  with scan_args_code[OF Inl] show ?thesis by (auto simp: json_query_dispatch_def)
next
  case (Inr o1)
  show ?thesis
  proof (cases "o_positional o1")
    case Nil
    with Inr show ?thesis by (simp add: json_query_dispatch_def)
  next
    case (Cons src files)
    show ?thesis
    proof (cases "parse_source src")
      case (Inl e)
      with Inr Cons show ?thesis by (simp add: json_query_dispatch_def)
    next
      case f: (Inr f)
      have "find (\<lambda>v. map_of (o_args o1) v = None) (variables f) = None \<longleftrightarrow>
          set (variables f) \<subseteq> dom (map_of (o_args o1))"
        by (auto simp: find_None_iff)
      with Inr Cons f run_filter_code show ?thesis
        by (auto simp: json_query_dispatch_def split: option.split)
    qed
  qed
qed


subsection \<open>A run\<close>





end
