(* ===== verification/Json_Round_Trip.thy ===== *)
theory Json_Round_Trip
  imports Json_Parser_Props
begin

text \<open>
  The parser reads back every filter it can build. \<open>print\<close> writes a filter as tokens, every binary
  operation in parentheses; a literal is one of the forms the grammar has.
\<close>

subsection \<open>Printing\<close>

fun builtin_name :: "builtin \<Rightarrow> string" where
  "builtin_name Select = ''select''"
| "builtin_name Has = ''has''"
| "builtin_name Length = ''length''"
| "builtin_name Keys = ''keys''"
| "builtin_name KeysUnsorted = ''keys_unsorted''"
| "builtin_name TypeOf = ''type''"
| "builtin_name Not = ''not''"
| "builtin_name Empty = ''empty''"
| "builtin_name AsciiDowncase = ''ascii_downcase''"
| "builtin_name ToString = ''tostring''"

fun cmp_token :: "cmp_op \<Rightarrow> tok" where
  "cmp_token OpEq = TEq" | "cmp_token OpNe = TNe" | "cmp_token OpLt = TLt"
| "cmp_token OpLe = TLe" | "cmp_token OpGt = TGt" | "cmp_token OpGe = TGe"

fun literal_token :: "json \<Rightarrow> tok" where
  "literal_token JNull = TIdent ''null''"
| "literal_token (JBool True) = TIdent ''true''"
| "literal_token (JBool False) = TIdent ''false''"
| "literal_token (JNumber n) = TNum (as_f64 n)"
| "literal_token (JString s) = TStr s"
| "literal_token (JArray _) = TDotDot"
| "literal_token (JObject _) = TDotDot"

text \<open>A number literal denotes the number it is printed as: integers below \<open>2 ^ 53\<close> and fractions.\<close>

fun printable_literal :: "json \<Rightarrow> bool" where
  "printable_literal (JNumber n) = (json_number (as_f64 n) = JNumber n)"
| "printable_literal (JArray _) = False"
| "printable_literal (JObject _) = False"
| "printable_literal _ = True"

fun printable :: "ast \<Rightarrow> bool" where
  "printable Identity = True"
| "printable (Literal l) = printable_literal l"
| "printable (Var _) = True"
| "printable (Index a b) = (printable a \<and> printable b)"
| "printable (Iterate a) = printable a"
| "printable (Try a) = printable a"
| "printable (Pipe a b) = (printable a \<and> printable b)"
| "printable (Comma a b) = (printable a \<and> printable b)"
| "printable (Alt a b) = (printable a \<and> printable b)"
| "printable (And a b) = (printable a \<and> printable b)"
| "printable (Or a b) = (printable a \<and> printable b)"
| "printable (Cmp _ a b) = (printable a \<and> printable b)"
| "printable (Collect None) = True"
| "printable (Collect (Some a)) = printable a"
| "printable (Call f None) = (\<not> takes_argument f)"
| "printable (Call f (Some a)) = (takes_argument f \<and> printable a)"

fun print :: "ast \<Rightarrow> tok list" where
  "print Identity = [TLParen, TDot, TRParen]"
| "print (Literal l) = [literal_token l]"
| "print (Var n) = [TVar n]"
| "print (Index a b) = print a @ TLBrack # print b @ [TRBrack]"
| "print (Iterate a) = print a @ [TLBrack, TRBrack]"
| "print (Try a) = print a @ [TQuestion]"
| "print (Pipe a b) = TLParen # print a @ TPipe # print b @ [TRParen]"
| "print (Comma a b) = TLParen # print a @ TComma # print b @ [TRParen]"
| "print (Alt a b) = TLParen # print a @ TAlt # print b @ [TRParen]"
| "print (And a b) = TLParen # print a @ TIdent ''and'' # print b @ [TRParen]"
| "print (Or a b) = TLParen # print a @ TIdent ''or'' # print b @ [TRParen]"
| "print (Cmp c a b) = TLParen # print a @ cmp_token c # print b @ [TRParen]"
| "print (Collect None) = [TLBrack, TRBrack]"
| "print (Collect (Some a)) = TLBrack # print a @ [TRBrack]"
| "print (Call f None) = [TIdent (builtin_name f)]"
| "print (Call f (Some a)) = TIdent (builtin_name f) # TLParen # print a @ [TRParen]"

definition tokens_at :: "nat \<Rightarrow> ast \<Rightarrow> spanned list" where
  "tokens_at q a = map (\<lambda>k. (k, q)) (print a)"

subsection \<open>Parsing with as much fuel as it takes\<close>

definition parses :: "nat \<Rightarrow> grammar_rule \<Rightarrow> spanned list \<Rightarrow> ast \<Rightarrow> spanned list \<Rightarrow> bool" where
  "parses len x ts a r \<longleftrightarrow> eventually (\<lambda>n. parse_nt n len x ts = ok a r) sequentially"

lemma parsesI: "eventually (\<lambda>n. parse_nt (Suc n) len x ts = ok a r) sequentially \<Longrightarrow> parses len x ts a r"
  unfolding parses_def
  by (rule iffD1[OF eventually_sequentially_Suc[of "\<lambda>n. parse_nt n len x ts = ok a r"]])

lemma parses_tail:
  assumes "parses len y ts' a r"
    and "\<And>n. parse_nt n len y ts' = ok a r \<Longrightarrow> parse_nt (Suc n) len x ts = ok b r'"
  shows "parses len x ts b r'"
proof (rule parsesI)
  from assms(1) show "eventually (\<lambda>n. parse_nt (Suc n) len x ts = ok b r') sequentially"
    unfolding parses_def by (rule eventually_mono) (rule assms(2))
qed

lemma parses_two:
  assumes "parses len y ts' a r" and "parses len z ts2 a2 r2"
    and "\<And>n. parse_nt n len y ts' = ok a r \<Longrightarrow> parse_nt n len z ts2 = ok a2 r2 \<Longrightarrow>
      parse_nt (Suc n) len x ts = ok b r'"
  shows "parses len x ts b r'"
proof (rule parsesI)
  from assms(1,2) show "eventually (\<lambda>n. parse_nt (Suc n) len x ts = ok b r') sequentially"
    unfolding parses_def by (rule eventually_elim2) (rule assms(3))
qed

text \<open>Where each level of the grammar stops.\<close>

definition stops_postfix :: "spanned list \<Rightarrow> bool" where
  "stops_postfix ts \<longleftrightarrow>
     (case ts of [] \<Rightarrow> True
      | (k, _) # _ \<Rightarrow> (case k of TField _ \<Rightarrow> False | TDot \<Rightarrow> False | TLBrack \<Rightarrow> False | TQuestion \<Rightarrow> False | _ \<Rightarrow> True))"

definition stops_cmp :: "spanned list \<Rightarrow> bool" where
  "stops_cmp ts \<longleftrightarrow> stops_postfix ts \<and> cmp_op_of ts = None"

definition stops_or :: "spanned list \<Rightarrow> bool" where
  "stops_or ts \<longleftrightarrow> stops_cmp ts \<and> \<not> peek_ident ''and'' ts \<and> \<not> peek_ident ''or'' ts"

definition head_is :: "tok \<Rightarrow> spanned list \<Rightarrow> bool" where
  "head_is k ts \<longleftrightarrow> (case ts of [] \<Rightarrow> False | (k', _) # _ \<Rightarrow> k' = k)"

definition closes :: "spanned list \<Rightarrow> bool" where
  "closes ts \<longleftrightarrow> ts = [] \<or> head_is TRParen ts \<or> head_is TRBrack ts"

lemma parses_stop_loop: "stops_postfix r \<Longrightarrow> parses len (NPostfixLoop a) r a r"
  by (rule parsesI, rule always_eventually)
    (auto simp: p_postfix_loop_def stops_postfix_def split: list.splits prod.splits tok.splits)

lemma parses_cmp: "parses len NPostfix ts a r \<Longrightarrow> stops_cmp r \<Longrightarrow> parses len NCmp ts a r"
  by (rule parses_tail, assumption) (simp add: p_cmp_def stops_cmp_def)

lemma parses_and:
  assumes "parses len NCmp ts a r" and "\<not> peek_ident ''and'' r"
  shows "parses len NAnd ts a r"
proof -
  have "parses len (NAndLoop a) r a r"
    by (rule parsesI, rule always_eventually) (simp add: p_and_loop_def assms(2))
  from parses_two[OF assms(1) this] show ?thesis by (simp add: p_and_def)
qed

lemma parses_or:
  assumes "parses len NAnd ts a r" and "\<not> peek_ident ''or'' r"
  shows "parses len NOr ts a r"
proof -
  have "parses len (NOrLoop a) r a r"
    by (rule parsesI, rule always_eventually) (simp add: p_or_loop_def assms(2))
  from parses_two[OF assms(1) this] show ?thesis by (simp add: p_or_def)
qed

lemma parses_alt: "parses len NOr ts a r \<Longrightarrow> \<not> head_is TAlt r \<Longrightarrow> parses len NAlt ts a r"
  by (rule parses_tail)
    (auto simp: p_alt_def head_is_def split: list.splits prod.splits tok.splits)

lemma parses_comma:
  assumes "parses len NAlt ts a r" and "\<not> head_is TComma r"
  shows "parses len NComma ts a r"
proof -
  have "parses len (NCommaLoop a) r a r"
    using assms(2) by (intro parsesI always_eventually)
      (auto simp: p_comma_loop_def head_is_def split: list.splits prod.splits tok.splits)
  from parses_two[OF assms(1) this] show ?thesis by (simp add: p_comma_def)
qed

lemma parses_pipe:
  "parses len NComma ts a r \<Longrightarrow> \<not> head_is TPipe r \<Longrightarrow> \<not> peek_ident ''as'' r \<Longrightarrow> \<not> peek_ident ''def'' ts \<Longrightarrow>
     parses len NPipe ts a r"
  by (rule parses_tail)
    (auto simp: p_pipe_def head_is_def split: list.splits prod.splits tok.splits)

lemma closes_facts:
  assumes "closes r"
  shows "stops_cmp r" "stops_postfix r" "\<not> peek_ident w r" "\<not> head_is TAlt r" "\<not> head_is TComma r"
    "\<not> head_is TPipe r" "cmp_op_of r = None"
  using assms
  by (auto simp: closes_def head_is_def stops_cmp_def stops_postfix_def peek_ident_def cmp_op_of_def
      split: list.splits)

lemma parses_closed:
  assumes "parses len NPostfix ts a r" and "closes r" and "\<not> peek_ident ''def'' ts"
  shows "parses len NPipe ts a r"
  using closes_facts[OF assms(2)] assms
  by (intro parses_pipe parses_comma parses_alt parses_or parses_and parses_cmp)


lemma parses_postfix:
  "parses len NTerm ts a rest \<Longrightarrow> parses len (NPostfixLoop a) rest b r \<Longrightarrow> parses len NPostfix ts b r"
  by (erule (1) parses_two) (simp add: p_postfix_def)

lemma parses_parens:
  "parses len NPipe ts a ((TRParen, q) # rest) \<Longrightarrow> parses len NTerm ((TLParen, q) # ts) a rest"
  by (erule parses_tail) (simp add: p_term_def expect_def)

lemma parses_term_now:
  "(\<And>n. p_term (parse_nt n len) len ts = ok a r) \<Longrightarrow> parses len NTerm ts a r"
  by (rule parsesI, rule always_eventually) simp

text \<open>One operator between two operands that are closed by the rest.\<close>

lemma parses_and_op:
  assumes "parses len NCmp ts a ((TIdent ''and'', q) # ts2)" and "parses len NCmp ts2 b r" and "\<not> peek_ident ''and'' r"
  shows "parses len NAnd ts (And a b) r"
proof -
  have "parses len (NAndLoop (And a b)) r (And a b) r"
    by (rule parsesI, rule always_eventually) (simp add: p_and_loop_def assms(3))
  with assms(2) have "parses len (NAndLoop a) ((TIdent ''and'', q) # ts2) (And a b) r"
    by (rule parses_two) (simp add: p_and_loop_def peek_ident_def)
  with assms(1) show ?thesis by (rule parses_two) (simp add: p_and_def)
qed

lemma parses_or_op:
  assumes "parses len NAnd ts a ((TIdent ''or'', q) # ts2)" and "parses len NAnd ts2 b r" and "\<not> peek_ident ''or'' r"
  shows "parses len NOr ts (Or a b) r"
proof -
  have "parses len (NOrLoop (Or a b)) r (Or a b) r"
    by (rule parsesI, rule always_eventually) (simp add: p_or_loop_def assms(3))
  with assms(2) have "parses len (NOrLoop a) ((TIdent ''or'', q) # ts2) (Or a b) r"
    by (rule parses_two) (simp add: p_or_loop_def peek_ident_def)
  with assms(1) show ?thesis by (rule parses_two) (simp add: p_or_def)
qed

lemma parses_comma_op:
  assumes "parses len NAlt ts a ((TComma, q) # ts2)" and "parses len NAlt ts2 b r" and "\<not> head_is TComma r"
  shows "parses len NComma ts (Comma a b) r"
proof -
  have "parses len (NCommaLoop (Comma a b)) r (Comma a b) r"
    using assms(3) by (intro parsesI always_eventually)
      (auto simp: p_comma_loop_def head_is_def split: list.splits prod.splits tok.splits)
  with assms(2) have "parses len (NCommaLoop a) ((TComma, q) # ts2) (Comma a b) r"
    by (rule parses_two) (simp add: p_comma_loop_def)
  with assms(1) show ?thesis by (rule parses_two) (simp add: p_comma_def)
qed

lemma parses_alt_op:
  "parses len NOr ts a ((TAlt, q) # ts2) \<Longrightarrow> parses len NAlt ts2 b r \<Longrightarrow> parses len NAlt ts (Alt a b) r"
  by (erule (1) parses_two) (simp add: p_alt_def)

lemma parses_pipe_op:
  "parses len NComma ts a ((TPipe, q) # ts2) \<Longrightarrow> parses len NPipe ts2 b r \<Longrightarrow> \<not> peek_ident ''def'' ts \<Longrightarrow>
     parses len NPipe ts (Pipe a b) r"
  by (erule (1) parses_two) (simp add: p_pipe_def peek_ident_def)

lemma cmp_token_inverse: "cmp_op_of ((cmp_token c, q) # ts) = Some c"
  by (cases c) (simp_all add: cmp_op_of_def)

lemma parses_cmp_op:
  "parses len NPostfix ts a ((cmp_token c, q) # ts2) \<Longrightarrow> parses len NPostfix ts2 b r \<Longrightarrow> cmp_op_of r = None \<Longrightarrow>
     parses len NCmp ts (Cmp c a b) r"
  by (erule (1) parses_two) (simp add: p_cmp_def cmp_token_inverse)

lemma parses_bracket:
  "parses len NPipe ts b ((TRBrack, q) # rest) \<Longrightarrow> \<not> head_is TRBrack ts \<Longrightarrow>
     parses len (NBracket a) ((TLBrack, q') # ts) (Index a b) rest"
  by (erule parses_tail)
    (auto simp: p_bracket_def expect_def head_is_def split: list.splits prod.splits tok.splits)

lemma parses_collect:
  "parses len NPipe ts a ((TRBrack, q) # rest) \<Longrightarrow> \<not> head_is TRBrack ts \<Longrightarrow>
     parses len NTerm ((TLBrack, q) # ts) (Collect (Some a)) rest"
  by (erule parses_tail)
    (auto simp: p_term_def expect_def head_is_def split: list.splits prod.splits tok.splits)

lemma parses_loop_bracket:
  "parses len (NBracket a) ((TLBrack, q) # ts) t rest \<Longrightarrow> parses len (NPostfixLoop t) rest b r \<Longrightarrow>
     parses len (NPostfixLoop a) ((TLBrack, q) # ts) b r"
  by (erule (1) parses_two) (simp add: p_postfix_loop_def)

subsection \<open>The round trip\<close>

lemma print_head: "printable a \<Longrightarrow> \<exists>k ks. print a = k # ks \<and> k \<noteq> TRBrack \<and> k \<noteq> TIdent ''def''"
proof (induction a rule: print.induct)
  case (2 l)
  then show ?case by (cases l rule: literal_token.cases) simp_all
next
  case (15 f)
  then show ?case by (cases f) simp_all
next
  case (16 f a)
  then show ?case by (cases f) simp_all
qed auto

lemma tokens_head:
  "printable a \<Longrightarrow> \<not> peek_ident ''def'' (tokens_at q a @ rest)"
  "printable a \<Longrightarrow> \<not> head_is TRBrack (tokens_at q a @ rest)"
  using print_head[of a] by (auto simp: tokens_at_def peek_ident_def head_is_def split: tok.splits)

lemma tokens_at_simps [simp]:
  "tokens_at q Identity = [(TLParen, q), (TDot, q), (TRParen, q)]"
  "tokens_at q (Literal l) = [(literal_token l, q)]"
  "tokens_at q (Var n) = [(TVar n, q)]"
  "tokens_at q (Index a b) = tokens_at q a @ (TLBrack, q) # tokens_at q b @ [(TRBrack, q)]"
  "tokens_at q (Iterate a) = tokens_at q a @ [(TLBrack, q), (TRBrack, q)]"
  "tokens_at q (Try a) = tokens_at q a @ [(TQuestion, q)]"
  "tokens_at q (Pipe a b) = (TLParen, q) # tokens_at q a @ (TPipe, q) # tokens_at q b @ [(TRParen, q)]"
  "tokens_at q (Comma a b) = (TLParen, q) # tokens_at q a @ (TComma, q) # tokens_at q b @ [(TRParen, q)]"
  "tokens_at q (Alt a b) = (TLParen, q) # tokens_at q a @ (TAlt, q) # tokens_at q b @ [(TRParen, q)]"
  "tokens_at q (And a b) = (TLParen, q) # tokens_at q a @ (TIdent ''and'', q) # tokens_at q b @ [(TRParen, q)]"
  "tokens_at q (Or a b) = (TLParen, q) # tokens_at q a @ (TIdent ''or'', q) # tokens_at q b @ [(TRParen, q)]"
  "tokens_at q (Cmp c a b) = (TLParen, q) # tokens_at q a @ (cmp_token c, q) # tokens_at q b @ [(TRParen, q)]"
  "tokens_at q (Collect None) = [(TLBrack, q), (TRBrack, q)]"
  "tokens_at q (Collect (Some a)) = (TLBrack, q) # tokens_at q a @ [(TRBrack, q)]"
  "tokens_at q (Call f None) = [(TIdent (builtin_name f), q)]"
  "tokens_at q (Call f (Some a)) = (TIdent (builtin_name f), q) # (TLParen, q) # tokens_at q a @ [(TRParen, q)]"
  by (simp_all add: tokens_at_def)


text \<open>Printed filters are read as postfix terms, before anything that does not open a call.\<close>

definition reads_back :: "nat \<Rightarrow> nat \<Rightarrow> ast \<Rightarrow> bool" where
  "reads_back len q a \<longleftrightarrow>
     (\<forall>rest b r. \<not> head_is TLParen rest \<longrightarrow> parses len (NPostfixLoop a) rest b r \<longrightarrow>
        parses len NPostfix (tokens_at q a @ rest) b r)"

lemma reads_backI:
  "(\<And>rest. \<not> head_is TLParen rest \<Longrightarrow> parses len NTerm (tokens_at q a @ rest) a rest) \<Longrightarrow> reads_back len q a"
  unfolding reads_back_def using parses_postfix by blast

lemma reads_back_stop:
  "reads_back len q a \<Longrightarrow> stops_postfix rest \<Longrightarrow> \<not> head_is TLParen rest \<Longrightarrow>
     parses len NPostfix (tokens_at q a @ rest) a rest"
  unfolding reads_back_def using parses_stop_loop by blast

lemma reads_back_closed:
  "reads_back len q a \<Longrightarrow> printable a \<Longrightarrow> closes rest \<Longrightarrow>
     parses len NPipe (tokens_at q a @ rest) a rest"
  by (rule parses_closed[OF reads_back_stop])
    (auto simp: closes_facts tokens_head closes_def head_is_def split: list.splits)

lemma closes_brackets [simp]: "closes ((TRParen, q) # rest)" "closes ((TRBrack, q) # rest)" "closes []"
  by (simp_all add: closes_def head_is_def)

lemma token_stops [simp]:
  "stops_postfix ((TPipe, q) # ts)" "stops_postfix ((TComma, q) # ts)" "stops_postfix ((TAlt, q) # ts)"
  "stops_postfix ((TIdent w, q) # ts)" "stops_postfix ((cmp_token c, q) # ts)"
  "stops_postfix ((TRParen, q) # ts)" "stops_postfix ((TRBrack, q) # ts)"
  "head_is k ((k', q) # ts) \<longleftrightarrow> k' = k" "peek_ident w ((TIdent w', q) # ts) \<longleftrightarrow> w' = w"
  "\<not> peek_ident w ((TPipe, q) # ts)" "\<not> peek_ident w ((TComma, q) # ts)" "\<not> peek_ident w ((TAlt, q) # ts)"
  "\<not> peek_ident w ((TRParen, q) # ts)" "cmp_op_of ((TRParen, q) # ts) = None"
  "cmp_op_of ((TPipe, q) # ts) = None" "cmp_op_of ((TComma, q) # ts) = None"
  "cmp_op_of ((TAlt, q) # ts) = None" "cmp_op_of ((TIdent w, q) # ts) = None"
  "cmp_token c \<noteq> TLParen"
  by (cases c; simp add: stops_postfix_def head_is_def peek_ident_def cmp_op_of_def)+

lemma keyword_of_builtin: "keyword (builtin_name f) pos = None"
  by (cases f) (simp_all add: keyword_def)

lemma builtin_of_name:
  "\<not> takes_argument f \<Longrightarrow> builtin_of (builtin_name f) None = Inr (Call f None)"
  "takes_argument f \<Longrightarrow> builtin_of (builtin_name f) (Some a) = Inr (Call f (Some a))"
  by (cases f; simp add: builtin_of_def)+

lemma literal_reads_back: "printable_literal l \<Longrightarrow> parses len NTerm ((literal_token l, q) # rest) (Literal l) rest"
proof -
  have word: "parses len NTerm ((TIdent w, q) # rest) (Literal l) rest"
    if "keyword w q = Some (Inr (Literal l))" for w
  proof -
    have "parses len (NCall w q) rest (Literal l) rest"
      by (rule parsesI, rule always_eventually) (simp add: p_call_def that)
    then show ?thesis by (rule parses_tail) (simp add: p_term_def)
  qed
  have words: "keyword ''null'' q = Some (Inr (Literal JNull))"
    "keyword ''true'' q = Some (Inr (Literal (JBool True)))"
    "keyword ''false'' q = Some (Inr (Literal (JBool False)))"
    by (simp_all add: keyword_def)
  assume "printable_literal l"
  then show ?thesis
    using word words
    by (cases l rule: literal_token.cases) (auto intro: parses_term_now simp: p_term_def)
qed

lemma parses_call:
  assumes "parses len NPipe ts a ((TRParen, q) # rest)" and "takes_argument f"
  shows "parses len (NCall (builtin_name f) q) ((TLParen, q) # ts) (Call f (Some a)) rest"
  using assms(1)
  by (rule parses_tail)
    (simp add: p_call_def keyword_of_builtin finish_call_def builtin_of_name assms(2))

lemma call_reads_back:
  assumes "parses len (NCall (builtin_name f) q) ts a rest"
  shows "parses len NTerm ((TIdent (builtin_name f), q) # ts) a rest"
  using assms by (rule parses_tail) (simp add: p_term_def)

lemma printed_reads_back: "printable a \<Longrightarrow> reads_back len q a"
proof (induction a rule: print.induct)
  case 1
  have "parses len NPipe ((TDot, q) # (TRParen, q) # rest) Identity ((TRParen, q) # rest)" for rest
  proof (rule parses_closed)
    have "parses len NTerm ((TDot, q) # (TRParen, q) # rest) Identity ((TRParen, q) # rest)"
      by (rule parses_term_now) (simp add: p_term_def)
    then show "parses len NPostfix ((TDot, q) # (TRParen, q) # rest) Identity ((TRParen, q) # rest)"
      by (rule parses_postfix) (simp add: parses_stop_loop)
  qed (simp_all add: peek_ident_def)
  then show ?case by (intro reads_backI) (auto intro: parses_parens)
next
  case (2 l)
  then show ?case by (intro reads_backI) (simp add: literal_reads_back)
next
  case (3 n)
  show ?case by (intro reads_backI parses_term_now) (simp add: p_term_def)
next
  case (4 a b)
  then have IH: "reads_back len q a" "reads_back len q b" "printable b" by simp_all
  show ?case
    unfolding reads_back_def
  proof (intro allI impI)
    fix rest t r
    assume "parses len (NPostfixLoop (Index a b)) rest t r"
    moreover have "parses len (NBracket a) ((TLBrack, q) # tokens_at q b @ (TRBrack, q) # rest) (Index a b) rest"
      using reads_back_closed[OF IH(2,3)] IH(3) by (intro parses_bracket[where q = q]) (simp_all add: tokens_head)
    ultimately have "parses len (NPostfixLoop a) ((TLBrack, q) # tokens_at q b @ (TRBrack, q) # rest) t r"
      by (rule parses_loop_bracket[rotated])
    with IH(1) show "parses len NPostfix (tokens_at q (Index a b) @ rest) t r"
      by (simp add: reads_back_def)
  qed
next
  case (5 a)
  then have IH: "reads_back len q a" by simp
  show ?case
    unfolding reads_back_def
  proof (intro allI impI)
    fix rest t r
    assume "parses len (NPostfixLoop (Iterate a)) rest t r"
    moreover have "parses len (NBracket a) ((TLBrack, q) # (TRBrack, q) # rest) (Iterate a) rest"
      by (rule parsesI, rule always_eventually) (simp add: p_bracket_def expect_def)
    ultimately have "parses len (NPostfixLoop a) ((TLBrack, q) # (TRBrack, q) # rest) t r"
      by (rule parses_loop_bracket[rotated])
    with IH show "parses len NPostfix (tokens_at q (Iterate a) @ rest) t r"
      by (simp add: reads_back_def)
  qed
next
  case (6 a)
  then have IH: "reads_back len q a" by simp
  show ?case
    unfolding reads_back_def
  proof (intro allI impI)
    fix rest t r
    assume "parses len (NPostfixLoop (Try a)) rest t r"
    then have "parses len (NPostfixLoop a) ((TQuestion, q) # rest) t r"
      by (rule parses_tail) (simp add: p_postfix_loop_def)
    with IH show "parses len NPostfix (tokens_at q (Try a) @ rest) t r"
      by (simp add: reads_back_def)
  qed
next
  case (7 a b)
  then have IH: "reads_back len q a" "reads_back len q b" "printable a" "printable b" by simp_all
  show ?case
    using reads_back_closed[OF IH(2,4)] IH(1,3)
    by (intro reads_backI)
      (auto intro!: parses_parens parses_pipe_op parses_comma parses_alt parses_or parses_and
        parses_cmp reads_back_stop simp: stops_cmp_def tokens_head)
next
  case (8 a b)
  then have IH: "reads_back len q a" "reads_back len q b" "printable a" "printable b" by simp_all
  show ?case
    using IH
    by (intro reads_backI)
      (auto intro!: parses_parens parses_pipe parses_comma_op parses_alt parses_or parses_and
        parses_cmp reads_back_stop simp: stops_cmp_def tokens_head)
next
  case (9 a b)
  then have IH: "reads_back len q a" "reads_back len q b" "printable a" "printable b" by simp_all
  have "parses len NAlt (tokens_at q b @ (TRParen, q) # rest) b ((TRParen, q) # rest)" for rest
    using IH by (auto intro!: parses_alt parses_or parses_and parses_cmp reads_back_stop simp: stops_cmp_def)
  then show ?case
    using IH
    by (intro reads_backI)
      (auto intro!: parses_parens parses_pipe parses_comma parses_alt_op parses_or parses_and
        parses_cmp reads_back_stop simp: stops_cmp_def tokens_head)
next
  case (10 a b)
  then have IH: "reads_back len q a" "reads_back len q b" "printable a" "printable b" by simp_all
  show ?case
    using IH
    by (intro reads_backI)
      (auto intro!: parses_parens parses_pipe parses_comma parses_alt parses_or parses_and_op
        parses_cmp reads_back_stop simp: stops_cmp_def tokens_head)
next
  case (11 a b)
  then have IH: "reads_back len q a" "reads_back len q b" "printable a" "printable b" by simp_all
  show ?case
    using IH
    by (intro reads_backI)
      (auto intro!: parses_parens parses_pipe parses_comma parses_alt parses_or_op parses_and
        parses_cmp reads_back_stop simp: stops_cmp_def tokens_head)
next
  case (12 c a b)
  then have IH: "reads_back len q a" "reads_back len q b" "printable a" "printable b" by simp_all
  show ?case
    using IH
    by (intro reads_backI)
      (auto intro!: parses_parens parses_pipe parses_comma parses_alt parses_or parses_and
        parses_cmp_op reads_back_stop simp: stops_cmp_def tokens_head)
next
  case 13
  show ?case by (intro reads_backI parses_term_now) (simp add: p_term_def)
next
  case (14 a)
  then have IH: "reads_back len q a" "printable a" by simp_all
  have "parses len NTerm ((TLBrack, q) # tokens_at q a @ (TRBrack, q) # rest) (Collect (Some a)) rest" for rest
    by (intro parses_collect reads_back_closed tokens_head) (simp_all add: IH)
  then show ?case by (intro reads_backI) simp
next
  case (15 f)
  have "parses len (NCall (builtin_name f) q) rest (Call f None) rest" if "\<not> head_is TLParen rest" for rest
    using that 15
    by (intro parsesI always_eventually)
      (auto simp: p_call_def keyword_of_builtin finish_call_def builtin_of_name head_is_def
        split: list.splits prod.splits tok.splits)
  then show ?case by (intro reads_backI) (simp add: call_reads_back)
next
  case (16 f a)
  then have IH: "reads_back len q a" "printable a" "takes_argument f" by simp_all
  have "parses len (NCall (builtin_name f) q) ((TLParen, q) # tokens_at q a @ (TRParen, q) # rest) (Call f (Some a)) rest" for rest
    by (intro parses_call reads_back_closed) (simp_all add: IH)
  then show ?case by (intro reads_backI) (simp add: call_reads_back)
qed


subsection \<open>More fuel changes no answer\<close>

definition below :: "'a presult \<Rightarrow> 'a presult \<Rightarrow> bool" where
  "below m m' \<longleftrightarrow> m = None \<or> m = m'"

lemma below_refl [simp]: "below m m"
  by (simp add: below_def)

lemma below_pbind:
  "below m m' \<Longrightarrow> (\<And>a r. below (f a r) (f' a r)) \<Longrightarrow> below (pbind m f) (pbind m' f')"
proof (cases m)
  case (Some res)
  assume m: "below m m'" and f: "\<And>a r. below (f a r) (f' a r)"
  from m Some have "m' = Some res" by (simp add: below_def)
  with Some f show ?thesis by (cases res) auto
qed (simp add: below_def)

locale more_fuel =
  fixes p p' :: parser
  assumes p_below: "below (p x ts) (p' x ts)"
begin

lemmas steps = below_pbind p_below

lemma rules_below:
  "below (p_pipe p ts) (p_pipe p' ts)" "below (p_comma p ts) (p_comma p' ts)"
  "below (p_comma_loop p a ts) (p_comma_loop p' a ts)" "below (p_alt p ts) (p_alt p' ts)"
  "below (p_or p ts) (p_or p' ts)" "below (p_or_loop p a ts) (p_or_loop p' a ts)"
  "below (p_and p ts) (p_and p' ts)" "below (p_and_loop p a ts) (p_and_loop p' a ts)"
  "below (p_postfix p ts) (p_postfix p' ts)"
  unfolding p_pipe_def p_comma_def p_comma_loop_def p_alt_def p_or_def p_or_loop_def p_and_def
    p_and_loop_def p_postfix_def
  by (auto intro!: steps split: list.split prod.split tok.split)

lemma more_rules_below:
  "below (p_cmp p len ts) (p_cmp p' len ts)"
  "below (p_bracket p len a ts) (p_bracket p' len a ts)"
  "below (p_call p name pos ts) (p_call p' name pos ts)"
  unfolding p_cmp_def p_bracket_def p_call_def
  by (auto intro!: steps split: option.split sum.split list.split prod.split tok.split)

lemma term_below: "below (p_term p len ts) (p_term p' len ts)"
  unfolding p_term_def by (auto intro!: steps split: list.split prod.split tok.split)

lemma postfix_loop_below: "below (p_postfix_loop p a ts) (p_postfix_loop p' a ts)"
  unfolding p_postfix_loop_def by (auto intro!: steps split: list.split prod.split tok.split)

end

lemma parse_nt_below: "below (parse_nt n len x ts) (parse_nt (Suc n) len x ts)"
proof (induction n arbitrary: x ts)
  case 0
  then show ?case by (simp add: below_def)
next
  case (Suc n)
  then have mf: "more_fuel (parse_nt n len) (parse_nt (Suc n) len)" by (rule more_fuel.intro)
  note rules = more_fuel.rules_below[OF mf] more_fuel.more_rules_below[OF mf]
    more_fuel.term_below[OF mf] more_fuel.postfix_loop_below[OF mf]
  show ?case
    unfolding parse_nt.simps(2)[of "Suc n"] parse_nt.simps(2)[of n len x ts]
    by (cases x) (simp_all add: rules del: parse_nt.simps)
qed

interpretation fuel: more_fuel "parse_nt n len" "parse_nt (Suc n) len" for n len
  by unfold_locales (rule parse_nt_below)

lemma parse_nt_stable: "parse_nt n len x ts = Some res \<Longrightarrow> parse_nt (n + k) len x ts = Some res"
  by (induction k) (use parse_nt_below in \<open>auto simp: below_def simp del: parse_nt.simps, metis option.discI\<close>)

text \<open>
  C35. Printing and parsing: for every filter the grammar can express, parsing the printed tokens,
  wherever they stand in the source, with the parser's own fuel gives the filter back and leaves no
  token.
\<close>

theorem parse_print:
  assumes "printable a" and "q \<le> len"
  shows "parse_nt (parse_fuel (length (print a))) len NPipe (tokens_at q a) = Some (Inr (a, []))"
proof -
  let ?fuel = "parse_fuel (length (print a))"
  have "parses len NPipe (tokens_at q a @ []) a []"
    by (rule reads_back_closed[OF printed_reads_back[OF assms(1)] assms(1)]) simp
  then obtain N where N: "parse_nt n len NPipe (tokens_at q a) = Some (Inr (a, []))" if "N \<le> n" for n
    by (auto simp: parses_def eventually_sequentially)
  have "tokens_within len (tokens_at q a)"
    using assms(2) by (auto simp: tokens_within_def tokens_at_def list_all_iff)
  then have "answered (parse_nt ?fuel len NPipe (tokens_at q a))"
    by (intro filter_parser_fuel.answer) (simp_all add: depth_def parse_fuel_def tokens_at_def)
  then obtain res where res: "parse_nt ?fuel len NPipe (tokens_at q a) = Some res"
    by (auto simp: answered_def)
  with parse_nt_stable[OF this, of N] N[of "?fuel + N"] show ?thesis by simp
qed


theorem parse_print_witness:
  "parse_nt (parse_fuel (length (print (Alt (Pipe (Var ''x'') (Literal JNull)) (Call Has (Some (Literal (JString ''k''))))))))
     7 NPipe (tokens_at 3 (Alt (Pipe (Var ''x'') (Literal JNull)) (Call Has (Some (Literal (JString ''k''))))))
   = Some (Inr (Alt (Pipe (Var ''x'') (Literal JNull)) (Call Has (Some (Literal (JString ''k'')))), []))"
  by (rule parse_print) simp_all


text \<open>
  A negative literal with an exponent is the one number form that does not lex as a number: its
  exponent is left over as a word.
\<close>

theorem negative_exponent_refused:
  "parse_filter ''-1e5'' = Some (Inl (ParseError 2 (Unexpected (TIdent ''e5''))))"
  by code_simp

end
