(* ===== verification/Render.thy ===== *)
theory Render
  imports Load Edit
begin

text \<open>
  The text that the ledger writes (\<open>crates/tillandsias-plan/src/fragments.rs\<close>): the canonical form of
  a packet item, of a field and of a list item, the quoting of time stamps, block scalars, and the
  body of a correction fragment with its checks. The YAML serialiser is the argument \<open>to_yaml\<close>; on
  the values of the model it does not fail.
\<close>

abbreviation spaces :: "nat \<Rightarrow> string" where
  "spaces n \<equiv> replicate n CHR 32"

definition trim_end_lf :: "string \<Rightarrow> string" where
  "trim_end_lf s = trim_end_chars (\<lambda>c. c = CHR 10) s"

definition quoted :: "string \<Rightarrow> string" where
  "quoted s = quote @ s @ quote"

subsection \<open>Time stamps\<close>

definition digits_at :: "string \<Rightarrow> nat list \<Rightarrow> bool" where
  "digits_at b is \<longleftrightarrow> list_all (\<lambda>i. is_ascii_digit (b ! i)) is"

definition is_yaml11_timestamp :: "string \<Rightarrow> bool" where
  "is_yaml11_timestamp b \<longleftrightarrow>
     (if length b < 10 then False
      else digits_at b [0, 1, 2, 3] \<and> b ! 4 = CHR ''-'' \<and> digits_at b [5, 6] \<and> b ! 7 = CHR ''-''
        \<and> digits_at b [8, 9]
        \<and> (length b = 10
           \<or> 16 \<le> length b \<and> (b ! 10 = CHR ''T'' \<or> b ! 10 = CHR '' '')
             \<and> digits_at b [11, 12] \<and> b ! 13 = CHR '':'' \<and> digits_at b [14, 15]))"

definition quote_timestamp_line :: "string \<Rightarrow> string" where
  "quote_timestamp_line line =
     (case split_once_text '': '' line of
        None \<Rightarrow> line
      | Some (head, value) \<Rightarrow>
          (if is_yaml11_timestamp value then head @ '': '' @ quoted value else line))"

definition quote_datelike_scalar :: "string \<Rightarrow> string" where
  "quote_datelike_scalar line =
     (case split_once_text '': '' line of
        None \<Rightarrow> line
      | Some (head, rest) \<Rightarrow>
          (let value = trim_end rest in
           if starts_with quote value \<or> starts_with [CHR 39] value \<or> value = [] then line
           else if 10 \<le> length value \<and> digits_at value [0, 1, 2, 3] \<and> value ! 4 = CHR ''-''
             \<and> digits_at value [5, 6] \<and> value ! 7 = CHR ''-'' \<and> digits_at value [8, 9]
           then head @ '': '' @ quoted value else line))"

subsection \<open>Values\<close>

definition block_scalar :: "string \<Rightarrow> nat \<Rightarrow> string" where
  "block_scalar s indent =
     (let (chomp, body) = (if s \<noteq> [] \<and> last s = CHR 10 then (''|'', butlast s) else (''|-'', s))
      in chomp @ newline @ concat (map (\<lambda>l. spaces indent @ l @ newline) (split_on (CHR 10) body)))"

definition opens_block_scalar :: "string \<Rightarrow> bool" where
  "opens_block_scalar line \<longleftrightarrow>
     (case rsplit_once_text '': '' (trim_end line) of
        None \<Rightarrow> False
      | Some (_, v) \<Rightarrow>
          (case v of
             [] \<Rightarrow> False
           | c # ind \<Rightarrow> (c = CHR ''|'' \<or> c = CHR ''>'')
               \<and> list_all (\<lambda>c. c = CHR ''-'' \<or> c = CHR ''+'' \<or> is_ascii_digit c) ind))"

definition scalar_text :: "(yaml \<Rightarrow> string) \<Rightarrow> yaml \<Rightarrow> string option" where
  "scalar_text to_yaml v =
     (let plain = (let s = trim_end (to_yaml v) in if CHR 10 \<in> set s then None else Some s)
      in case v of
           YString s \<Rightarrow> if is_yaml11_timestamp s then Some (quoted s) else plain
         | _ \<Rightarrow> plain)"

text \<open>One line of a serialised mapping item; the state is the key column of an open block scalar.\<close>

definition item_line :: "string \<Rightarrow> nat option \<times> string \<Rightarrow> string \<Rightarrow> nat option \<times> string" where
  "item_line pad = (\<lambda>(open_at, out) l.
     (let col = length l - length (trim_start l);
          content = (case open_at of None \<Rightarrow> False | Some k \<Rightarrow> trim l = [] \<or> k < col)
      in if content then (open_at, out @ pad @ l @ newline)
         else ((if opens_block_scalar l
                then Some (length l - length (trim_start_matches ''- '' (trim_start l))) else None),
               out @ pad @ quote_timestamp_line l @ newline)))"

definition has_newline :: "string \<Rightarrow> bool" where
  "has_newline s \<longleftrightarrow> CHR 10 \<in> set s"

definition render_list_item :: "(yaml \<Rightarrow> string) \<Rightarrow> yaml \<Rightarrow> nat \<Rightarrow> string" where
  "render_list_item to_yaml item indent =
     (let pad = spaces indent;
          other = (case scalar_text to_yaml item of
                     Some s \<Rightarrow> pad @ ''- '' @ s @ newline
                   | None \<Rightarrow> pad @ ''-'' @ newline
                       @ concat (map (\<lambda>l. spaces (indent + 2) @ l @ newline) (lines (to_yaml item))))
      in case item of
           YMapping _ \<Rightarrow>
             snd (foldl (item_line pad) (None, []) (lines (trim_end_lf (to_yaml (YSequence [item])))))
         | YString s \<Rightarrow>
             (if has_newline s then pad @ ''- '' @ block_scalar s (indent + 4) @ newline else other)
         | _ \<Rightarrow> other)"

definition render_value :: "(yaml \<Rightarrow> string) \<Rightarrow> yaml \<Rightarrow> nat \<Rightarrow> string" where
  "render_value to_yaml v keycol =
     (let other = (case scalar_text to_yaml v of
                     Some s \<Rightarrow> '' '' @ s @ newline
                   | None \<Rightarrow>
                       concat (map (\<lambda>l. newline @ spaces (keycol + 2) @ l) (lines (to_yaml v))) @ newline)
      in case v of
           YString s \<Rightarrow>
             (if has_newline s then '' '' @ block_scalar s (keycol + 2) @ newline else other)
         | YSequence seq \<Rightarrow>
             (if seq \<noteq> [] then concat (map (\<lambda>i. newline @ render_list_item to_yaml i (keycol + 2)) seq)
              else other)
         | _ \<Rightarrow> other)"

definition emit_scalar :: "(yaml \<Rightarrow> string) \<Rightarrow> string \<Rightarrow> nat \<Rightarrow> yaml \<Rightarrow> string" where
  "emit_scalar to_yaml key keycol v =
     spaces keycol @ key @ '':'' @ trim_end_lf (render_value to_yaml v keycol) @ newline"

definition emit_field :: "(yaml \<Rightarrow> string) \<Rightarrow> string \<Rightarrow> nat \<Rightarrow> yaml \<Rightarrow> string" where
  "emit_field to_yaml key keycol v =
     (case v of
        YSequence seq \<Rightarrow>
          (if seq \<noteq> []
           then spaces keycol @ key @ '':'' @ newline
             @ concat (map (\<lambda>i. render_list_item to_yaml i (keycol + 2)) seq)
           else emit_scalar to_yaml key keycol v)
      | _ \<Rightarrow> emit_scalar to_yaml key keycol v)"

definition key_text :: "yaml \<Rightarrow> string" where
  "key_text k = unwrap_or ''<non-string-key>'' (as_str k)"

definition item_head :: "(yaml \<Rightarrow> string) \<Rightarrow> yaml \<times> yaml \<Rightarrow> string" where
  "item_head to_yaml = (\<lambda>(k, v).
     (case scalar_text to_yaml v of
        Some s \<Rightarrow> ''    - '' @ key_text k @ '': '' @ s @ newline
      | None \<Rightarrow> ''    - '' @ key_text k @ '':'' @ trim_end_lf (render_value to_yaml v 6) @ newline))"

text \<open>A folded packet is a mapping; the code panics on anything else.\<close>

definition render_item :: "(yaml \<Rightarrow> string) \<Rightarrow> yaml \<Rightarrow> string" where
  "render_item to_yaml v =
     (case v of
        YMapping (e # m) \<Rightarrow>
          item_head to_yaml e @ concat (map (\<lambda>(k, x). emit_field to_yaml (key_text k) 6 x) m)
      | _ \<Rightarrow> [])"

subsection \<open>Correction fragments\<close>

text \<open>\<open>lww_value_lines\<close>; the serialiser's text of the value, without document marker and margin.\<close>

definition lww_value_lines :: "(yaml \<Rightarrow> string) \<Rightarrow> string \<Rightarrow> string" where
  "lww_value_lines to_yaml value =
     (let ls = lines (trim (trim_start_matches ''--- '' (trim_end (to_yaml (YString value)))));
          head = (case ls of [] \<Rightarrow> [] | h # _ \<Rightarrow> h)
      in quote_timestamp_line (''    value: '' @ head) @ newline
         @ concat (map (\<lambda>l. if l = [] then newline else ''    '' @ l @ newline) (tl ls)))"

definition fragment_header :: string where
  "fragment_header =
     ''# Ledger fragment '' @ [CHR 0xE2, CHR 0x80, CHR 0x94] @ '' append-only, IMMUTABLE once written.'' @ newline
     @ ''# Written by: tillandsias-plan set-field (order 636-9m79).'' @ newline
     @ ''#'' @ newline
     @ ''# The LWW channel below is named `status:` for historical reasons but'' @ newline
     @ ''# corrects ANY field (642-fedr). Re-declaring the packet under'' @ newline
     @ ''# `packets:` would be a G-Set no-op and would silently do nothing.'' @ newline"

definition event_lines :: "string \<Rightarrow> string \<Rightarrow> string \<Rightarrow> string \<times> string \<Rightarrow> string" where
  "event_lines pid ts host = (\<lambda>(etype, summary).
     ''  - packet_id: '' @ pid @ newline
     @ ''    event:'' @ newline
     @ ''      type: '' @ etype @ newline
     @ ''      ts: '' @ quoted ts @ newline
     @ ''      host: '' @ host @ newline
     @ ''      summary: '' @ block_scalar summary 8)"

definition set_field_fragment_body ::
  "(yaml \<Rightarrow> string) \<Rightarrow> string \<Rightarrow> string \<Rightarrow> string \<Rightarrow> string \<Rightarrow> string \<Rightarrow> (string \<times> string) list \<Rightarrow> string" where
  "set_field_fragment_body to_yaml pid field value ts host event_blocks =
     fragment_header @ ''status:'' @ newline
     @ ''  - packet_id: '' @ pid @ newline
     @ ''    field: '' @ field @ newline
     @ lww_value_lines to_yaml value
     @ ''    ts: '' @ quoted ts @ newline
     @ ''    host: '' @ host @ newline
     @ (if event_blocks = [] then []
        else newline @ ''events:'' @ newline @ concat (map (event_lines pid ts host) event_blocks))"

text \<open>\<open>s.split_inclusive('\n')\<close>: the lines with their terminators.\<close>

definition split_inclusive :: "string \<Rightarrow> string list" where
  "split_inclusive s =
     (let ps = split_on (CHR 10) s
      in map (\<lambda>p. p @ newline) (butlast ps) @ (if last ps = [] then [] else [last ps]))"

text \<open>The loop that inserts \<open>added\<close> after the first host line that follows the status key.\<close>

fun insert_after_host :: "string \<Rightarrow> bool \<Rightarrow> bool \<Rightarrow> string list \<Rightarrow> string" where
  "insert_after_host added in_status found [] = []"
| "insert_after_host added in_status found (l # ls) =
     l @ (if starts_with ''status:'' l then insert_after_host added True found ls
          else if in_status \<and> \<not> found \<and> starts_with ''    host: '' l
          then added @ insert_after_host added in_status True ls
          else insert_after_host added in_status found ls)"

definition with_claim_story :: "string \<Rightarrow> string \<Rightarrow> string" where
  "with_claim_story body story =
     insert_after_host (''    story: '' @ story @ newline) False False (split_inclusive body)"

definition with_replace_acknowledgement :: "string \<Rightarrow> string \<Rightarrow> string" where
  "with_replace_acknowledgement body sha256 =
     (if sha256 = [] then body
      else insert_after_host (''    replaces_sha256: '' @ quoted sha256 @ newline) False False
             (split_inclusive body))"

datatype verify_error =
  ReadBackFailed | DoesNotParse string | ValueMismatch string | NotAString yaml | NoStatusRow

text \<open>\<open>contents\<close> is what reading the written file back returned.\<close>

definition verify_written_lww ::
  "(string \<Rightarrow> string + yaml) \<Rightarrow> string option \<Rightarrow> string \<Rightarrow> string \<Rightarrow> string \<Rightarrow> verify_error + unit" where
  "verify_written_lww parse_yaml contents pid field expected =
     (case contents of
        None \<Rightarrow> Inl ReadBackFailed
      | Some raw \<Rightarrow>
          (case parse_yaml raw of
             Inl e \<Rightarrow> Inl (DoesNotParse e)
           | Inr doc \<Rightarrow>
               (case Option.bind
                       (find (\<lambda>r. get_str r ''packet_id'' = Some pid \<and> get_str r ''field'' = Some field)
                         (lww_entries doc))
                       (\<lambda>r. yget r ''value'') of
                  Some (YString s) \<Rightarrow> if s = expected then Inr () else Inl (ValueMismatch s)
                | Some other \<Rightarrow> Inl (NotAString other)
                | None \<Rightarrow> Inl NoStatusRow)))"

definition verify_written_parses :: "(string \<Rightarrow> string + yaml) \<Rightarrow> string option \<Rightarrow> verify_error + unit" where
  "verify_written_parses parse_yaml contents =
     (case contents of
        None \<Rightarrow> Inl ReadBackFailed
      | Some raw \<Rightarrow> (case parse_yaml raw of Inl e \<Rightarrow> Inl (DoesNotParse e) | Inr _ \<Rightarrow> Inr ()))"

end
