(* ===== verification/Capability.thy ===== *)
theory Capability
  imports Fragments
begin

text \<open>
  The capability matrix of the fleet (\<open>crates/tillandsias-plan/src/fragments.rs\<close>): the fold of the
  \<open>capabilities:\<close> channel, the comparability of measurements, the grouping of hosts by hardware and
  the triples a scheduler may use. A row is keyed by the machine and by the context that observed it;
  a reason for a skipped row is a constructor instead of its message.
\<close>

subsection \<open>Non-empty strings\<close>

text \<open>\<open>.and_then(Value::as_str).filter(|s| !s.is_empty())\<close>.\<close>

definition nonempty_str :: "yaml option \<Rightarrow> string option" where
  "nonempty_str v =
     (case Option.bind v as_str of Some s \<Rightarrow> if s = [] then None else Some s | None \<Rightarrow> None)"

lemma nonempty_str_Some [simp]: "nonempty_str v = Some s \<longleftrightarrow> v = Some (YString s) \<and> s \<noteq> []"
  by (auto simp: nonempty_str_def split: option.splits bind_splits if_splits)

subsection \<open>The fold\<close>

record capability_entry =
  ce_host_id :: string
  ce_locus :: string
  ce_ts :: string
  ce_host :: string
  ce_document :: yaml
  ce_source :: string

datatype skip_reason = RowWithoutDocument | DocumentWithoutHostId | RowWithoutLocus string

record skipped_row =
  sk_source :: string
  sk_reason :: skip_reason

type_synonym matrix = "(string \<times> string, capability_entry) btmap"

text \<open>The guards of the loop body: a row that can be keyed, or the reason why not.\<close>

definition read_row :: "string \<Rightarrow> yaml \<Rightarrow> skip_reason + capability_entry" where
  "read_row source row =
     (case yget row ''document'' of
        None \<Rightarrow> Inl RowWithoutDocument
      | Some document \<Rightarrow>
          (case nonempty_str (Option.bind (yget document ''host'') (\<lambda>h. yget h ''host_id'')) of
             None \<Rightarrow> Inl DocumentWithoutHostId
           | Some host_id \<Rightarrow>
               (case nonempty_str (yget row ''locus'') of
                  None \<Rightarrow> Inl (RowWithoutLocus host_id)
                | Some locus \<Rightarrow>
                    Inr \<lparr>ce_host_id = host_id, ce_locus = locus,
                         ce_ts = unwrap_or [] (get_str row ''ts''),
                         ce_host = unwrap_or [] (get_str row ''host''),
                         ce_document = document, ce_source = source\<rparr>)))"

definition entry_stamp :: "capability_entry \<Rightarrow> string \<times> string" where
  "entry_stamp e = (ce_ts e, ce_host e)"

definition entry_key :: "capability_entry \<Rightarrow> string \<times> string" where
  "entry_key e = (ce_host_id e, ce_locus e)"

definition entry_better :: "capability_entry \<Rightarrow> capability_entry \<Rightarrow> bool" where
  "entry_better incoming prev \<longleftrightarrow> entry_stamp prev < entry_stamp incoming"

definition keep_better :: "capability_entry \<Rightarrow> matrix \<Rightarrow> matrix" where
  "keep_better incoming m =
     (let better = (case map_of m (entry_key incoming) of
                      None \<Rightarrow> True
                    | Some prev \<Rightarrow> entry_better incoming prev)
      in if better then bt_insert (entry_key incoming) incoming m else m)"

definition fold_capability_row ::
  "string \<Rightarrow> matrix \<times> skipped_row list \<Rightarrow> yaml \<Rightarrow> matrix \<times> skipped_row list" where
  "fold_capability_row source = (\<lambda>(m, skipped) row.
     (case read_row source row of
        Inl reason \<Rightarrow> (m, skipped @ [\<lparr>sk_source = source, sk_reason = reason\<rparr>])
      | Inr incoming \<Rightarrow> (keep_better incoming m, skipped)))"

definition fold_capabilities :: "fragment list \<Rightarrow> matrix \<times> skipped_row list" where
  "fold_capabilities fragments =
     foldl (\<lambda>acc frag. foldl (fold_capability_row (frag_name frag)) acc
              (seq_or_empty (frag_doc frag) ''capabilities''))
       ([], []) fragments"

definition fold_capabilities_with_base :: "yaml \<Rightarrow> fragment list \<Rightarrow> matrix \<times> skipped_row list" where
  "fold_capabilities_with_base base fragments =
     fold_capabilities
       ((if yget base ''capabilities'' \<noteq> None
         then [\<lparr>frag_name = ''0000-base'', frag_path = ''plan/index.yaml'', frag_doc = base,
                frag_raw = []\<rparr>] else [])
        @ fragments)"

text \<open>The row that compaction writes for an entry.\<close>

definition matrix_row :: "capability_entry \<Rightarrow> yaml" where
  "matrix_row e =
     YMapping [(YString ''ts'', YString (ce_ts e)), (YString ''host'', YString (ce_host e)),
       (YString ''locus'', YString (ce_locus e)), (YString ''document'', ce_document e)]"

subsection \<open>Comparability\<close>

datatype comparability =
  Comparable
| RefusedUnlocated
| RefusedDifferentLoci string string
| RefusedDifferentWorkloads string string

definition is_comparable :: "comparability \<Rightarrow> bool" where
  "is_comparable c \<longleftrightarrow> c = Comparable"

fun comparability_reason :: "comparability \<Rightarrow> string" where
  "comparability_reason Comparable = ''comparable''"
| "comparability_reason RefusedUnlocated = ''refused: a measurement without a locus cannot be placed''"
| "comparability_reason (RefusedDifferentLoci a b) =
     ''refused: different loci ('' @ a @ '' vs '' @ b @ '')''"
| "comparability_reason (RefusedDifferentWorkloads a b) =
     ''refused: different workloads ('' @ a @ '' vs '' @ b @ '')''"

definition measurements_comparable :: "yaml \<Rightarrow> yaml \<Rightarrow> comparability" where
  "measurements_comparable a b =
     (let field = (\<lambda>v k. nonempty_str (yget v k)) in
      case (field a ''locus'', field b ''locus'') of
        (Some la, Some lb) \<Rightarrow>
          (if la \<noteq> lb then RefusedDifferentLoci la lb
           else (case (field a ''workload_suite'', field b ''workload_suite'') of
                   (Some wa, Some wb) \<Rightarrow>
                     (if wa \<noteq> wb then RefusedDifferentWorkloads wa wb else Comparable)
                 | (Some wa, None) \<Rightarrow> RefusedDifferentWorkloads wa ''unstated''
                 | (None, Some wb) \<Rightarrow> RefusedDifferentWorkloads ''unstated'' wb
                 | (None, None) \<Rightarrow> Comparable))
      | _ \<Rightarrow> RefusedUnlocated)"

text \<open>The refused measurements carry one fixed reason, left out here.\<close>

definition partition_measurements :: "yaml \<Rightarrow> yaml list \<times> yaml list" where
  "partition_measurements document =
     (case get_sequence document ''measurements'' of
        None \<Rightarrow> ([], [])
      | Some ms \<Rightarrow> partition (\<lambda>m. nonempty_str (yget m ''locus'') \<noteq> None) ms)"

subsection \<open>Hardware groups\<close>

record hardware_group =
  hg_fingerprint :: string
  hg_observations :: "(string \<times> string) list"

text \<open>\<open>sort_unstable\<close> and \<open>dedup\<close>: the number of distinct loci.\<close>

definition isolates_substrate :: "hardware_group \<Rightarrow> bool" where
  "isolates_substrate g \<longleftrightarrow> 1 < length (remdups_adj (sort (map fst (hg_observations g))))"

definition fingerprint_of :: "capability_entry \<Rightarrow> string option" where
  "fingerprint_of e = nonempty_str (yget (ce_document e) ''hardware_fingerprint'')"

definition observation :: "capability_entry \<Rightarrow> string \<times> string" where
  "observation e = (ce_locus e, ce_host_id e)"

definition group_entry ::
  "(string, (string \<times> string) list) btmap \<times> (string \<times> string) list \<Rightarrow> capability_entry
    \<Rightarrow> (string, (string \<times> string) list) btmap \<times> (string \<times> string) list" where
  "group_entry = (\<lambda>(groups, unidentified) e.
     (case fingerprint_of e of
        Some fp \<Rightarrow>
          (bt_insert fp (unwrap_or [] (map_of groups fp) @ [observation e]) groups, unidentified)
      | None \<Rightarrow> (groups, unidentified @ [observation e])))"

definition group_by_hardware :: "matrix \<Rightarrow> hardware_group list \<times> (string \<times> string) list" where
  "group_by_hardware m =
     (let (groups, unidentified) = foldl group_entry ([], []) (map snd m)
      in (map (\<lambda>(fp, obs). \<lparr>hg_fingerprint = fp, hg_observations = sort obs\<rparr>) groups,
          sort unidentified))"

subsection \<open>Schedulable triples\<close>

definition strings_of :: "yaml list \<Rightarrow> string list" where
  "strings_of ys = List.map_filter as_str ys"

text \<open>An engine: its name, its device classes and the lanes it is limited to, if any.\<close>

type_synonym engine = "string \<times> string list \<times> string list option"

definition engine_view :: "yaml \<Rightarrow> engine option" where
  "engine_view e =
     map_option (\<lambda>name.
         (name, unwrap_or [] (map_option strings_of (get_sequence e ''supported_device_classes'')),
          map_option strings_of (get_sequence e ''lanes'')))
       (get_str e ''name'')"

definition engines_of :: "yaml \<Rightarrow> engine list" where
  "engines_of document =
     unwrap_or [] (map_option (List.map_filter engine_view) (get_sequence document ''engines''))"

definition lane_ok :: "string \<Rightarrow> string list option \<Rightarrow> bool" where
  "lane_ok lane limits = (case limits of None \<Rightarrow> True | Some els \<Rightarrow> lane \<in> set els)"

fun as_bool :: "yaml \<Rightarrow> bool option" where
  "as_bool (YBool b) = Some b"
| "as_bool _ = None"

definition device_triples :: "engine list \<Rightarrow> yaml \<Rightarrow> (string \<times> string \<times> string) list" where
  "device_triples engines d =
     (if Option.bind (yget d ''usable'') as_bool \<noteq> Some True then []
      else (case (get_str d ''device_class'', get_sequence d ''lanes'') of
              (Some cls, Some lanes) \<Rightarrow>
                concat (map (\<lambda>lane.
                    map (\<lambda>(engine, _). (cls, lane, engine))
                      (filter (\<lambda>(_, classes, limits). lane_ok lane limits \<and> cls \<in> set classes)
                        engines))
                  (strings_of lanes))
            | _ \<Rightarrow> []))"

definition schedulable_triples :: "yaml \<Rightarrow> (string \<times> string \<times> string) list" where
  "schedulable_triples document =
     (case get_sequence document ''devices'' of
        None \<Rightarrow> []
      | Some devices \<Rightarrow>
          remdups_adj (sort (concat (map (device_triples (engines_of document)) devices))))"

end
