(* ===== verification/Compaction.thy ===== *)
theory Compaction
  imports Render Capability
begin

text \<open>
  Text-level compaction (\<open>compact_text\<close>, \<open>apply_lww\<close> and \<open>drift\<close> of
  \<open>crates/tillandsias-plan/src/fragments.rs\<close>): the delta between the base and its fold is rendered
  as edits of the base text. Reading files is left to arguments; the YAML parser and serialiser are
  the arguments \<open>parse_yaml\<close> and \<open>to_yaml\<close>.
\<close>

datatype compact_error =
  BaseNotRead
| BaseDoesNotParse string
| NoPacketItem
| LastItemNotPacket
| EventNotPushed edit_error
| LwwTargetNotFound string
| CandidateDoesNotParse string

text \<open>Equality of values: mappings are equal whatever the order of their entries.\<close>

lemma size_zip_left [termination_simp]: "(a, b) \<in> set (zip s s') \<Longrightarrow> size a < Suc (size_list size s)"
  by (drule set_zip_leftD) (simp add: size_yaml_sequence)

fun yaml_eq :: "yaml \<Rightarrow> yaml \<Rightarrow> bool" where
  "yaml_eq (YMapping m) (YMapping m') \<longleftrightarrow>
     length m = length m'
     \<and> list_all (\<lambda>(k, v). case map_of m' k of None \<Rightarrow> False | Some v' \<Rightarrow> yaml_eq v v') m"
| "yaml_eq (YSequence s) (YSequence s') \<longleftrightarrow>
     length s = length s' \<and> list_all (\<lambda>(v, v'). yaml_eq v v') (zip s s')"
| "yaml_eq v v' \<longleftrightarrow> v = v'"

subsection \<open>The delta\<close>

text \<open>What the walk over the base collects: packet ids and event identities.\<close>

definition packets_with_id :: "yaml \<Rightarrow> (string \<times> yaml) list" where
  "packets_with_id doc =
     List.map_filter (\<lambda>p. map_option (\<lambda>i. (i, p)) (get_str p ''packet_id'')) (collect_packets doc)"

definition base_ids :: "yaml \<Rightarrow> string set" where
  "base_ids base = set (map fst (packets_with_id base))"

definition base_events :: "yaml \<Rightarrow> string set" where
  "base_events base =
     set (concat (map (\<lambda>(i, p). map (event_identity i) (packet_events p)) (packets_with_id base)))"

definition new_packets :: "yaml \<Rightarrow> yaml \<Rightarrow> yaml list" where
  "new_packets base merged =
     map snd (filter (\<lambda>(i, _). i \<notin> base_ids base) (packets_with_id merged))"

definition add_new_event ::
  "string \<Rightarrow> string set \<times> (string \<times> yaml) list \<Rightarrow> yaml \<Rightarrow> string set \<times> (string \<times> yaml) list" where
  "add_new_event i = (\<lambda>(seen, out) e.
     (if event_identity i e \<in> seen then (seen, out)
      else (insert (event_identity i e) seen, out @ [(i, e)])))"

definition new_events :: "yaml \<Rightarrow> yaml \<Rightarrow> (string \<times> yaml) list" where
  "new_events base merged =
     snd (foldl (\<lambda>acc (i, p). if i \<in> base_ids base then foldl (add_new_event i) acc (packet_events p) else acc)
       (base_events base, []) (packets_with_id merged))"

definition base_value :: "yaml \<Rightarrow> string \<Rightarrow> string \<Rightarrow> yaml option" where
  "base_value doc pid field =
     Option.bind (find (\<lambda>p. get_str p ''packet_id'' = Some pid) (collect_packets doc))
       (\<lambda>p. yget p field)"

subsection \<open>The registers\<close>

type_synonym discarded = "string \<times> string \<times> string \<times> string"

record compact_acc =
  ca_lww :: "(string, string \<times> string \<times> yaml) btmap"
  ca_discarded :: "discarded list"

definition compact_better ::
  "yaml \<Rightarrow> bool \<Rightarrow> string \<Rightarrow> string \<Rightarrow> (string \<times> string \<times> yaml) option \<Rightarrow> string \<Rightarrow> string \<Rightarrow> yaml \<Rightarrow> bool" where
  "compact_better base falsifies pid field current ts host value =
     (case current of
        None \<Rightarrow>
          (if field = ''status'' then
             (case Option.bind (base_value base pid field) as_str of
                None \<Rightarrow> True
              | Some prev \<Rightarrow> status_entry_wins (as_str value) ts host falsifies (Some prev) [] [])
           else True)
      | Some (prev_ts, prev_host, prev_val) \<Rightarrow>
          (if field = ''status'' then
             status_entry_wins (as_str value) ts host falsifies (as_str prev_val) prev_ts prev_host
           else (prev_ts, prev_host) < (ts, host)))"

text \<open>The value that stands after a write lost.\<close>

definition retained_value ::
  "yaml \<Rightarrow> string \<Rightarrow> string \<Rightarrow> (string \<times> string \<times> yaml) option \<Rightarrow> string" where
  "retained_value base pid field current =
     (case current of
        Some (_, _, v) \<Rightarrow> unwrap_or [] (as_str v)
      | None \<Rightarrow> unwrap_or [] (Option.bind (base_value base pid field) as_str))"

definition compact_write :: "yaml \<Rightarrow> fragment \<Rightarrow> compact_acc \<Rightarrow> yaml \<Rightarrow> compact_acc" where
  "compact_write base frag acc u =
     (case (get_str u ''packet_id'', get_str u ''field'', yget u ''value'') of
        (Some pid, Some field, Some value) \<Rightarrow>
          (let ts = unwrap_or [] (get_str u ''ts'');
               host = unwrap_or [] (get_str u ''host'');
               key = lww_key pid field;
               current = map_of (ca_lww acc) key
           in if compact_better base (fragment_falsifies frag pid) pid field current ts host value
              then acc\<lparr>ca_lww := bt_insert key (ts, host, value) (ca_lww acc)\<rparr>
              else if field = ''status'' then
                (let retained = retained_value base pid field current;
                     incoming = unwrap_or [] (as_str value)
                 in if incoming \<noteq> [] \<and> incoming \<noteq> retained
                    then acc\<lparr>ca_discarded := ca_discarded acc @ [(pid, incoming, retained, host)]\<rparr>
                    else acc)
              else acc)
      | _ \<Rightarrow> acc)"

definition compact_replace :: "compact_acc \<Rightarrow> list_replace \<Rightarrow> compact_acc" where
  "compact_replace acc r =
     (let key = lww_key (lr_packet_id r) (lr_field r);
          better = (case map_of (ca_lww acc) key of
                      None \<Rightarrow> True
                    | Some (prev_ts, prev_host, _) \<Rightarrow> (prev_ts, prev_host) < (lr_ts r, lr_host r))
      in if better
         then acc\<lparr>ca_lww := bt_insert key (lr_ts r, lr_host r, lr_items r) (ca_lww acc)\<rparr>
         else acc)"

definition compact_fragment :: "yaml \<Rightarrow> compact_acc \<Rightarrow> fragment \<Rightarrow> compact_acc" where
  "compact_fragment base acc frag =
     foldl compact_replace
       (foldl (compact_write base frag) acc (lww_entries (frag_doc frag)))
       (list_replace_entries (frag_doc frag))"

definition compact_registers :: "yaml \<Rightarrow> fragment list \<Rightarrow> compact_acc" where
  "compact_registers base frags =
     foldl (compact_fragment base) \<lparr>ca_lww = [], ca_discarded = []\<rparr> frags"

type_synonym win = "string \<times> string \<times> yaml \<times> string"

definition lww_wins :: "yaml \<Rightarrow> yaml \<Rightarrow> (string, string \<times> string \<times> yaml) btmap \<Rightarrow> win list" where
  "lww_wins base merged lww =
     List.map_filter (\<lambda>(key, (ts, _, value)).
         (case win_key key of
            None \<Rightarrow> None
          | Some (pid, field) \<Rightarrow>
              (if pid \<in> set (map fst (packets_with_id merged)) \<and> pid \<in> base_ids base
                 \<and> \<not> (case base_value base pid field of None \<Rightarrow> False | Some v \<Rightarrow> yaml_eq v value)
               then Some (pid, field, value, ts) else None)))
       lww"

subsection \<open>Rendering the delta\<close>

definition drop_blank_tail :: "string list \<Rightarrow> string list" where
  "drop_blank_tail ls = rev (dropWhile is_blank (rev ls))"

definition opens_packet :: "string \<Rightarrow> bool" where
  "opens_packet l \<longleftrightarrow> starts_with ''packet_id:'' (trim l) \<or> starts_with ''- packet_id:'' (trim l)"

definition append_items :: "(yaml \<Rightarrow> string) \<Rightarrow> yaml list \<Rightarrow> string list \<Rightarrow> compact_error + string list" where
  "append_items to_yaml ps ls =
     (if ps = [] then Inr ls
      else if \<not> list_ex is_item ls then Inl NoPacketItem
      else if \<not> list_ex opens_packet (drop (last (item_starts ls)) ls) then Inl LastItemNotPacket
      else Inr (ls @ map (render_item to_yaml) ps))"

definition renormalise :: "string list \<Rightarrow> string" where
  "renormalise out = text_of (drop_blank_tail (lines (join newline out)))"

definition field_end :: "string list \<Rightarrow> nat \<Rightarrow> nat \<Rightarrow> nat" where
  "field_end ls li e =
     (case find (\<lambda>i. \<not> is_blank (ls ! i) \<and> length (takeWhile (\<lambda>c. c = CHR 32) (ls ! i)) \<le> 6) [Suc li..<e] of
        Some i \<Rightarrow> i
      | None \<Rightarrow> e)"

definition apply_lww ::
  "(yaml \<Rightarrow> string) \<Rightarrow> string list \<Rightarrow> string \<Rightarrow> string \<Rightarrow> yaml \<Rightarrow> compact_error + string list" where
  "apply_lww to_yaml ls pid field value =
     (case item_span (join newline ls) pid of
        None \<Rightarrow> Inl (LwwTargetNotFound pid)
      | Some (s, e) \<Rightarrow>
          (let rendered = lines (emit_field to_yaml field 6 value) in
           case find (\<lambda>i. starts_with (''      '' @ field @ '':'') (ls ! i)) [s..<e] of
             Some li \<Rightarrow> Inr (take li ls @ rendered @ drop (field_end ls li e) ls)
           | None \<Rightarrow> Inr (insert_lines (Suc s) rendered ls)))"

definition apply_win :: "(yaml \<Rightarrow> string) \<Rightarrow> string list \<Rightarrow> win \<Rightarrow> compact_error + string list" where
  "apply_win to_yaml ls = (\<lambda>(pid, field, value, ts).
     (case apply_lww to_yaml ls pid field value of
        Inl e \<Rightarrow> Inl e
      | Inr ls' \<Rightarrow>
          (if field = ''next_action'' \<and> ts \<noteq> []
           then apply_lww to_yaml ls' pid ''next_action_ts'' (YString ts) else Inr ls')))"

fun apply_wins :: "(yaml \<Rightarrow> string) \<Rightarrow> string list \<Rightarrow> win list \<Rightarrow> compact_error + string list" where
  "apply_wins to_yaml ls [] = Inr ls"
| "apply_wins to_yaml ls (w # ws) =
     (case apply_win to_yaml ls w of Inl e \<Rightarrow> Inl e | Inr ls' \<Rightarrow> apply_wins to_yaml ls' ws)"

subsection \<open>The capability channel\<close>

definition capability_text :: "(yaml \<Rightarrow> string) \<Rightarrow> matrix \<Rightarrow> string" where
  "capability_text to_yaml m =
     ''capabilities:'' @ newline
     @ concat (map (\<lambda>l. ''  '' @ quote_datelike_scalar l @ newline)
         (filter (\<lambda>l. \<not> is_blank l) (lines (to_yaml (YSequence (map (\<lambda>(_, e). matrix_row e) m))))))"

text \<open>The lines outside the top-level block of the channel.\<close>

fun outside_block :: "bool \<Rightarrow> string list \<Rightarrow> string list" where
  "outside_block in_block [] = []"
| "outside_block in_block (l # ls) =
     (if l = ''capabilities:'' then outside_block True ls
      else if in_block \<and> (starts_with '' '' l \<or> is_blank l) then outside_block True ls
      else l # outside_block False ls)"

definition put_capabilities :: "(yaml \<Rightarrow> string) \<Rightarrow> matrix \<Rightarrow> string \<Rightarrow> string" where
  "put_capabilities to_yaml m candidate =
     (if m = [] then candidate
      else trim_end (capability_text to_yaml m) @ newline
        @ join newline (drop_blank_tail (outside_block False (lines candidate))) @ newline)"

subsection \<open>Compaction\<close>

record compaction_text =
  ct_candidate :: string
  ct_consumed :: "string list"
  ct_refused :: "(string \<times> gap list) list"
  ct_discarded :: "discarded list"

text \<open>The edits of the text, up to the candidate; then the verdict on each fragment, over the
  candidate read back.\<close>

definition edited_text :: "(yaml \<Rightarrow> string) \<Rightarrow> string \<Rightarrow> yaml \<Rightarrow> fragment list \<Rightarrow> compact_error + string" where
  "edited_text to_yaml raw base fragments =
     (let merged = fold_ledger base fragments;
          wins = lww_wins base merged (ca_lww (compact_registers base fragments));
          blocks = map (\<lambda>(i, e). (i, render_list_item to_yaml e 8)) (new_events base merged)
      in case append_items to_yaml (new_packets base merged) (drop_blank_tail (lines raw)) of
           Inl err \<Rightarrow> Inl err
         | Inr out \<Rightarrow>
             (case push_events (renormalise out) blocks of
                Inl err \<Rightarrow> Inl (EventNotPushed err)
              | Inr pushed \<Rightarrow> map_sum id text_of (apply_wins to_yaml (lines pushed) wins)))"

definition render_delta ::
  "(string \<Rightarrow> string + yaml) \<Rightarrow> (yaml \<Rightarrow> string) \<Rightarrow> string \<Rightarrow> yaml \<Rightarrow> fragment list \<Rightarrow> compact_error + string" where
  "render_delta parse_yaml to_yaml raw base fragments =
     (case edited_text to_yaml raw base fragments of
        Inl err \<Rightarrow> Inl err
      | Inr candidate \<Rightarrow>
          (let base_doc = (case parse_yaml candidate of Inl _ \<Rightarrow> YNull | Inr d \<Rightarrow> d)
           in Inr (put_capabilities to_yaml
                     (fst (fold_capabilities_with_base base_doc fragments)) candidate)))"

definition fragment_verdicts :: "yaml \<Rightarrow> fragment list \<Rightarrow> string list \<times> (string \<times> gap list) list" where
  "fragment_verdicts written fragments =
     (let known = folded_identities_of written;
          gaps = fragment_coverage_gaps_in written known
      in (map frag_path (filter (\<lambda>f. gaps f = []) fragments),
          map (\<lambda>f. (frag_path f, gaps f)) (filter (\<lambda>f. gaps f \<noteq> []) fragments)))"

definition compact_text ::
  "(string \<Rightarrow> string + yaml) \<Rightarrow> (yaml \<Rightarrow> string) \<Rightarrow> string option \<Rightarrow> fragment_file list
    \<Rightarrow> compact_error + compaction_text" where
  "compact_text parse_yaml to_yaml contents files =
     (case contents of
        None \<Rightarrow> Inl BaseNotRead
      | Some raw \<Rightarrow>
          (case parse_yaml raw of
             Inl e \<Rightarrow> Inl (BaseDoesNotParse e)
           | Inr base \<Rightarrow>
               (let fragments = load_all parse_yaml files in
                if fragments = [] then
                  Inr \<lparr>ct_candidate = raw, ct_consumed = [], ct_refused = [], ct_discarded = []\<rparr>
                else
                  (case render_delta parse_yaml to_yaml raw base fragments of
                     Inl err \<Rightarrow> Inl err
                   | Inr candidate \<Rightarrow>
                       (case parse_yaml candidate of
                          Inl e \<Rightarrow> Inl (CandidateDoesNotParse e)
                        | Inr written \<Rightarrow>
                            (let (consumed, refused) = fragment_verdicts written fragments
                             in Inr \<lparr>ct_candidate = candidate, ct_consumed = consumed, ct_refused = refused,
                                     ct_discarded = ca_discarded (compact_registers base fragments)\<rparr>))))))"

subsection \<open>Drift\<close>

record drift =
  dr_fragment_count :: nat
  dr_total_bytes :: nat
  dr_malformed_count :: nat

definition drift_eligible :: "drift \<Rightarrow> bool" where
  "drift_eligible d \<longleftrightarrow>
     25 \<le> dr_fragment_count d \<or> 256 * 1024 \<le> dr_total_bytes d \<or> 0 < dr_malformed_count d"

definition show_bool :: "bool \<Rightarrow> string" where
  "show_bool b = (if b then ''true'' else ''false'')"

definition drift_reason :: "drift \<Rightarrow> string" where
  "drift_reason d =
     (if 0 < dr_malformed_count d then ''malformed-fragments''
      else if 25 \<le> dr_fragment_count d then ''fragment-count''
      else if 256 * 1024 \<le> dr_total_bytes d then ''total-bytes''
      else ''-'')"

definition drift_verdict :: "drift \<Rightarrow> string" where
  "drift_verdict d =
     ''compaction: eligible='' @ show_bool (drift_eligible d)
     @ '' fragments='' @ show_nat (dr_fragment_count d)
     @ '' bytes='' @ show_nat (dr_total_bytes d)
     @ '' malformed='' @ show_nat (dr_malformed_count d)
     @ '' reason='' @ drift_reason d"

text \<open>\<open>file_size\<close> is what the file system says of a path.\<close>

definition measure_drift ::
  "(string \<Rightarrow> string + yaml) \<Rightarrow> (string \<Rightarrow> nat option) \<Rightarrow> fragment_file list \<Rightarrow> drift" where
  "measure_drift parse_yaml file_size files =
     (let fragments = load_all parse_yaml files in
      \<lparr>dr_fragment_count = length fragments,
       dr_total_bytes = sum_list (List.map_filter (\<lambda>f. file_size (frag_path f)) fragments),
       dr_malformed_count = length (malformed parse_yaml files)\<rparr>)"

lemma drift_reason_iff: "drift_eligible d \<longleftrightarrow> drift_reason d \<noteq> ''-''"
  by (auto simp: drift_eligible_def drift_reason_def)

end
