(* ===== verification/Capability_Props.thy ===== *)
theory Capability_Props
  imports Capability "HOL-Library.Multiset"
begin

text \<open>
  What the capability matrix promises: each key holds its latest row, no row is lost in silence,
  comparison is an equivalence between located measurements, a group holds exactly the hosts with
  its fingerprint, and only usable devices can be scheduled.
\<close>

subsection \<open>The matrix\<close>

text \<open>What the fold reads, in order: each row with the name of its fragment.\<close>

definition capability_rows :: "fragment list \<Rightarrow> (string \<times> yaml) list" where
  "capability_rows frags =
     concat (map (\<lambda>f. map (Pair (frag_name f)) (seq_or_empty (frag_doc f) ''capabilities'')) frags)"

fun keyed_row :: "string \<times> yaml \<Rightarrow> capability_entry option" where
  "keyed_row (source, row) = (case read_row source row of Inl _ \<Rightarrow> None | Inr e \<Rightarrow> Some e)"

fun skipped_of :: "string \<times> yaml \<Rightarrow> skipped_row option" where
  "skipped_of (source, row) =
     (case read_row source row of
        Inl reason \<Rightarrow> Some \<lparr>sk_source = source, sk_reason = reason\<rparr>
      | Inr _ \<Rightarrow> None)"

definition keyed_rows :: "fragment list \<Rightarrow> capability_entry list" where
  "keyed_rows frags = List.map_filter keyed_row (capability_rows frags)"

lemma fold_rows:
  "foldl (\<lambda>acc (source, row). fold_capability_row source acc row) (m, sk) rows
   = (foldl (\<lambda>m e. keep_better e m) m (List.map_filter keyed_row rows),
      sk @ List.map_filter skipped_of rows)"
proof (induction rows arbitrary: m sk)
  case (Cons r rows)
  obtain source row where "r = (source, row)" by fastforce
  with Cons show ?case
    by (simp add: fold_capability_row_def map_filter_simps split: sum.split)
qed (simp add: map_filter_simps)

lemma fold_capabilities_rows:
  "fold_capabilities frags =
     (foldl (\<lambda>m e. keep_better e m) [] (keyed_rows frags),
      List.map_filter skipped_of (capability_rows frags))"
proof -
  have "foldl (\<lambda>acc frag. foldl (fold_capability_row (frag_name frag)) acc
              (seq_or_empty (frag_doc frag) ''capabilities'')) acc frags
     = foldl (\<lambda>acc (source, row). fold_capability_row source acc row) acc (capability_rows frags)" for acc
    by (induction frags arbitrary: acc) (simp_all add: capability_rows_def foldl_map)
  then show ?thesis by (simp add: fold_capabilities_def fold_rows keyed_rows_def)
qed

interpretation row_register: lww_register entry_better entry_stamp
  by unfold_locales (simp add: entry_better_def)

lemma map_of_keep_better:
  "map_of (keep_better e m) k =
     (if entry_key e = k then row_register.take_in (map_of m k) e else map_of m k)"
  by (auto simp: keep_better_def Let_def split: option.split)

lemma map_of_keep_all:
  "map_of (foldl (\<lambda>m e. keep_better e m) m es) k =
     foldl row_register.take_in (map_of m k) (filter (\<lambda>e. entry_key e = k) es)"
  by (induction es arbitrary: m) (simp_all add: map_of_keep_better)

lemma matrix_cell:
  "map_of (fst (fold_capabilities frags)) k =
     row_register.winner (filter (\<lambda>e. entry_key e = k) (keyed_rows frags))"
  by (simp add: fold_capabilities_rows map_of_keep_all row_register.winner_def)

lemma matrix_wf: "bt_wf (fst (fold_capabilities frags))"
proof -
  have "bt_wf m \<Longrightarrow> bt_wf (foldl (\<lambda>m e. keep_better e m) m es)" for es m
    by (induction es arbitrary: m) (auto simp: keep_better_def Let_def)
  then show ?thesis by (simp add: fold_capabilities_rows)
qed

text \<open>
  C19. The fleet matrix: the cell of a machine and a context is a row with the greatest time and
  writer of all rows with that key; there is a cell exactly for the keys that occur; the skipped
  list has every other row with its reason, so no row disappears; and a base that has the channel
  takes part as one more fragment.
\<close>

theorem capability_matrix_latest:
  assumes "all = (if yget base ''capabilities'' \<noteq> None
      then [\<lparr>frag_name = ''0000-base'', frag_path = ''plan/index.yaml'', frag_doc = base, frag_raw = []\<rparr>]
      else []) @ frags"
    and "fold_capabilities_with_base base frags = (m, skipped)"
  shows "(map_of m k = Some e \<longrightarrow>
      e \<in> set (keyed_rows all) \<and> entry_key e = k
      \<and> (\<forall>e' \<in> set (keyed_rows all). entry_key e' = k \<longrightarrow> entry_stamp e' \<le> entry_stamp e))
    \<and> (map_of m k = None \<longleftrightarrow> k \<notin> entry_key ` set (keyed_rows all))
    \<and> length (keyed_rows all) + length skipped = length (capability_rows all)
    \<and> skipped = List.map_filter skipped_of (capability_rows all)"
proof -
  let ?es = "filter (\<lambda>e. entry_key e = k) (keyed_rows all)"
  have fold: "fold_capabilities all = (m, skipped)"
    using assms by (simp add: fold_capabilities_with_base_def)
  then have cell: "map_of m k = row_register.winner ?es" using matrix_cell[of all k] by simp
  have "length (List.map_filter keyed_row rs) + length (List.map_filter skipped_of rs) = length rs" for rs
    by (induction rs) (auto simp: map_filter_simps split: sum.split)
  moreover have "skipped = List.map_filter skipped_of (capability_rows all)"
    using fold by (simp add: fold_capabilities_rows)
  moreover have "?es = [] \<longleftrightarrow> k \<notin> entry_key ` set (keyed_rows all)"
    by (auto simp: filter_empty_conv)
  moreover have "?es = [] \<Longrightarrow> map_of m k = None" by (simp add: cell row_register.winner_def)
  moreover have "?es \<noteq> [] \<Longrightarrow> \<exists>w. map_of m k = Some w \<and> w \<in> set ?es \<and> (\<forall>e \<in> set ?es. entry_stamp e \<le> entry_stamp w)"
    using row_register.winner_max[of ?es] cell by simp
  ultimately show ?thesis by (auto simp: keyed_rows_def)
qed

definition capability_row :: "string \<Rightarrow> string \<Rightarrow> string \<Rightarrow> string \<Rightarrow> yaml \<Rightarrow> yaml" where
  "capability_row host_id locus ts host extra =
     YMapping [(YString ''ts'', YString ts), (YString ''host'', YString host),
       (YString ''locus'', YString locus),
       (YString ''document'', YMapping [(YString ''host'', YMapping [(YString ''host_id'', YString host_id)]),
          (YString ''hardware_fingerprint'', extra)])]"

definition capability_fragment :: "string \<Rightarrow> yaml list \<Rightarrow> fragment" where
  "capability_fragment name rows =
     \<lparr>frag_name = name, frag_path = name, frag_doc = YMapping [(YString ''capabilities'', YSequence rows)],
      frag_raw = []\<rparr>"

theorem capability_matrix_latest_witness:
  "\<exists>m skipped e. fold_capabilities_with_base YNull
       [capability_fragment ''b'' [capability_row ''yoga'' ''in-guest'' ''2'' ''linux'' YNull],
        capability_fragment ''a'' [capability_row ''yoga'' ''in-guest'' ''1'' ''linux'' YNull, YNull]]
     = (m, skipped)
     \<and> map_of m (''yoga'', ''in-guest'') = Some e \<and> entry_stamp e = (''2'', ''linux'') \<and> length skipped = 1"
proof -
  let ?frags = "[capability_fragment ''b'' [capability_row ''yoga'' ''in-guest'' ''2'' ''linux'' YNull],
        capability_fragment ''a'' [capability_row ''yoga'' ''in-guest'' ''1'' ''linux'' YNull, YNull]]"
  let ?all = "(if yget YNull ''capabilities'' \<noteq> None
      then [\<lparr>frag_name = ''0000-base'', frag_path = ''plan/index.yaml'', frag_doc = YNull, frag_raw = []\<rparr>]
      else []) @ ?frags"
  let ?k = "(''yoga'', ''in-guest'')"
  obtain m skipped where fold: "fold_capabilities_with_base YNull ?frags = (m, skipped)" by fastforce
  have keys: "?k \<in> entry_key ` set (keyed_rows ?all)"
    and stamps: "entry_stamp ` set (filter (\<lambda>e. entry_key e = ?k) (keyed_rows ?all)) = {(''1'', ''linux''), (''2'', ''linux'')}"
    and counts: "length (keyed_rows ?all) = 2" "length (capability_rows ?all) = 3" by code_simp+
  note latest = capability_matrix_latest[OF refl fold, of ?k]
  obtain e where e: "map_of m ?k = Some e" using latest keys by (cases "map_of m ?k") auto
  with latest have top: "e \<in> set (keyed_rows ?all)" "entry_key e = ?k"
      "\<forall>e' \<in> set (filter (\<lambda>e. entry_key e = ?k) (keyed_rows ?all)). entry_stamp e' \<le> entry_stamp e" by auto
  then have "entry_stamp e \<in> {(''1'', ''linux''), (''2'', ''linux'')}" by (auto simp: stamps[symmetric])
  moreover have "(''2'', ''linux'') \<le> entry_stamp e"
  proof -
    have "(''2'', ''linux'') \<in> entry_stamp ` set (filter (\<lambda>e. entry_key e = ?k) (keyed_rows ?all))"
      by (simp only: stamps) simp
    with top(3) show ?thesis by auto
  qed
  moreover have "\<not> (''2'', ''linux'') \<le> (''1'', ''linux'')" by code_simp
  ultimately have "entry_stamp e = (''2'', ''linux'')" by auto
  moreover have "length skipped = 1"
  proof -
    from latest have "length (keyed_rows ?all) + length skipped = length (capability_rows ?all)" by blast
    with counts show ?thesis by linarith
  qed
  ultimately show ?thesis using fold e by blast
qed

subsection \<open>The channel in the base\<close>

text \<open>An entry that the row written for it can be read back from.\<close>

definition readable_entry :: "capability_entry \<Rightarrow> bool" where
  "readable_entry e \<longleftrightarrow>
     nonempty_str (Option.bind (yget (ce_document e) ''host'') (\<lambda>h. yget h ''host_id'')) = Some (ce_host_id e)
     \<and> ce_locus e \<noteq> []"

lemma read_row_readable: "read_row source row = Inr e \<Longrightarrow> readable_entry e \<and> ce_source e = source"
  by (auto simp: read_row_def readable_entry_def split: option.splits)

lemma read_matrix_row: "readable_entry e \<Longrightarrow> read_row source (matrix_row e) = Inr (e\<lparr>ce_source := source\<rparr>)"
  by (simp add: read_row_def readable_entry_def matrix_row_def get_str_def nonempty_str_def)

text \<open>A matrix entry with its provenance forgotten.\<close>

definition rehomed :: "string \<Rightarrow> capability_entry \<Rightarrow> capability_entry" where
  "rehomed source e = e\<lparr>ce_source := source\<rparr>"

lemma rehomed_simps [simp]: "entry_key (rehomed s e) = entry_key e" "entry_stamp (rehomed s e) = entry_stamp e"
  by (simp_all add: rehomed_def entry_key_def entry_stamp_def)

lemma take_in_distinct_keys:
  "distinct (map entry_key es) \<Longrightarrow> e \<in> set es \<Longrightarrow> filter (\<lambda>x. entry_key x = entry_key e) es = [e]"
proof (induction es)
  case (Cons x es)
  show ?case
  proof (cases "x = e")
    case True
    with Cons.prems have "filter (\<lambda>y. entry_key y = entry_key e) es = []"
      by (auto simp: filter_empty_conv image_iff)
    with True show ?thesis by simp
  next
    case False
    with Cons show ?thesis by auto
  qed
qed simp

text \<open>Every cell of a folded matrix was read from a row and stands under its own key.\<close>

lemma matrix_cells:
  assumes "(k, e) \<in> set (fst (fold_capabilities frags))"
  shows "entry_key e = k \<and> readable_entry e"
proof -
  have "map_of (fst (fold_capabilities frags)) k = Some e"
    using assms matrix_wf bt_wf_distinct by (blast intro: map_of_is_SomeI)
  then have "row_register.winner (filter (\<lambda>e. entry_key e = k) (keyed_rows frags)) = Some e"
    by (simp add: matrix_cell)
  then have "e \<in> set (keyed_rows frags)" "entry_key e = k"
    using row_register.winner_max[of "filter (\<lambda>e. entry_key e = k) (keyed_rows frags)"]
    by (auto simp: row_register.winner_def split: if_splits)
      (metis foldl_Nil option.distinct(1) option.inject)+
  then show ?thesis
    by (auto simp: keyed_rows_def map_filter_def read_row_readable split: sum.splits)
qed

text \<open>
  Writing the matrix back loses nothing: reading a base whose channel is the rows that compaction
  writes for a matrix gives the same matrix, except that the entries now name the base.
\<close>

theorem capabilities_fold_back:
  assumes "fst (fold_capabilities frags) = m"
    and "get_sequence base ''capabilities'' = Some (map (\<lambda>(_, e). matrix_row e) m)"
  shows "map_of (fst (fold_capabilities_with_base base [])) k
      = map_option (rehomed ''0000-base'') (map_of m k)
    \<and> snd (fold_capabilities_with_base base []) = []"
proof -
  let ?frag = "\<lparr>frag_name = ''0000-base'', frag_path = ''plan/index.yaml'', frag_doc = base, frag_raw = []\<rparr>"
  have cells: "\<forall>(k, e) \<in> set m. entry_key e = k \<and> readable_entry e"
    using assms(1) matrix_cells by blast
  have here: "yget base ''capabilities'' \<noteq> None" using assms(2) by (auto simp: get_sequence_Some)
  then have with_base: "fold_capabilities_with_base base [] = fold_capabilities [?frag]"
    by (simp add: fold_capabilities_with_base_def)
  have rows: "capability_rows [?frag] = map (\<lambda>(k, e). (''0000-base'', matrix_row e)) m"
    using assms(2) by (simp add: capability_rows_def seq_or_empty_def case_prod_unfold)
  have keyed: "keyed_rows [?frag] = map (\<lambda>(k, e). rehomed ''0000-base'' e) m"
    and none: "List.map_filter skipped_of (capability_rows [?frag]) = []"
    using cells unfolding keyed_rows_def rows
    by (induction m) (auto simp: map_filter_simps read_matrix_row rehomed_def)
  have "map entry_key (keyed_rows [?frag]) = map fst m"
    using cells unfolding keyed by (induction m) auto
  then have dist: "distinct (map entry_key (keyed_rows [?frag]))"
    using bt_wf_distinct[OF matrix_wf, of frags] assms(1) by simp
  have "row_register.winner (filter (\<lambda>e. entry_key e = k) (keyed_rows [?frag]))
     = map_option (rehomed ''0000-base'') (map_of m k)"
  proof (cases "map_of m k")
    case None
    then have "k \<notin> entry_key ` set (keyed_rows [?frag])" using cells unfolding keyed
      by (force simp: map_of_eq_None_iff)
    then have "filter (\<lambda>e. entry_key e = k) (keyed_rows [?frag]) = []" by (auto simp: filter_empty_conv)
    with None show ?thesis by (simp add: row_register.winner_def)
  next
    case (Some e)
    then have "(k, e) \<in> set m" by (rule map_of_SomeD)
    with cells keyed have mem: "rehomed ''0000-base'' e \<in> set (keyed_rows [?frag])" and k: "entry_key e = k"
      by force+
    have "filter (\<lambda>x. entry_key x = k) (keyed_rows [?frag]) = [rehomed ''0000-base'' e]"
      using take_in_distinct_keys[OF dist mem] k by simp
    with Some show ?thesis by (simp add: row_register.winner_def)
  qed
  then show ?thesis by (simp add: with_base matrix_cell) (simp add: fold_capabilities_rows none)
qed

subsection \<open>Comparability\<close>

definition located :: "yaml \<Rightarrow> bool" where
  "located m \<longleftrightarrow> nonempty_str (yget m ''locus'') \<noteq> None"

text \<open>
  Measurements may be ranked exactly when both name a locus, the same one, and state the same
  workload suite or both none; so comparability is symmetric and transitive, and reflexive on the
  measurements that the matrix accepts and on no other.
\<close>

theorem comparable_iff:
  "(is_comparable (measurements_comparable a b) \<longleftrightarrow>
     located a \<and> nonempty_str (yget a ''locus'') = nonempty_str (yget b ''locus'')
     \<and> nonempty_str (yget a ''workload_suite'') = nonempty_str (yget b ''workload_suite''))
   \<and> (is_comparable (measurements_comparable a a) \<longleftrightarrow> a \<in> set (fst (partition_measurements
        (YMapping [(YString ''measurements'', YSequence [a])]))))"
proof (rule conjI)
  show "is_comparable (measurements_comparable a b) \<longleftrightarrow>
     located a \<and> nonempty_str (yget a ''locus'') = nonempty_str (yget b ''locus'')
     \<and> nonempty_str (yget a ''workload_suite'') = nonempty_str (yget b ''workload_suite'')"
    unfolding is_comparable_def measurements_comparable_def located_def Let_def
    by (cases "nonempty_str (yget a ''locus'')"; cases "nonempty_str (yget b ''locus'')";
        cases "nonempty_str (yget a ''workload_suite'')"; cases "nonempty_str (yget b ''workload_suite'')")
      (simp_all del: nonempty_str_Some)
  show "is_comparable (measurements_comparable a a) \<longleftrightarrow> a \<in> set (fst (partition_measurements
        (YMapping [(YString ''measurements'', YSequence [a])])))"
    unfolding is_comparable_def measurements_comparable_def partition_measurements_def get_sequence_def Let_def
    by (cases "nonempty_str (yget a ''locus'')"; cases "nonempty_str (yget a ''workload_suite'')")
      (simp_all del: nonempty_str_Some)
qed

subsection \<open>Hardware groups\<close>

lemma group_entry_simps:
  "fingerprint_of e = None \<Longrightarrow> group_entry (g, un) e = (g, un @ [observation e])"
  "fingerprint_of e = Some fp \<Longrightarrow>
     group_entry (g, un) e = (bt_insert fp (unwrap_or [] (map_of g fp) @ [observation e]) g, un)"
  by (simp_all add: group_entry_def)

definition grouped :: "(string, (string \<times> string) list) btmap \<Rightarrow> capability_entry list \<Rightarrow>
    (string, (string \<times> string) list) btmap \<Rightarrow> bool" where
  "grouped g0 es g \<longleftrightarrow> bt_wf g
     \<and> (\<forall>fp. unwrap_or [] (map_of g fp) = unwrap_or [] (map_of g0 fp)
          @ map observation (filter (\<lambda>e. fingerprint_of e = Some fp) es))
     \<and> (\<forall>fp. map_of g fp = None \<longleftrightarrow> map_of g0 fp = None \<and> (\<forall>e \<in> set es. fingerprint_of e \<noteq> Some fp))"

lemma group_entries:
  assumes "bt_wf g0" and "foldl group_entry (g0, un0) es = (g, un)"
  shows "grouped g0 es g \<and> un = un0 @ map observation (filter (\<lambda>e. fingerprint_of e = None) es)"
  using assms
proof (induction es arbitrary: g0 un0)
  case Nil
  then show ?case by (simp add: grouped_def)
next
  case (Cons e es)
  show ?case
  proof (cases "fingerprint_of e")
    case None
    with Cons.prems have "foldl group_entry (g0, un0 @ [observation e]) es = (g, un)"
      by (simp add: group_entry_simps)
    from Cons.IH[OF Cons.prems(1) this] None show ?thesis by (simp add: grouped_def)
  next
    case (Some fp)
    let ?g1 = "bt_insert fp (unwrap_or [] (map_of g0 fp) @ [observation e]) g0"
    from Some Cons.prems have "foldl group_entry (?g1, un0) es = (g, un)" "bt_wf ?g1"
      by (simp_all add: group_entry_simps)
    from Cons.IH[OF this(2,1)] Some show ?thesis by (auto simp: grouped_def)
  qed
qed

text \<open>
  Grouping by hardware: the groups stand under strictly increasing fingerprints, each has exactly
  the observations of the rows with its fingerprint, sorted and at least one of them, and the rows
  without a fingerprint are all listed apart and never grouped.
\<close>

theorem hardware_groups_exact:
  "sorted_wrt (<) (map hg_fingerprint (fst (group_by_hardware m)))
   \<and> (\<forall>g \<in> set (fst (group_by_hardware m)). hg_observations g \<noteq> []
        \<and> hg_observations g = sort (map observation (filter (\<lambda>e. fingerprint_of e = Some (hg_fingerprint g)) (map snd m))))
   \<and> hg_fingerprint ` set (fst (group_by_hardware m)) = {fp. \<exists>e \<in> snd ` set m. fingerprint_of e = Some fp}
   \<and> snd (group_by_hardware m) = sort (map observation (filter (\<lambda>e. fingerprint_of e = None) (map snd m)))"
proof -
  obtain g un where gu: "foldl group_entry ([], []) (map snd m) = (g, un)" by fastforce
  from group_entries[OF bt_wf_Nil gu]
  have "grouped [] (map snd m) g" and un: "un = map observation (filter (\<lambda>e. fingerprint_of e = None) (map snd m))"
    by simp_all
  then have inv: "bt_wf g"
      "\<And>fp. unwrap_or [] (map_of g fp) = map observation (filter (\<lambda>e. fingerprint_of e = Some fp) (map snd m))"
      "\<And>fp. map_of g fp = None \<longleftrightarrow> (\<forall>e \<in> set (map snd m). fingerprint_of e \<noteq> Some fp)"
    by (simp_all add: grouped_def)
  have out: "group_by_hardware m = (map (\<lambda>(fp, obs). \<lparr>hg_fingerprint = fp, hg_observations = sort obs\<rparr>) g, sort un)"
    by (simp add: group_by_hardware_def gu)
  have keys: "map hg_fingerprint (fst (group_by_hardware m)) = map fst g"
    by (simp add: out case_prod_unfold)
  have cell: "obs = map observation (filter (\<lambda>e. fingerprint_of e = Some fp) (map snd m))
      \<and> (\<exists>e \<in> set (map snd m). fingerprint_of e = Some fp)" if "(fp, obs) \<in> set g" for fp obs
  proof -
    have "map_of g fp = Some obs" using that inv(1) bt_wf_distinct by (blast intro: map_of_is_SomeI)
    then show ?thesis using inv(2)[of fp] inv(3)[of fp] by auto
  qed
  have "fst ` set g = {fp. \<exists>e \<in> snd ` set m. fingerprint_of e = Some fp}"
    using inv(3) by (force simp: map_of_eq_None_iff)
  moreover have "hg_fingerprint ` set (fst (group_by_hardware m)) = fst ` set g"
    by (metis keys list.set_map)
  moreover have "\<forall>x \<in> set (fst (group_by_hardware m)). hg_observations x \<noteq> []
      \<and> hg_observations x = sort (map observation (filter (\<lambda>e. fingerprint_of e = Some (hg_fingerprint x)) (map snd m)))"
  proof
    fix x assume "x \<in> set (fst (group_by_hardware m))"
    then obtain fp obs where x: "(fp, obs) \<in> set g" "x = \<lparr>hg_fingerprint = fp, hg_observations = sort obs\<rparr>"
      by (auto simp: out)
    have "obs \<noteq> []" using cell[OF x(1)] by (auto simp: filter_empty_conv)
    then have "sort obs \<noteq> []" by (metis length_0_conv length_sort)
    with cell[OF x(1)] x(2) show "hg_observations x \<noteq> []
      \<and> hg_observations x = sort (map observation (filter (\<lambda>e. fingerprint_of e = Some (hg_fingerprint x)) (map snd m)))"
      by simp
  qed
  moreover have "sorted_wrt (<) (map hg_fingerprint (fst (group_by_hardware m)))"
    using inv(1) by (simp only: keys bt_wf_def)
  moreover have "snd (group_by_hardware m)
      = sort (map observation (filter (\<lambda>e. fingerprint_of e = None) (map snd m)))"
    by (simp add: out un)
  ultimately show ?thesis by (metis (no_types, lifting))
qed

theorem hardware_groups_exact_witness:
  "hg_fingerprint ` set (fst (group_by_hardware [((''a'', ''l''),
     \<lparr>ce_host_id = ''a'', ce_locus = ''l'', ce_ts = [], ce_host = [],
      ce_document = YMapping [(YString ''hardware_fingerprint'', YString ''hw'')], ce_source = []\<rparr>)])) = {''hw''}"
proof -
  let ?m = "[((''a'', ''l''),
     \<lparr>ce_host_id = ''a'', ce_locus = ''l'', ce_ts = [], ce_host = [],
      ce_document = YMapping [(YString ''hardware_fingerprint'', YString ''hw'')], ce_source = []\<rparr>)]"
  from hardware_groups_exact[of ?m]
  have "hg_fingerprint ` set (fst (group_by_hardware ?m)) = {fp. \<exists>e \<in> snd ` set ?m. fingerprint_of e = Some fp}"
    by (elim conjE)
  then show ?thesis by (auto simp: fingerprint_of_def nonempty_str_def)
qed

subsection \<open>Scheduling\<close>

definition offers :: "engine list \<Rightarrow> yaml \<Rightarrow> string \<Rightarrow> string \<Rightarrow> string \<Rightarrow> bool" where
  "offers engines d cls lane engine \<longleftrightarrow>
     yget d ''usable'' = Some (YBool True) \<and> get_str d ''device_class'' = Some cls
     \<and> (\<exists>lanes. get_sequence d ''lanes'' = Some lanes \<and> YString lane \<in> set lanes)
     \<and> (\<exists>classes limits. (engine, classes, limits) \<in> set engines \<and> cls \<in> set classes \<and> lane_ok lane limits)"

lemma as_bool_True [simp]: "as_bool v = Some b \<longleftrightarrow> v = YBool b"
  by (cases v) auto

lemma set_strings_of [simp]: "lane \<in> set (strings_of ys) \<longleftrightarrow> YString lane \<in> set ys"
  by (force simp: strings_of_def map_filter_def)

lemma device_triples_iff: "(cls, lane, engine) \<in> set (device_triples engines d) \<longleftrightarrow> offers engines d cls lane engine"
proof (cases "yget d ''usable'' = Some (YBool True)")
  case False
  then have "Option.bind (yget d ''usable'') as_bool \<noteq> Some True" by (auto simp: bind_eq_Some_conv)
  with False show ?thesis by (simp add: device_triples_def offers_def)
next
  case True
  then show ?thesis
    by (cases "get_str d ''device_class''"; cases "get_sequence d ''lanes''")
      (auto simp: device_triples_def offers_def image_iff intro!: bexI[of _ lane])
qed

lemma strict_sorted_remdups_adj: "sorted xs \<Longrightarrow> sorted_wrt (<) (remdups_adj (xs :: 'a::linorder list))"
  by (induction xs rule: remdups_adj.induct) (auto simp: order_le_less)

text \<open>
  A triple of device class, lane and engine can be scheduled exactly when a usable device of that
  class has that lane and the engine supports the class and is not kept off the lane; the list has
  each triple once, in order. A device that is present but unusable contributes nothing.
\<close>

theorem schedulable_iff:
  "sorted_wrt (<) (schedulable_triples doc)
   \<and> ((cls, lane, engine) \<in> set (schedulable_triples doc) \<longleftrightarrow>
       (\<exists>devices d. get_sequence doc ''devices'' = Some devices \<and> d \<in> set devices
          \<and> offers (engines_of doc) d cls lane engine))"
proof -
  have "sorted_wrt (<) (remdups_adj (sort xs))" for xs :: "(string \<times> string \<times> string) list"
    by (rule strict_sorted_remdups_adj) simp
  then show ?thesis
    by (auto simp: schedulable_triples_def device_triples_iff split: option.split)
qed

end
