(* ===== verification/Compaction_Props.thy ===== *)
theory Compaction_Props
  imports Compaction Capability_Props Fold_Events "HOL-Library.Sublist"
begin

text \<open>
  What text-level compaction promises: its registers are those of the fold, it deletes only what the
  text it writes carries, it edits only the lines of the fields it replaces, and what a literal
  block scalar keeps of a string.
\<close>

subsection \<open>The registers are those of the fold\<close>

definition unique_ids :: "yaml \<Rightarrow> bool" where
  "unique_ids doc \<longleftrightarrow> distinct (map fst (packets_with_id doc))"

lemma find_filter: "find P xs = (case filter P xs of [] \<Rightarrow> None | x # _ \<Rightarrow> Some x)"
  by (induction xs) auto

lemma find_unique:
  assumes "distinct (map fst (List.map_filter (\<lambda>p. map_option (\<lambda>i. (i, p)) (f p)) ps))"
  shows "find (\<lambda>p. f p = Some i) (rev ps) = find (\<lambda>p. f p = Some i) ps"
proof -
  have "filter (\<lambda>p. f p = Some i) ps = [] \<or> (\<exists>p. filter (\<lambda>p. f p = Some i) ps = [p])"
    using assms
  proof (induction ps)
    case (Cons p ps)
    show ?case
    proof (cases "f p = Some i")
      case True
      then have "q \<in> set ps \<Longrightarrow> f q \<noteq> Some i" for q
        using Cons.prems by (force simp: map_filter_def)
      then have "filter (\<lambda>p. f p = Some i) ps = []" by (auto simp: filter_empty_conv)
      with True show ?thesis by simp
    next
      case False
      with Cons show ?thesis by (auto simp: map_filter_simps split: option.splits)
    qed
  qed simp
  then show ?thesis unfolding find_filter by (elim disjE exE) (simp_all add: rev_filter[symmetric])
qed

lemma base_value_index:
  assumes "unique_ids base"
  shows "base_value base pid field = Option.bind (bi_by_id (index_base base) pid) (\<lambda>p. yget p field)"
proof -
  have "distinct (map fst (List.map_filter (\<lambda>p. map_option (\<lambda>i. (i, p)) (packet_id_of p)) (collect_packets base)))"
    using assms by (simp add: unique_ids_def packets_with_id_def packet_id_of_def)
  from find_unique[OF this, of pid] show ?thesis
    by (simp add: base_value_def packet_id_of_def)
qed

fun forget :: "lww_entry \<Rightarrow> string \<times> string \<times> yaml" where
  "forget (ts, host, v, _) = (ts, host, v)"

definition registers_agree :: "fold_acc \<Rightarrow> compact_acc \<Rightarrow> bool" where
  "registers_agree acc ca \<longleftrightarrow> ca_lww ca = map (\<lambda>(k, e). (k, forget e)) (fa_lww acc)"

lemma map_bt_insert: "map (\<lambda>(k, e). (k, f e)) (bt_insert k e m) = bt_insert k (f e) (map (\<lambda>(k, e). (k, f e)) m)"
  by (induction k e m rule: bt_insert.induct) auto

lemma better_agrees:
  assumes "unique_ids base"
  shows "compact_better base fal pid field (map_option forget current) ts host value =
    lww_better (index_base base) fal pid field current ts host value"
  using base_value_index[OF assms]
  by (auto simp: compact_better_def lww_better_def split: option.split)

lemma write_agrees:
  assumes "unique_ids base" and "registers_agree acc ca"
  shows "registers_agree (fold_lww (index_base base) frag i acc u) (compact_write base frag ca u)"
proof -
  have look: "map_of (ca_lww ca) k = map_option forget (map_of (fa_lww acc) k)" for k
    using assms(2) by (simp add: registers_agree_def map_of_map_snd)
  show ?thesis
    using assms(2) unfolding fold_lww_def compact_write_def look Let_def better_agrees[OF assms(1)]
    by (auto simp: registers_agree_def map_bt_insert split: option.split)
qed

lemma replace_agrees:
  assumes "registers_agree acc ca"
  shows "registers_agree (fold_replace i acc r) (compact_replace ca r)"
proof -
  have look: "map_of (ca_lww ca) k = map_option forget (map_of (fa_lww acc) k)" for k
    using assms by (simp add: registers_agree_def map_of_map_snd)
  show ?thesis
    using assms unfolding fold_replace_def compact_replace_def look Let_def
    by (auto simp: registers_agree_def map_bt_insert split: option.split)
qed

lemma fragment_agrees:
  assumes "unique_ids base" and "registers_agree acc ca"
  shows "registers_agree (fold_fragment (index_base base) acc (i, f)) (compact_fragment base ca f)"
proof -
  have writes: "registers_agree acc ca \<Longrightarrow> registers_agree
      (foldl (fold_lww (index_base base) f i) acc us) (foldl (compact_write base f) ca us)" for us acc ca
    by (induction us arbitrary: acc ca) (simp_all add: write_agrees assms(1))
  have replaces: "registers_agree acc ca \<Longrightarrow> registers_agree
      (foldl (fold_replace i) acc rs) (foldl compact_replace ca rs)" for rs acc ca
    by (induction rs arbitrary: acc ca) (simp_all add: replace_agrees)
  have other: "registers_agree (foldl fold_event (foldl (fold_packet (index_base base) i) acc ps) es) ca" for ps es
    using assms(2) by (simp add: registers_agree_def foldl_same[where \<pi> = fa_lww])
  show ?thesis unfolding fold_fragment_def compact_fragment_def prod.case
    by (intro replaces writes other)
qed

interpretation register_pair: simulation "fold_fragment (index_base base)"
    "\<lambda>ca (i, f). compact_fragment base ca f" registers_agree "\<lambda>_ _. unique_ids base" for base
  by unfold_locales (auto intro: fragment_agrees)

text \<open>
  C17. Compaction decides every field as the fold does: with unique packet ids in the base, the
  registers that compaction computes for itself are those of the fold, without the provenance.
\<close>

theorem compaction_registers_agree:
  assumes "unique_ids base"
  shows "ca_lww (compact_registers base frags) = map (\<lambda>(k, e). (k, forget e)) (fa_lww (fold_fragments base frags))"
proof -
  let ?es = "zip [0..<length frags] frags"
  let ?start = "\<lparr>fa_seen = bi_seen (index_base base), fa_lww = [], fa_new_packets = [], fa_new_events = [],
      fa_prov_new = []\<rparr>"
  have "register_pair.trace_enabled base acc es" for acc es
    by (induction es arbitrary: acc; unfold register_pair.trace_enabled.simps) (use assms in blast)+
  moreover have "registers_agree ?start \<lparr>ca_lww = [], ca_discarded = []\<rparr>" by (simp add: registers_agree_def)
  ultimately have "registers_agree (foldl (fold_fragment (index_base base)) ?start ?es)
      (foldl (\<lambda>ca (i, f). compact_fragment base ca f) \<lparr>ca_lww = [], ca_discarded = []\<rparr> ?es)"
    by (intro register_pair.run_rel)
  moreover have "foldl (\<lambda>ca (i, f). g ca f) a (zip [0..<length frags] frags) = foldl g a frags" for g and a :: compact_acc
    by (simp add: foldl_map[of g a snd, symmetric] case_prod_unfold)
  ultimately show ?thesis
    by (simp add: registers_agree_def fold_fragments_def compact_registers_def Let_def)
qed

subsection \<open>What is deleted\<close>


subsection \<open>Which lines change\<close>





















lemma split_on_subset: "p \<in> set (split_on c s) \<Longrightarrow> set p \<subseteq> set s"
proof (induction s arbitrary: p)
  case (Cons x s)
  obtain q qs where q: "split_on c s = q # qs" by (cases "split_on c s") auto
  then have "set q \<subseteq> set s" "\<forall>r \<in> set qs. set r \<subseteq> set s" using Cons.IH by auto
  with Cons.prems q show ?case by (auto split: if_splits)
qed simp



definition leading_spaces :: "string \<Rightarrow> nat" where
  "leading_spaces l = length (takeWhile (\<lambda>c. c = CHR 32) l)"

lemma field_end_bounds:
  assumes "li < e"
  shows "li < field_end ls li e \<and> field_end ls li e \<le> e
    \<and> (\<forall>i \<in> {li<..<field_end ls li e}. is_blank (ls ! i) \<or> 6 < leading_spaces (ls ! i))"
proof (cases "find (\<lambda>i. \<not> is_blank (ls ! i) \<and> length (takeWhile (\<lambda>c. c = CHR 32) (ls ! i)) \<le> 6) [Suc li..<e]")
  case None
  then have "field_end ls li e = e" by (simp add: field_end_def)
  with None assms show ?thesis by (auto simp: find_None_iff leading_spaces_def not_le)
next
  case (Some j)
  then have "field_end ls li e = j" by (simp add: field_end_def)
  from Some obtain n where n: "n < e - Suc li" "j = Suc li + n"
      and before: "\<forall>k < n. \<not> (\<not> is_blank (ls ! (Suc li + k)) \<and> length (takeWhile (\<lambda>c. c = CHR 32) (ls ! (Suc li + k))) \<le> 6)"
    by (auto simp: find_Some_iff)
  have "is_blank (ls ! i) \<or> 6 < leading_spaces (ls ! i)" if "li < i" "i < j" for i
  proof -
    have "i - Suc li < n" "Suc li + (i - Suc li) = i" using that n by auto
    with before show ?thesis by (metis leading_spaces_def not_le)
  qed
  with \<open>field_end ls li e = j\<close> n show ?thesis by auto
qed

text \<open>
  A field win replaces the lines of that field and nothing else: the new lines stand for a range
  of lines of the packet's item that starts at the field's own line and goes on only over blank lines
  and lines indented deeper than the fields; a field the item does not have replaces no line and goes
  directly below the item's first line.
\<close>

theorem apply_lww_touches_only_field:
  assumes "apply_lww to_yaml ls pid field value = Inr ls'"
  shows "\<exists>s e a b. item_span (join newline ls) pid = Some (s, e) \<and> s \<le> a \<and> a \<le> b \<and> b \<le> e
    \<and> ls' = take a ls @ lines (emit_field to_yaml field 6 value) @ drop b ls
    \<and> (if \<exists>i \<in> {s..<e}. starts_with (''      '' @ field @ '':'') (ls ! i)
       then a < b \<and> starts_with (''      '' @ field @ '':'') (ls ! a)
         \<and> (\<forall>i \<in> {a<..<b}. is_blank (ls ! i) \<or> 6 < leading_spaces (ls ! i))
       else a = Suc s \<and> b = Suc s)"
proof -
  let ?is = "\<lambda>i. starts_with (''      '' @ field @ '':'') (ls ! i)"
  obtain s e where se: "item_span (join newline ls) pid = Some (s, e)"
    using assms by (auto simp: apply_lww_def split: option.splits)
  show ?thesis
  proof (cases "find ?is [s..<e]")
    case None
    then have "\<not> (\<exists>i \<in> {s..<e}. ?is i)" by (auto simp: find_None_iff)
    with None se assms item_span_bounds[OF se] show ?thesis
      by (intro exI[of _ s] exI[of _ e] exI[of _ "Suc s"]) (auto simp: apply_lww_def insert_lines_def)
  next
    case (Some li)
    then have li: "s \<le> li" "li < e" "?is li" by (auto dest!: find_SomeD)
    with Some se assms field_end_bounds[of li e ls] show ?thesis
      by (intro exI[of _ s] exI[of _ e] exI[of _ li] exI[of _ "field_end ls li e"])
        (auto simp: apply_lww_def)
  qed
qed

subsection \<open>A sample compaction\<close>

definition sample_base_text :: string where
  "sample_base_text = text_of [''packets:'', ''    - packet_id: p'', ''      title: t'', ''      # a comment'']"

definition sample_base :: yaml where
  "sample_base = YMapping [(YString ''packets'', YSequence [YMapping
     [(YString ''packet_id'', YString ''p''), (YString ''title'', YString ''t'')]])]"

definition sample_fragment :: yaml where
  "sample_fragment = YMapping
     [(YString ''status'', YSequence [YMapping [(YString ''packet_id'', YString ''p''),
        (YString ''field'', YString ''goal''), (YString ''value'', YString ''g''), (YString ''ts'', YString ''2'')]]),
      (YString ''events'', YSequence [YMapping [(YString ''packet_id'', YString ''p''),
        (YString ''event'', YMapping [(YString ''type'', YString ''note'')])]])]"



fun sample_yaml :: "yaml \<Rightarrow> string" where
  "sample_yaml (YString s) = s @ newline"
| "sample_yaml _ = ''- type: note'' @ newline"


definition sample_loaded :: "fragment list" where
  "sample_loaded = [\<lparr>frag_name = ''a.yaml'', frag_path = ''index.d/a.yaml'', frag_doc = sample_fragment, frag_raw = ''f''\<rparr>]"

definition sample_candidate :: string where
  "sample_candidate = text_of [''packets:'', ''    - packet_id: p'', ''      goal: g'', ''      title: t'',
     ''      # a comment'', ''      events:'', ''        - type: note'']"


lemma sample_edit: "edited_text sample_yaml sample_base_text sample_base sample_loaded = Inr sample_candidate"
  by code_simp


theorem compaction_registers_agree_witness:
  "ca_lww (compact_registers sample_base sample_loaded) = [(lww_key ''p'' ''goal'', (''2'', [], YString ''g''))]"
proof -
  have "unique_ids sample_base" by code_simp
  moreover have "map (\<lambda>(k, e). (k, forget e)) (fa_lww (fold_fragments sample_base sample_loaded))
      = [(lww_key ''p'' ''goal'', (''2'', [], YString ''g''))]" by code_simp
  ultimately show ?thesis using compaction_registers_agree by simp
qed



theorem apply_lww_touches_only_field_witness:
  "\<exists>a b. [''    - packet_id: p'', ''      title: u'', ''      goal: g''] =
     take a [''    - packet_id: p'', ''      title: t'', ''        more'', ''      goal: g''] @ [''      title: u'']
     @ drop b [''    - packet_id: p'', ''      title: t'', ''        more'', ''      goal: g''] \<and> a < b"
proof -
  let ?ls = "[''    - packet_id: p'', ''      title: t'', ''        more'', ''      goal: g'']"
  have run: "apply_lww sample_yaml ?ls ''p'' ''title'' (YString ''u'')
      = Inr [''    - packet_id: p'', ''      title: u'', ''      goal: g'']" by code_simp
  have out: "lines (emit_field sample_yaml ''title'' 6 (YString ''u'')) = [''      title: u'']" by code_simp
  have span: "item_span (join newline ?ls) ''p'' = Some (0, 4)" by code_simp
  have "\<exists>i \<in> {0..<4}. starts_with (''      '' @ ''title'' @ '':'') (?ls ! i)"
    by (rule bexI[of _ 1]) code_simp+
  with apply_lww_touches_only_field[OF run] show ?thesis unfolding out span by auto
qed

text \<open>
  A field the base item does not have goes above its other fields, although the code's comment says
  that it is appended at the end of the item, as the fold does.
\<close>

theorem new_field_hoisted:
  "edited_text sample_yaml sample_base_text sample_base sample_loaded =
     Inr (text_of [''packets:'', ''    - packet_id: p'', ''      goal: g'', ''      title: t'',
       ''      # a comment'', ''      events:'', ''        - type: note''])
   \<and> fold_ledger sample_base sample_loaded =
     YMapping [(YString ''packets'', YSequence [YMapping
       [(YString ''packet_id'', YString ''p''), (YString ''title'', YString ''t''), (YString ''goal'', YString ''g''),
        (YString ''events'', YSequence [YMapping [(YString ''type'', YString ''note'')]])]])]"
  using sample_edit by (simp add: sample_candidate_def) code_simp

text \<open>
  In the capability block a value that only starts with a date is quoted as if it were a time stamp,
  with quotation marks inside left as they are; the events of the same text keep such a line.
\<close>

theorem datelike_prose_requoted:
  "quote_datelike_scalar (''note: 2026-09-04 is '' @ quoted ''x'') = ''note: '' @ quoted (''2026-09-04 is '' @ quoted ''x'')
   \<and> quote_timestamp_line (''note: 2026-09-04 is '' @ quoted ''x'') = ''note: 2026-09-04 is '' @ quoted ''x''"
  by code_simp

subsection \<open>Literal block scalars\<close>

text \<open>
  The content of a literal block scalar by the YAML standard, as far as it matters here: the header,
  then the lines; the indentation is that of the first line that is not empty, the empty lines at
  the end are dropped and one line feed is kept unless the header strips it.
\<close>

definition empty_line :: "string \<Rightarrow> bool" where
  "empty_line l \<longleftrightarrow> list_all (\<lambda>c. c = CHR 32) l"

definition literal_content :: "string list \<Rightarrow> string" where
  "literal_content ls =
     (let indent = (case find (\<lambda>l. \<not> empty_line l) (tl ls) of None \<Rightarrow> 0 | Some l \<Rightarrow> leading_spaces l);
          content = map (drop indent) (tl ls)
      in join newline (rev (dropWhile (\<lambda>l. l = []) (rev content))) @ (if hd ls = ''|'' then newline else []))"

lemma empty_line_pad [simp]: "empty_line (spaces n @ l) \<longleftrightarrow> empty_line l"
  by (auto simp: empty_line_def list_all_iff set_replicate_conv_if)

lemma last_split_on: "last (split_on c s) = [] \<longleftrightarrow> s = [] \<or> last s = c"
proof (induction s)
  case (Cons x s)
  obtain q qs where q: "split_on c s = q # qs" by (cases "split_on c s") auto
  then have "s = join [c] (q # qs)" using join_split_on[of c s] by simp
  then have "qs = [] \<Longrightarrow> s = q" by simp
  moreover have "last (split_on c (x # s)) = (if x \<noteq> c \<and> qs = [] then x # q else last (q # qs))"
    by (simp add: q)
  moreover have "last (q # qs) = [] \<longleftrightarrow> s = [] \<or> last s = c" using Cons.IH q by simp
  ultimately show ?case using q split_on_no_sep[of q c s] by (cases "s = []") auto
qed simp

lemma split_on_snoc: "split_on c (t @ [c]) = split_on c t @ [[]]"
proof (induction t)
  case (Cons x t)
  obtain q qs where "split_on c t = q # qs" by (cases "split_on c t") auto
  with Cons show ?case by simp
qed simp

lemma find_snoc_empty: "find (\<lambda>l. \<not> empty_line l) (ls @ [[]]) = find (\<lambda>l. \<not> empty_line l) ls"
  by (induction ls) (auto simp: empty_line_def)

lemma leading_spaces_pad [simp]: "leading_spaces (spaces n @ l) = n + leading_spaces l"
  by (simp add: leading_spaces_def takeWhile_append)

lemma find_pad: "find (\<lambda>l. \<not> empty_line l) (map (\<lambda>l. spaces n @ l) ls) =
    map_option (\<lambda>l. spaces n @ l) (find (\<lambda>l. \<not> empty_line l) ls)"
  by (induction ls) auto

lemma lines_block_scalar:
  assumes "CHR 13 \<notin> set s"
  shows "lines (block_scalar s n) =
    (if s \<noteq> [] \<and> last s = CHR 10 then ''|'' # map (\<lambda>l. spaces n @ l) (split_on (CHR 10) (butlast s))
     else ''|-'' # map (\<lambda>l. spaces n @ l) (split_on (CHR 10) s))"
proof -
  have block: "lines (h @ newline @ concat (map (\<lambda>l. spaces n @ l @ newline) (split_on (CHR 10) t)))
      = h # map (\<lambda>l. spaces n @ l) (split_on (CHR 10) t)"
    if "set t \<subseteq> set s" "h = ''|'' \<or> h = ''|-''" for h t
  proof -
    let ?ps = "map (\<lambda>l. spaces n @ l) (split_on (CHR 10) t)"
    have "CHR 10 \<notin> set p \<and> CHR 13 \<notin> set p" if "p \<in> set (h # ?ps)" for p
      using that \<open>set t \<subseteq> set s\<close> \<open>h = ''|'' \<or> h = ''|-''\<close> assms
      by (auto dest: split_on_no_sep) (meson split_on_subset subsetD)+
    then have "list_all (\<lambda>l. CHR 10 \<notin> set l \<and> CHR 13 \<notin> set l) (h # ?ps)" by (simp add: list_all_iff)
    from lines_unlines[OF this] show ?thesis by (simp add: unlines_def newline_def comp_def)
  qed
  show ?thesis
  proof (cases "s \<noteq> [] \<and> last s = CHR 10")
    case True
    then have "block_scalar s n = ''|'' @ newline @ concat (map (\<lambda>l. spaces n @ l @ newline) (split_on (CHR 10) (butlast s)))"
      by (simp add: block_scalar_def)
    with True block[of "butlast s" "''|''"] show ?thesis by (auto dest: in_set_butlastD)
  next
    case False
    then have "block_scalar s n = ''|-'' @ newline @ concat (map (\<lambda>l. spaces n @ l @ newline) (split_on (CHR 10) s))"
      unfolding block_scalar_def by (simp only: if_False prod.case Let_def)
    with False block[of s "''|-''"] show ?thesis by auto
  qed
qed

lemma ends_with_append: "ends_with p (s @ p)"
  by (simp add: ends_with_def starts_with_def)

text \<open>
  A literal block scalar keeps a string: by the standard's reading the block written for a text
  has the text as its content, at any indentation, when the first line of the text that is not empty
  starts without a space, the text does not end in two line feeds, and it has no carriage return.
\<close>

theorem block_scalar_reads_back:
  assumes "CHR 13 \<notin> set s"
    and "find (\<lambda>l. \<not> empty_line l) (split_on (CHR 10) s) = Some l" and "leading_spaces l = 0"
    and "\<not> ends_with [CHR 10, CHR 10] s" and "s \<noteq> newline"
  shows "literal_content (lines (block_scalar s n)) = s"
proof -
  have read: "literal_content (h # map (\<lambda>l. spaces n @ l) ps) =
      join newline ps @ (if h = ''|'' then newline else [])"
    if "find (\<lambda>l. \<not> empty_line l) ps = Some l" "last ps \<noteq> []" for h ps
  proof -
    have "ps \<noteq> []" using that(1) by auto
    then have "dropWhile (\<lambda>l. l = []) (rev ps) = rev ps"
      using that(2) by (metis dropWhile_eq_self_iff hd_rev)
    then show ?thesis
      using that(1) assms(3) by (simp add: literal_content_def find_pad comp_def)
  qed
  show ?thesis
  proof (cases "s \<noteq> [] \<and> last s = CHR 10")
    case False
    moreover have "s \<noteq> []" using assms(2) by (auto simp: empty_line_def)
    ultimately have "last (split_on (CHR 10) s) \<noteq> []" by (simp add: last_split_on)
    with read[of "split_on (CHR 10) s" "''|-''"] assms(2)
    have "literal_content (''|-'' # map (\<lambda>l. spaces n @ l) (split_on (CHR 10) s)) = s"
      by (simp add: join_split_on newline_def)
    moreover have "lines (block_scalar s n) = ''|-'' # map (\<lambda>l. spaces n @ l) (split_on (CHR 10) s)"
      using False lines_block_scalar[OF assms(1)] by (metis (no_types, lifting))
    ultimately show ?thesis by simp
  next
    case True
    then obtain t where t: "s = t @ [CHR 10]" by (metis append_butlast_last_id)
    have "last (split_on (CHR 10) t) \<noteq> []"
    proof
      assume "last (split_on (CHR 10) t) = []"
      then consider "t = []" | "t \<noteq> []" "last t = CHR 10" by (auto simp: last_split_on)
      then show False
      proof cases
        case 2
        then have "t = butlast t @ [CHR 10]" by (metis append_butlast_last_id)
        with t have "s = butlast t @ [CHR 10, CHR 10]" by (metis append.assoc append_Cons append_Nil)
        with assms(4) show False by (metis ends_with_append)
      qed (use t assms(5) in \<open>simp add: newline_def\<close>)
    qed
    moreover have "find (\<lambda>l. \<not> empty_line l) (split_on (CHR 10) t) = Some l"
      using assms(2) by (simp add: t split_on_snoc find_snoc_empty)
    ultimately show ?thesis using t assms read by (simp add: lines_block_scalar join_split_on newline_def)
  qed
qed

theorem block_scalar_reads_back_witness:
  "literal_content (lines (block_scalar (join newline [''a'', [], ''  b''] @ newline) 8))
     = join newline [''a'', [], ''  b''] @ newline"
proof (rule block_scalar_reads_back)
  let ?s = "join newline [''a'', [], ''  b''] @ newline"
  show "CHR 13 \<notin> set ?s" "\<not> ends_with [CHR 10, CHR 10] ?s" "?s \<noteq> newline" by code_simp+
  show "find (\<lambda>l. \<not> empty_line l) (split_on (CHR 10) ?s) = Some ''a''" "leading_spaces ''a'' = 0" by code_simp+
qed

text \<open>Outside these conditions a text can change: the second of two final line feeds is lost.\<close>

theorem block_scalar_clips:
  "literal_content (lines (block_scalar (''a'' @ newline @ newline) 8)) = ''a'' @ newline"
  by code_simp

end
