(* ===== verification/Redact.thy ===== *)
theory Redact
  imports Rust_Std "HOL-Library.Sublist"
begin

text \<open>
  Redaction of secrets from shown command lines (\<open>redact\<close> of
  \<open>crates/tillandsias-plan/src/command_policy.rs\<close>), and that nothing it looks for is left: a scan
  that replaces tokens leaves none, and brings none about out of what it keeps.
\<close>

subsection \<open>The code\<close>

definition token_marker :: string where
  "token_marker = ''<redacted:token>''"

definition pem_marker :: string where
  "pem_marker = ''<redacted:pem>''"

text \<open>Both passes walk over the text: \<open>len\<close> gives the length of the token at the head, 0 for none.\<close>

function scan :: "(string \<Rightarrow> nat) \<Rightarrow> string \<Rightarrow> string" where
  "scan len [] = []"
| "scan len (c # s) =
     (if len (c # s) = 0 then c # scan len s else token_marker @ scan len (drop (len (c # s)) (c # s)))"
  by pat_completeness auto

termination
  by (relation "measure (\<lambda>(len, s). length s)") auto

declare scan.simps(2) [simp del]

definition aws_key_len :: "string \<Rightarrow> nat" where
  "aws_key_len s =
     (if (starts_with ''AKIA'' s \<or> starts_with ''ASIA'' s) \<and> 20 \<le> length s
        \<and> list_all (\<lambda>c. is_ascii_uppercase c \<or> is_ascii_digit c) (take 16 (drop 4 s))
      then 20 else 0)"

definition token_prefixes :: "string list" where
  "token_prefixes =
     [''github_pat_'', ''ghp_'', ''gho_'', ''ghu_'', ''ghs_'', ''ghr_'', ''sk-ant-'', ''hvs.'']"

definition secret_char :: "char \<Rightarrow> bool" where
  "secret_char c \<longleftrightarrow> is_ascii_alphanumeric c \<or> c = CHR ''_'' \<or> c = CHR ''-'' \<or> c = CHR ''.''"

definition tail_len :: "string \<Rightarrow> string \<Rightarrow> nat" where
  "tail_len p s = length (takeWhile secret_char (drop (length p) s))"

definition token_len :: "string \<Rightarrow> nat" where
  "token_len s =
     (case find (\<lambda>p. starts_with p s \<and> 8 \<le> tail_len p s) token_prefixes of
        Some p \<Rightarrow> length p + tail_len p s
      | None \<Rightarrow> 0)"

function redact :: "string \<Rightarrow> string" where
  "redact s =
     (case split_once_text ''-----BEGIN'' s of
        Some (before, _) \<Rightarrow> redact before @ pem_marker
      | None \<Rightarrow> scan token_len (scan aws_key_len s))"
  by auto

termination
  by (relation "measure length") (auto dest: split_once_text_Some)

declare redact.simps [simp del]

subsection \<open>Shapes\<close>

text \<open>
  A shape is a property of a text's head that its leading run of token characters decides and that a
  longer run keeps; the markers have it nowhere.
\<close>

definition head_run :: "string \<Rightarrow> string" where
  "head_run s = takeWhile secret_char s"

locale shape =
  fixes at_head :: "string \<Rightarrow> bool"
  assumes in_run: "at_head s \<Longrightarrow> at_head (head_run s)"
    and longer: "at_head s \<Longrightarrow> at_head (s @ t)"
    and not_in_markers: "m \<noteq> [] \<Longrightarrow> suffix m token_marker \<or> suffix m pem_marker \<Longrightarrow> \<not> at_head m"
    and not_empty: "\<not> at_head []"
begin

definition absent :: "string \<Rightarrow> bool" where
  "absent s \<longleftrightarrow> (\<forall>v. suffix v s \<longrightarrow> \<not> at_head v)"

lemma run_grows: "prefix (head_run a) (head_run b) \<Longrightarrow> at_head a \<Longrightarrow> at_head b"
proof -
  assume "prefix (head_run a) (head_run b)" "at_head a"
  then have "at_head (head_run b)" using in_run[of a] longer[of "head_run a"] by (auto simp: prefix_def)
  moreover have "b = head_run b @ dropWhile secret_char b" by (simp add: head_run_def)
  ultimately show "at_head b" using longer[of "head_run b"] by metis
qed

lemma absent_Nil [simp]: "absent []"
  by (simp add: absent_def not_empty)

lemma absent_Cons: "absent (c # s) \<longleftrightarrow> \<not> at_head (c # s) \<and> absent s"
  by (auto simp: absent_def suffix_Cons)

end

lemma run_marker:
  assumes "suffix m token_marker \<or> suffix m pem_marker" and "m \<noteq> []"
  shows "head_run (m @ s) = head_run m"
proof -
  have "last m = CHR ''>''"
    using assms by (auto simp: suffix_def token_marker_def pem_marker_def) (metis last.simps last_appendR list.discI)+
  then have "\<not> secret_char (last m)" by (simp only:) code_simp
  moreover have "last m \<in> set m" using assms(2) by simp
  ultimately have "takeWhile secret_char (m @ s) = takeWhile secret_char m" by (metis takeWhile_append1)
  then show ?thesis by (simp only: head_run_def)
qed

lemma run_before_marker:
  assumes "m = token_marker \<or> m = pem_marker"
  shows "head_run (s @ m) = head_run s"
proof -
  have none: "takeWhile secret_char m = []" using assms by (elim disjE) (simp_all only:, code_simp+)
  show ?thesis
  proof (cases "\<forall>x \<in> set s. secret_char x")
    case True
    then have "takeWhile secret_char s = s" by (simp add: takeWhile_eq_all_conv)
    with True none show ?thesis by (simp only: head_run_def takeWhile_append append_Nil2 if_cancel)
  next
    case False
    then show ?thesis by (simp only: head_run_def takeWhile_append if_False)
  qed
qed

lemma prefix_run_scan: "prefix (head_run (scan len s)) (head_run s)"
proof (induction len s rule: scan.induct)
  case (2 len c s)
  show ?case
  proof (cases "len (c # s) = 0")
    case True
    with 2 show ?thesis by (simp add: scan.simps head_run_def)
  next
    case False
    have "head_run (token_marker @ t) = []" for t by (simp add: head_run_def token_marker_def secret_char_def string_defs)
    with False show ?thesis by (simp add: scan.simps)
  qed
qed simp

context shape
begin

lemma absent_marker:
  assumes "m = token_marker \<or> m = pem_marker" and "absent s"
  shows "absent (m @ s)"
  unfolding absent_def
proof (intro allI impI)
  fix v assume "suffix v (m @ s)"
  then consider "suffix v s" | k where "suffix k m" "k \<noteq> []" "v = k @ s"
    unfolding suffix_append by (metis append_Nil suffix_order.refl)
  then show "\<not> at_head v"
  proof cases
    case 2
    then have "suffix k token_marker \<or> suffix k pem_marker" using assms(1) by auto
    with 2 run_marker[of k s] show ?thesis using not_in_markers[of k] run_grows[of v k] by auto
  qed (use assms(2) in \<open>simp add: absent_def\<close>)
qed

lemma absent_before_marker:
  assumes "m = token_marker \<or> m = pem_marker" and "absent s"
  shows "absent (s @ m)"
  unfolding absent_def
proof (intro allI impI)
  fix v assume "suffix v (s @ m)"
  then consider "suffix v m" | k where "suffix k s" "v = k @ m"
    by (auto simp: suffix_append)
  then show "\<not> at_head v"
  proof cases
    case 1
    then show ?thesis using assms(1) not_in_markers[of v] not_empty by (cases "v = []") auto
  next
    case 2
    with assms run_before_marker[OF assms(1), of k] show ?thesis
      using run_grows[of v k] by (auto simp: absent_def)
  qed
qed

text \<open>A scan never brings the shape about, and leaves it nowhere when it looks for it.\<close>

lemma absent_scan:
  assumes "absent s \<or> (\<forall>t. at_head t \<longrightarrow> len t \<noteq> 0)"
  shows "absent (scan len s)"
  using assms
proof (induction len s rule: scan.induct)
  case (2 len c s)
  show ?case
  proof (cases "len (c # s) = 0")
    case True
    then have "absent (scan len s)" using 2 by (auto simp: absent_Cons)
    moreover have "\<not> at_head (c # scan len s)"
    proof
      assume "at_head (c # scan len s)"
      moreover have "prefix (head_run (c # scan len s)) (head_run (c # s))" using prefix_run_scan by (simp add: head_run_def)
      ultimately have "at_head (c # s)" by (rule run_grows[rotated])
      with 2(3) True show False by (auto simp: absent_Cons)
    qed
    ultimately show ?thesis using True by (simp add: scan.simps absent_Cons)
  next
    case False
    have "absent (c # s) \<Longrightarrow> absent (drop (len (c # s)) (c # s))"
      unfolding absent_def by (meson suffix_drop suffix_order.trans)
    with 2 False have "absent (scan len (drop (len (c # s)) (c # s)))" by blast
    with False absent_marker show ?thesis by (simp add: scan.simps)
  qed
qed simp

end

subsection \<open>The shapes that are looked for\<close>

lemma marker_suffixes:
  "suffix m token_marker \<or> suffix m pem_marker \<Longrightarrow> m \<in> set (suffixes token_marker) \<union> set (suffixes pem_marker)"
  by (auto simp: in_set_suffixes)

definition is_aws_key :: "string \<Rightarrow> bool" where
  "is_aws_key s \<longleftrightarrow> aws_key_len s \<noteq> 0"

definition is_token :: "string \<Rightarrow> bool" where
  "is_token s \<longleftrightarrow> token_len s \<noteq> 0"

definition is_pem :: "string \<Rightarrow> bool" where
  "is_pem s \<longleftrightarrow> starts_with ''-----BEGIN'' s"

lemma starts_with_iff: "starts_with p s \<longleftrightarrow> prefix p s"
  by (metis append_eq_conv_conj prefix_def starts_with_def)

lemma prefix_run: "list_all secret_char p \<Longrightarrow> prefix p s \<Longrightarrow> prefix p (head_run s)"
  by (auto simp: prefix_def head_run_def list_all_iff takeWhile_append)

lemma is_aws_key_iff:
  "is_aws_key s \<longleftrightarrow> (\<exists>p. prefix p s \<and> length p = 20 \<and> (prefix ''AKIA'' p \<or> prefix ''ASIA'' p)
     \<and> list_all (\<lambda>c. is_ascii_uppercase c \<or> is_ascii_digit c) p)"
proof
  assume "is_aws_key s"
  then have key: "prefix ''AKIA'' s \<or> prefix ''ASIA'' s" "20 \<le> length s"
      "list_all (\<lambda>c. is_ascii_uppercase c \<or> is_ascii_digit c) (take 16 (drop 4 s))"
    by (auto simp: is_aws_key_def aws_key_len_def starts_with_iff split: if_splits)
  have "take 20 s = take 4 s @ take 16 (drop 4 s)" by (simp add: take_add[of 4 16 s, simplified])
  moreover have "take 4 s = ''AKIA'' \<or> take 4 s = ''ASIA''" using key(1) by (auto simp: prefix_def)
  moreover have "list_all (\<lambda>c. is_ascii_uppercase c \<or> is_ascii_digit c) ''AKIA''"
      "list_all (\<lambda>c. is_ascii_uppercase c \<or> is_ascii_digit c) ''ASIA''" by code_simp+
  ultimately have "list_all (\<lambda>c. is_ascii_uppercase c \<or> is_ascii_digit c) (take 20 s)"
      "prefix ''AKIA'' (take 20 s) \<or> prefix ''ASIA'' (take 20 s)"
    using key(3) by auto
  then show "\<exists>p. prefix p s \<and> length p = 20 \<and> (prefix ''AKIA'' p \<or> prefix ''ASIA'' p)
     \<and> list_all (\<lambda>c. is_ascii_uppercase c \<or> is_ascii_digit c) p"
    using key(2) take_is_prefix by (intro exI[of _ "take 20 s"]) auto
next
  assume "\<exists>p. prefix p s \<and> length p = 20 \<and> (prefix ''AKIA'' p \<or> prefix ''ASIA'' p)
     \<and> list_all (\<lambda>c. is_ascii_uppercase c \<or> is_ascii_digit c) p"
  then obtain p t where p: "s = p @ t" "length p = 20" "prefix ''AKIA'' p \<or> prefix ''ASIA'' p"
      "list_all (\<lambda>c. is_ascii_uppercase c \<or> is_ascii_digit c) p" by (auto simp: prefix_def)
  have "take 16 (drop 4 s) = drop 4 p" using p(1,2) by simp
  then have "list_all (\<lambda>c. is_ascii_uppercase c \<or> is_ascii_digit c) (take 16 (drop 4 s))"
    using p(4) by (auto simp: list_all_iff dest: in_set_dropD)
  with p show "is_aws_key s" by (auto simp: is_aws_key_def aws_key_len_def starts_with_iff)
qed

lemma is_token_iff:
  "is_token s \<longleftrightarrow> (\<exists>p \<in> set token_prefixes. \<exists>t. prefix (p @ t) s \<and> length t = 8 \<and> list_all secret_char t)"
proof -
  have tail: "starts_with p s \<and> 8 \<le> tail_len p s \<longleftrightarrow>
      (\<exists>t. prefix (p @ t) s \<and> length t = 8 \<and> list_all secret_char t)" for p
  proof
    assume a: "starts_with p s \<and> 8 \<le> tail_len p s"
    then obtain r where r: "s = p @ r" by (auto simp: starts_with_iff prefix_def)
    with a have "8 \<le> length (takeWhile secret_char r)" by (simp add: tail_len_def)
    then have "prefix (take 8 (takeWhile secret_char r)) r" "length (take 8 (takeWhile secret_char r)) = 8"
        "list_all secret_char (take 8 (takeWhile secret_char r))"
      by (auto simp: list_all_iff dest: in_set_takeD set_takeWhileD)
        (metis prefix_order.trans take_is_prefix takeWhile_is_prefix)
    with r show "\<exists>t. prefix (p @ t) s \<and> length t = 8 \<and> list_all secret_char t" by auto
  next
    assume "\<exists>t. prefix (p @ t) s \<and> length t = 8 \<and> list_all secret_char t"
    then obtain t r where "s = p @ t @ r" "length t = 8" "list_all secret_char t" by (auto simp: prefix_def)
    then show "starts_with p s \<and> 8 \<le> tail_len p s"
      by (auto simp: starts_with_iff tail_len_def list_all_iff takeWhile_append)
  qed
  have len: "p \<in> set token_prefixes \<Longrightarrow> p \<noteq> []" for p by (auto simp: token_prefixes_def)
  have "is_token s \<longleftrightarrow> (\<exists>p \<in> set token_prefixes. starts_with p s \<and> 8 \<le> tail_len p s)"
  proof (cases "find (\<lambda>p. starts_with p s \<and> 8 \<le> tail_len p s) token_prefixes")
    case None
    then have "token_len s = 0" by (simp add: token_len_def)
    with None show ?thesis by (auto simp: is_token_def find_None_iff)
  next
    case (Some p)
    with find_SomeD[OF Some] len show ?thesis by (auto simp: is_token_def token_len_def)
  qed
  then show ?thesis by (simp only: tail)
qed

lemma upper_digit_token_char: "is_ascii_uppercase c \<or> is_ascii_digit c \<Longrightarrow> secret_char c"
  by (auto simp: secret_char_def is_ascii_alphanumeric_def)

lemma marker_free: "list_all (\<lambda>m. m = [] \<or> \<not> is_aws_key m \<and> \<not> is_token m \<and> \<not> is_pem m)
    (suffixes token_marker @ suffixes pem_marker)"
  by code_simp

interpretation aws: shape is_aws_key
proof
  fix s t m :: string
  show "is_aws_key s \<Longrightarrow> is_aws_key (head_run s)"
  proof -
    assume "is_aws_key s"
    then obtain p where p: "prefix p s" "length p = 20" "prefix ''AKIA'' p \<or> prefix ''ASIA'' p"
        "list_all (\<lambda>c. is_ascii_uppercase c \<or> is_ascii_digit c) p" unfolding is_aws_key_iff by blast
    from p(4) have "list_all secret_char p" unfolding list_all_iff by (blast intro: upper_digit_token_char)
    with p show "is_aws_key (head_run s)" unfolding is_aws_key_iff by (blast intro: prefix_run)
  qed
  show "is_aws_key s \<Longrightarrow> is_aws_key (s @ t)"
    unfolding is_aws_key_iff using prefix_prefix by blast
  show "m \<noteq> [] \<Longrightarrow> suffix m token_marker \<or> suffix m pem_marker \<Longrightarrow> \<not> is_aws_key m"
    using marker_free marker_suffixes[of m] by (auto simp: list_all_iff)
  show "\<not> is_aws_key []" by code_simp
qed

interpretation tok: shape is_token
proof
  fix s t m :: string
  have chars: "p \<in> set token_prefixes \<Longrightarrow> list_all secret_char p" for p
    by (simp add: token_prefixes_def) (elim disjE; simp only:; code_simp)
  show "is_token s \<Longrightarrow> is_token (head_run s)"
    unfolding is_token_iff using chars prefix_run by (metis list_all_append)
  show "is_token s \<Longrightarrow> is_token (s @ t)"
    unfolding is_token_iff using prefix_prefix by blast
  show "m \<noteq> [] \<Longrightarrow> suffix m token_marker \<or> suffix m pem_marker \<Longrightarrow> \<not> is_token m"
    using marker_free marker_suffixes[of m] by (auto simp: list_all_iff)
  show "\<not> is_token []" by code_simp
qed

interpretation pem: shape is_pem
proof
  fix s t m :: string
  have "list_all secret_char ''-----BEGIN''" by code_simp
  then show "is_pem s \<Longrightarrow> is_pem (head_run s)"
    unfolding is_pem_def starts_with_iff by (rule prefix_run)
  show "is_pem s \<Longrightarrow> is_pem (s @ t)"
    unfolding is_pem_def starts_with_iff by (rule prefix_prefix)
  show "m \<noteq> [] \<Longrightarrow> suffix m token_marker \<or> suffix m pem_marker \<Longrightarrow> \<not> is_pem m"
    using marker_free marker_suffixes[of m] by (auto simp: list_all_iff)
  show "\<not> is_pem []" by code_simp
qed

subsection \<open>Nothing is left\<close>

lemma split_once_text_None: "split_once_text p s = None \<Longrightarrow> suffix v s \<Longrightarrow> p \<noteq> [] \<Longrightarrow> \<not> starts_with p v"
  by (induction p s rule: split_once_text.induct)
    (auto simp: suffix_Cons starts_with_def split: if_splits)

lemma split_once_first:
  "split_once_text p s = Some (a, b) \<Longrightarrow> p \<noteq> [] \<Longrightarrow> suffix v a \<Longrightarrow> \<not> starts_with p v"
proof (induction p s arbitrary: a v rule: split_once_text.induct)
  case (2 p c s)
  show ?case
  proof (cases "starts_with p (c # s)")
    case True
    with 2 show ?thesis by (auto simp: starts_with_def)
  next
    case False
    with 2(2) obtain a' where a': "split_once_text p s = Some (a', b)" "a = c # a'" by auto
    then have "s = a' @ p @ b" by (blast dest: split_once_text_Some)
    show ?thesis
    proof (cases "v = c # a'")
      case True
      with False \<open>s = a' @ p @ b\<close> prefix_prefix[of p v "p @ b"] show ?thesis by (auto simp: starts_with_iff)
    next
      case False
      with 2(4) a'(2) have "suffix v a'" by (auto simp: suffix_Cons)
      with 2(1)[OF \<open>\<not> starts_with p (c # s)\<close> a'(1) 2(3)] show ?thesis by blast
    qed
  qed
qed auto

text \<open>
  C29. Nothing that redaction looks for is left in its result: no suffix of it starts with an access
  key, with a token of a known prefix and eight or more characters, or with a PEM header.
\<close>

theorem redact_leaves_nothing:
  "suffix v (redact s) \<Longrightarrow> aws_key_len v = 0 \<and> token_len v = 0 \<and> \<not> starts_with ''-----BEGIN'' v"
proof -
  have clean: "aws.absent (scan token_len (scan aws_key_len t)) \<and> tok.absent (scan token_len (scan aws_key_len t))
      \<and> pem.absent (scan token_len (scan aws_key_len t))" if "split_once_text ''-----BEGIN'' t = None" for t
  proof (intro conjI)
    have "aws.absent (scan aws_key_len t)" by (rule aws.absent_scan) (simp add: is_aws_key_def)
    then show "aws.absent (scan token_len (scan aws_key_len t))" by (blast intro: aws.absent_scan)
    show "tok.absent (scan token_len (scan aws_key_len t))" by (rule tok.absent_scan) (simp add: is_token_def)
    have "pem.absent t" using split_once_text_None[OF that] by (simp add: pem.absent_def is_pem_def)
    then show "pem.absent (scan token_len (scan aws_key_len t))" by (blast intro: pem.absent_scan)
  qed
  have "aws.absent (redact s) \<and> tok.absent (redact s) \<and> pem.absent (redact s)"
  proof (induction s rule: redact.induct)
    case (1 s)
    show ?case
    proof (cases "split_once_text ''-----BEGIN'' s")
      case None
      with clean[OF None] show ?thesis by (simp add: redact.simps[of s])
    next
      case (Some ab)
      with 1[OF Some] show ?thesis
        by (cases ab) (simp add: redact.simps[of s] aws.absent_before_marker tok.absent_before_marker pem.absent_before_marker)
    qed
  qed
  moreover assume "suffix v (redact s)"
  ultimately show ?thesis
    by (simp add: aws.absent_def tok.absent_def pem.absent_def is_aws_key_def is_token_def is_pem_def)
qed

theorem redact_leaves_nothing_witness:
  "redact ''x ghp_12345678 y'' = ''x <redacted:token> y'' \<and> token_len (redact ''x ghp_12345678 y'') = 0"
proof -
  have "suffix (redact ''x ghp_12345678 y'') (redact ''x ghp_12345678 y'')" by simp
  from redact_leaves_nothing[OF this] have "token_len (redact ''x ghp_12345678 y'') = 0" by blast
  moreover have "redact ''x ghp_12345678 y'' = ''x <redacted:token> y''" by code_simp
  ultimately show ?thesis by blast
qed

end
