(* ===== verification/Policy_Paths.thy ===== *)
theory Policy_Paths
  imports Rust_Std Yaml
begin

text \<open>
  Paths as the command policy compares them (\<open>crates/tillandsias-plan/src/command_policy.rs\<close>):
  components of a path, lexical resolution, resolution through the file system, and the git
  directories of a checkout. The file system and the home directory are the argument \<open>disk\<close>. Paths
  are those of Unix, as lists of components.
\<close>

subsection \<open>Components\<close>

datatype component = RootDir | ParentDir | Normal string

type_synonym path = "component list"

definition is_absolute :: "string \<Rightarrow> bool" where
  "is_absolute p \<longleftrightarrow> starts_with ''/'' p"

definition component_of :: "string \<Rightarrow> component list" where
  "component_of part =
     (if part = [] \<or> part = ''.'' then [] else if part = ''..'' then [ParentDir] else [Normal part])"

text \<open>\<open>Path::components\<close>, without the leading \<open>.\<close> of a relative path, which no caller keeps.\<close>

definition components :: "string \<Rightarrow> path" where
  "components p =
     (if is_absolute p then [RootDir] else []) @ concat (map component_of (split_on (CHR ''/'') p))"

definition join_path :: "path \<Rightarrow> string \<Rightarrow> path" where
  "join_path dir p = (if is_absolute p then components p else dir @ components p)"

fun component_text :: "component \<Rightarrow> string" where
  "component_text RootDir = []"
| "component_text ParentDir = ''..''"
| "component_text (Normal n) = n"

definition path_text :: "path \<Rightarrow> string" where
  "path_text p = (if p = [RootDir] then ''/'' else join ''/'' (map component_text p))"

subsection \<open>Lexical resolution\<close>

text \<open>\<open>PathBuf::pop\<close>: the root and the empty path have no parent.\<close>

definition pop_path :: "path \<Rightarrow> path" where
  "pop_path p = (if p = [RootDir] then p else butlast p)"

definition push_component :: "path \<Rightarrow> component \<Rightarrow> path" where
  "push_component out c = (if c = ParentDir then pop_path out else out @ [c])"

record disk =
  dk_home :: "string option"
  dk_exists :: "path \<Rightarrow> bool"
  dk_canonical :: "path \<Rightarrow> path option"
  dk_is_dir :: "path \<Rightarrow> bool"
  dk_is_file :: "path \<Rightarrow> bool"
  dk_read :: "path \<Rightarrow> string option"

definition home_path :: "disk \<Rightarrow> path" where
  "home_path d = (case dk_home d of Some h \<Rightarrow> components h | None \<Rightarrow> components ''/'')"

definition raw_path :: "disk \<Rightarrow> path \<Rightarrow> string \<Rightarrow> path" where
  "raw_path d cwd p =
     (case strip_prefix ''~/'' p of
        Some rest \<Rightarrow> join_path (home_path d) rest
      | None \<Rightarrow> if p = ''~'' then home_path d else join_path cwd p)"

definition lexical_abs :: "disk \<Rightarrow> path \<Rightarrow> string \<Rightarrow> path" where
  "lexical_abs d cwd p = foldl push_component [] (raw_path d cwd p)"

subsection \<open>Resolution through the file system\<close>

function resolve_from :: "disk \<Rightarrow> path \<Rightarrow> path \<Rightarrow> path \<Rightarrow> path" where
  "resolve_from d whole probe rest =
     (if dk_exists d probe then unwrap_or probe (dk_canonical d probe) @ rest
      else if probe = [] \<or> probe = [RootDir] then whole
      else resolve_from d whole (butlast probe) (last probe # rest))"
  by auto

termination
  by (relation "measure (\<lambda>(d, whole, probe, rest). length probe)") auto

declare resolve_from.simps [simp del]

definition resolve_for_compare :: "disk \<Rightarrow> path \<Rightarrow> path" where
  "resolve_for_compare d p =
     (let whole = lexical_abs d [RootDir] (path_text p) in resolve_from d whole whole [])"

definition gitdir_line :: "string \<Rightarrow> string option" where
  "gitdir_line text =
     map_option (\<lambda>l. trim (unwrap_or [] (strip_prefix ''gitdir:'' l)))
       (find (\<lambda>l. strip_prefix ''gitdir:'' l \<noteq> None) (lines text))"

text \<open>A \<open>.git\<close> file: the git directory it names, and the common directory of that one.\<close>

definition linked_git_dirs :: "disk \<Rightarrow> path \<Rightarrow> path list" where
  "linked_git_dirs d dir =
     (case Option.bind (dk_read d (dir @ [Normal ''.git''])) gitdir_line of
        None \<Rightarrow> []
      | Some line \<Rightarrow>
          (let gd = resolve_for_compare d (join_path dir line) in
           case dk_read d (gd @ [Normal ''commondir'']) of
             None \<Rightarrow> [gd]
           | Some c \<Rightarrow>
               (let common = resolve_for_compare d (join_path gd (trim c))
                in if common = gd then [gd] else [gd, common])))"

function git_dirs_from :: "disk \<Rightarrow> path \<Rightarrow> path list" where
  "git_dirs_from d dir =
     (if dk_is_dir d (dir @ [Normal ''.git'']) then [resolve_for_compare d (dir @ [Normal ''.git''])]
      else if dk_is_file d (dir @ [Normal ''.git'']) then linked_git_dirs d dir
      else if dir = [] \<or> dir = [RootDir] then []
      else git_dirs_from d (butlast dir))"
  by auto

termination
  by (relation "measure (\<lambda>(d, dir). length dir)") auto

declare git_dirs_from.simps [simp del]

definition git_dirs_of :: "disk \<Rightarrow> path \<Rightarrow> path list" where
  "git_dirs_of d start = git_dirs_from d (resolve_for_compare d start)"

definition is_git_dir :: "disk \<Rightarrow> path \<Rightarrow> bool" where
  "is_git_dir d p \<longleftrightarrow>
     dk_is_file d (p @ [Normal ''HEAD'']) \<and> dk_is_dir d (p @ [Normal ''objects''])
     \<and> dk_is_dir d (p @ [Normal ''refs''])"

text \<open>\<open>Path::starts_with\<close>, by whole components.\<close>

definition path_within :: "path \<Rightarrow> path \<Rightarrow> bool" where
  "path_within p dir \<longleftrightarrow> take (length dir) p = dir"

subsection \<open>What lexical resolution gives\<close>

definition plain :: "path \<Rightarrow> bool" where
  "plain p \<longleftrightarrow> ParentDir \<notin> set p \<and> RootDir \<notin> set (tl p)"

lemma component_of_cases: "c \<in> set (component_of part) \<Longrightarrow> c = ParentDir \<or> c = Normal part"
  by (auto simp: component_of_def split: if_splits)

lemma no_root_parts: "RootDir \<notin> set (concat (map component_of parts))"
  by (auto dest: component_of_cases)

lemma components_root: "RootDir \<notin> set (tl (components p))"
proof -
  let ?cs = "concat (map component_of (split_on (CHR ''/'') p))"
  have "RootDir \<notin> set ?cs" by (rule no_root_parts)
  moreover from this have "RootDir \<notin> set (tl ?cs)" by (metis list.sel(2) list.set_sel(2))
  ultimately show ?thesis by (cases "is_absolute p") (simp_all only: components_def if_True if_False append_Nil append_Cons list.sel not_False_eq_True)
qed

lemma components_relative: "\<not> is_absolute p \<Longrightarrow> RootDir \<notin> set (components p)"
  using no_root_parts by (simp add: components_def)

lemma plain_Nil [simp]: "plain []"
  by (simp add: plain_def)

lemma plain_pop: "plain p \<Longrightarrow> plain (pop_path p)"
  by (auto simp: plain_def pop_path_def dest: in_set_butlastD) (metis butlast_tl in_set_butlastD)

lemma plain_push: "plain out \<Longrightarrow> c \<noteq> RootDir \<Longrightarrow> plain (push_component out c)"
  by (cases out) (auto simp: push_component_def plain_pop, simp_all add: plain_def)

lemma plain_pushes: "plain out \<Longrightarrow> RootDir \<notin> set cs \<Longrightarrow> plain (foldl push_component out cs)"
proof (induction cs arbitrary: out)
  case (Cons c cs)
  then have "c \<noteq> RootDir" by auto
  with Cons plain_push[of out c] show ?case by simp
qed simp

lemma root_pushes:
  "\<exists>rest. foldl push_component (RootDir # out) cs = RootDir # rest"
proof (induction cs arbitrary: out)
  case (Cons c cs)
  have "\<exists>rest. push_component (RootDir # out) c = RootDir # rest"
    by (auto simp: push_component_def pop_path_def)
  with Cons show ?case by auto
qed simp

text \<open>A path that starts at a root resolves to the root and plain names, whatever it climbs.\<close>

definition rooted_path :: "path \<Rightarrow> bool" where
  "rooted_path p \<longleftrightarrow> p \<noteq> [] \<and> hd p = RootDir \<and> RootDir \<notin> set (tl p)"

lemma rooted_components: "is_absolute p \<Longrightarrow> rooted_path (components p)"
  using no_root_parts by (simp add: rooted_path_def components_def)

lemma rooted_join: "rooted_path dir \<Longrightarrow> rooted_path (join_path dir p)"
  using rooted_components[of p]
  by (cases dir) (auto simp: join_path_def rooted_path_def components_relative)

lemma resolve_rooted:
  assumes "rooted_path raw"
  shows "plain (foldl push_component [] raw) \<and> foldl push_component [] raw \<noteq> []
    \<and> hd (foldl push_component [] raw) = RootDir"
proof -
  obtain cs where raw: "raw = RootDir # cs" "RootDir \<notin> set cs"
    using assms by (cases raw) (auto simp: rooted_path_def)
  have "foldl push_component [] raw = foldl push_component [RootDir] cs"
    by (simp add: raw(1) push_component_def)
  moreover have "plain [RootDir]" by (simp add: plain_def)
  ultimately show ?thesis using plain_pushes[OF _ raw(2)] root_pushes[of "[]" cs] by auto
qed

end
