(* ===== verification/Command_Policy.thy ===== *)
theory Command_Policy
  imports Policy_Paths
begin

text \<open>
  The command policy (\<open>crates/tillandsias-plan/src/command_policy.rs\<close>): the host kind, the built-in
  floor, the project's seed, which may only tighten it, and the decision for one request. A decision
  is its strictness, the rule that decided and the verdict line; the explanation and the remedy
  printed beside it are left out.
\<close>

subsection \<open>Host kinds\<close>

datatype host_kind = BareMetal | Forge | Ci

definition host_kind_parse :: "string \<Rightarrow> host_kind option" where
  "host_kind_parse s =
     (if s = ''bare-metal'' then Some BareMetal else if s = ''forge'' then Some Forge
      else if s = ''ci'' then Some Ci else None)"

fun host_kind_str :: "host_kind \<Rightarrow> string" where
  "host_kind_str BareMetal = ''bare-metal''"
| "host_kind_str Forge = ''forge''"
| "host_kind_str Ci = ''ci''"

definition all_host_kinds :: "host_kind list" where
  "all_host_kinds = [BareMetal, Forge, Ci]"

text \<open>How the variable and the container record disagree, one constructor per message.\<close>

datatype kind_disagreement =
  VariableAgainstImage string string
| NotAKindUnderImage string string
| SelfDeclaredForge string "string option"
| NotAKind string

record kind_reading =
  kr_kind :: host_kind
  kr_source :: string
  kr_disagreement :: "kind_disagreement option"

definition containerenv_image :: "string \<Rightarrow> string option" where
  "containerenv_image record_text =
     (case List.map_filter (\<lambda>l.
             case strip_prefix ''image='' (trim l) of
               None \<Rightarrow> None
             | Some v \<Rightarrow> (let v = trim_chars (\<lambda>c. c = CHR 34) v in if v = [] then None else Some v))
           (lines record_text) of
        [] \<Rightarrow> None
      | v # _ \<Rightarrow> Some v)"

definition before_first :: "char \<Rightarrow> string \<Rightarrow> string" where
  "before_first c s = takeWhile (\<lambda>x. x \<noteq> c) s"

definition after_last :: "(char \<Rightarrow> bool) \<Rightarrow> string \<Rightarrow> string" where
  "after_last P s = rev (takeWhile (\<lambda>c. \<not> P c) (rev s))"

definition is_forge_image :: "string \<Rightarrow> bool" where
  "is_forge_image img \<longleftrightarrow>
     before_first (CHR '':'') (after_last (\<lambda>c. c = CHR ''/'') (before_first (CHR ''@'') img))
       = ''tillandsias-forge''"

definition read_host_kind_from :: "string option \<Rightarrow> string option \<Rightarrow> kind_reading" where
  "read_host_kind_from env containerenv =
     (let env_kind = Option.bind env host_kind_parse;
          img = Option.bind containerenv containerenv_image
      in case (case img of Some i \<Rightarrow> if is_forge_image i then Some i else None | None \<Rightarrow> None) of
           Some i \<Rightarrow>
             \<lparr>kr_kind = Forge, kr_source = ''evidence'',
              kr_disagreement =
                (case (env, env_kind) of
                   (Some e, Some k) \<Rightarrow> if k \<noteq> Forge then Some (VariableAgainstImage e i) else None
                 | (Some e, None) \<Rightarrow> Some (NotAKindUnderImage e i)
                 | _ \<Rightarrow> None)\<rparr>
         | None \<Rightarrow>
             (let fallback = (if containerenv \<noteq> None then ''container-other'' else ''default'') in
              case (env, env_kind) of
                (Some e, Some k) \<Rightarrow>
                  (if k = Forge
                   then \<lparr>kr_kind = BareMetal, kr_source = fallback,
                         kr_disagreement = Some (SelfDeclaredForge e img)\<rparr>
                   else \<lparr>kr_kind = k, kr_source = ''env'', kr_disagreement = None\<rparr>)
              | (Some e, None) \<Rightarrow>
                  \<lparr>kr_kind = BareMetal, kr_source = fallback, kr_disagreement = Some (NotAKind e)\<rparr>
              | (None, _) \<Rightarrow>
                  \<lparr>kr_kind = BareMetal, kr_source = fallback, kr_disagreement = None\<rparr>))"

subsection \<open>Requests and decisions\<close>

record request =
  rq_argv :: "string list"
  rq_cwd :: string
  rq_workspace :: string
  rq_host_kind :: host_kind
  rq_regime :: string
  rq_env :: "(string \<times> string) list"

datatype strictness = Allow | Consent | Deny

fun strictness_level :: "strictness \<Rightarrow> nat" where
  "strictness_level Allow = 0"
| "strictness_level Consent = 1"
| "strictness_level Deny = 2"

instantiation strictness :: linorder
begin

definition less_eq_strictness :: "strictness \<Rightarrow> strictness \<Rightarrow> bool" where
  "a \<le> b \<longleftrightarrow> strictness_level a \<le> strictness_level b"

definition less_strictness :: "strictness \<Rightarrow> strictness \<Rightarrow> bool" where
  "a < b \<longleftrightarrow> strictness_level a < strictness_level b"

instance
proof
  fix a b :: strictness
  show "a \<le> b \<Longrightarrow> b \<le> a \<Longrightarrow> a = b"
    by (cases a; cases b) (auto simp: less_eq_strictness_def)
qed (auto simp: less_eq_strictness_def less_strictness_def)

end

definition strictness_parse :: "string \<Rightarrow> strictness option" where
  "strictness_parse s =
     (if s = ''allow'' then Some Allow else if s = ''consent'' then Some Consent
      else if s = ''deny'' then Some Deny else None)"

record decision =
  de_strictness :: strictness
  de_rule :: string
  de_token :: string

definition exit_status :: "decision \<Rightarrow> int" where
  "exit_status d = (case de_strictness d of Allow \<Rightarrow> 0 | Deny \<Rightarrow> 1 | Consent \<Rightarrow> 4)"

definition allow :: "string \<Rightarrow> string \<Rightarrow> decision" where
  "allow rule tok = \<lparr>de_strictness = Allow, de_rule = rule, de_token = tok\<rparr>"

definition deny :: "string \<Rightarrow> string \<Rightarrow> decision" where
  "deny rule tok = \<lparr>de_strictness = Deny, de_rule = rule, de_token = tok\<rparr>"

definition consent :: "string \<Rightarrow> decision" where
  "consent rule = \<lparr>de_strictness = Consent, de_rule = rule, de_token = ''consent:policy:'' @ rule\<rparr>"

subsection \<open>Reading an argument vector\<close>

definition program_name :: "string \<Rightarrow> string" where
  "program_name argv0 =
     (let lower = to_ascii_lowercase (after_last (\<lambda>c. c = CHR ''/'' \<or> c = CHR 92) argv0)
      in if ends_with ''.exe'' lower then take (length lower - 4) lower else lower)"

fun positional_words :: "string list \<Rightarrow> string list \<Rightarrow> string list" where
  "positional_words value_flags [] = []"
| "positional_words value_flags (a # rest) =
     (if a = ''--'' then rest
      else if starts_with ''-'' a \<and> 1 < length a
      then positional_words value_flags (if a \<in> set value_flags then drop 1 rest else rest)
      else a # positional_words value_flags rest)"

definition git_value_flags :: "string list" where
  "git_value_flags = [''-C'', ''-c'', ''--git-dir'', ''--work-tree'', ''--namespace'']"

definition gh_value_flags :: "string list" where
  "gh_value_flags = [''-R'', ''--repo'', ''--hostname'', ''-h'']"

definition podman_value_flags :: "string list" where
  "podman_value_flags =
     [''--root'', ''--runroot'', ''--url'', ''--connection'', ''-c'', ''--log-level'',
      ''--storage-driver'', ''--cgroup-manager'', ''--identity'']"

definition shell_programs :: "string list" where
  "shell_programs =
     [''sh'', ''bash'', ''dash'', ''zsh'', ''ksh'', ''fish'', ''cmd'', ''powershell'', ''pwsh'']"

definition shell_string_flags :: "string list" where
  "shell_string_flags = [''-c'', ''-lc'', ''-ic'', ''/c'', ''/k'', ''-command'', ''-encodedcommand'']"

definition is_shell_string_call :: "string list \<Rightarrow> bool" where
  "is_shell_string_call argv =
     (case argv of
        [] \<Rightarrow> False
      | prog # args \<Rightarrow>
          program_name prog \<in> set shell_programs
          \<and> list_ex (\<lambda>a. to_ascii_lowercase a \<in> set shell_string_flags) args)"

text \<open>The words agree with a prefix.\<close>

definition words_start :: "string list \<Rightarrow> string list \<Rightarrow> bool" where
  "words_start want w \<longleftrightarrow> length want \<le> length w \<and> take (length want) w = want"

subsection \<open>The floor\<close>

definition floor_rules :: "string list" where
  "floor_rules =
     [''no-shell-strings'', ''no-credential-mutation'', ''no-self-consent'', ''hard-reset'',
      ''soft-reset'', ''workspace-destroy'', ''force-push'']"

datatype reset_kind = HardReset | SoftReset

definition reset_class :: "string list \<Rightarrow> reset_kind option" where
  "reset_class argv =
     (let prog = program_name (hd argv); args = tl argv; has = (\<lambda>f. f \<in> set args) in
      if prog = ''tillandsias'' then
        (if has ''--reset-state'' \<or> has ''--reset-guest'' then Some SoftReset else None)
      else if prog = ''tillandsias-tray'' then
        (if has ''--reset-guest'' then Some HardReset
         else if has ''--reset-state'' then Some SoftReset else None)
      else if prog = ''podman'' then
        (if words_start [''system'', ''reset''] (positional_words podman_value_flags args)
         then Some SoftReset else None)
      else if prog = ''wsl'' \<and> has ''--unregister'' then Some HardReset
      else None)"

definition is_consent_grant :: "string list \<Rightarrow> bool" where
  "is_consent_grant argv \<longleftrightarrow>
     program_name (hd argv) = ''tillandsias-plan''
     \<and> words_start [''policy'', ''consent'', ''grant''] (positional_words [''--index''] (tl argv))"

definition is_credential_mutation :: "string list \<Rightarrow> bool" where
  "is_credential_mutation argv \<longleftrightarrow>
     (let prog = program_name (hd argv); args = tl argv in
      if prog = ''gh'' then
        (case positional_words gh_value_flags args of
           a # b # _ \<Rightarrow> a = ''auth'' \<and> b \<in> {''login'', ''refresh'', ''logout'', ''token''}
         | _ \<Rightarrow> False)
      else if prog = ''git'' then
        (case positional_words git_value_flags args of
           a # b # _ \<Rightarrow> a = ''credential'' \<and> b \<in> {''approve'', ''reject''}
         | _ \<Rightarrow> False)
      else if prog = ''vault'' then words_start [''login''] (positional_words [] args)
      else False)"

text \<open>\<open>rm\<close>'s recursive flag and its targets, in the order of the loop over the arguments.\<close>

fun rm_scan :: "bool \<Rightarrow> string list \<Rightarrow> bool \<times> string list" where
  "rm_scan after_dd [] = (False, [])"
| "rm_scan after_dd (a # args) =
     (if \<not> after_dd \<and> a = ''--'' then rm_scan True args
      else if \<not> after_dd \<and> starts_with ''--'' a then
        (let (r, ts) = rm_scan after_dd args in (a = ''--recursive'' \<or> r, ts))
      else if \<not> after_dd \<and> starts_with ''-'' a \<and> 1 < length a then
        (let (r, ts) = rm_scan after_dd args in (CHR ''r'' \<in> set (tl a) \<or> CHR ''R'' \<in> set (tl a) \<or> r, ts))
      else (let (r, ts) = rm_scan after_dd args in (r, a # ts)))"

definition destroy_target :: "disk \<Rightarrow> request \<Rightarrow> path option" where
  "destroy_target d req =
     (if program_name (hd (rq_argv req)) \<noteq> ''rm'' then None
      else
        (let (recursive, targets) = rm_scan False (tl (rq_argv req));
             ws = lexical_abs d [RootDir] (rq_workspace req)
         in if \<not> recursive then None
            else find (\<lambda>p. p = ws \<or> \<not> path_within p ws)
                   (map (lexical_abs d (components (rq_cwd req))) targets)))"

definition push_target :: "string \<Rightarrow> string" where
  "push_target spec =
     (let dst = after_last (\<lambda>c. c = CHR '':'') (dropWhile (\<lambda>c. c = CHR ''+'') spec)
      in unwrap_or dst (strip_prefix ''refs/heads/'' dst))"

definition force_flag :: "string list \<Rightarrow> bool" where
  "force_flag args \<longleftrightarrow>
     list_ex (\<lambda>a. a = ''-f'' \<or> a = ''--force'' \<or> starts_with ''--force-with-lease'' a \<or> a = ''--mirror'') args"

definition force_push_target :: "string list \<Rightarrow> string list \<Rightarrow> string option" where
  "force_push_target protected argv =
     (if program_name (hd argv) \<noteq> ''git'' then None
      else
        (let args = tl argv; w = positional_words git_value_flags args in
         if \<not> words_start [''push''] w then None
         else map_option push_target
                (find (\<lambda>spec. (force_flag args \<or> starts_with ''+'' spec) \<and> push_target spec \<in> set protected)
                  (drop 2 w))))"

definition reset_decision :: "reset_kind \<Rightarrow> host_kind \<Rightarrow> decision" where
  "reset_decision cls kind =
     (case cls of
        HardReset \<Rightarrow>
          (if kind = Forge then deny ''hard-reset'' ''refused:policy:hard-reset:not-grantable-in-forge''
           else consent ''hard-reset'')
      | SoftReset \<Rightarrow>
          (if kind = Forge then allow ''soft-reset'' ''ok:policy:soft-reset:forge-preauthorised''
           else consent ''soft-reset''))"

definition floor_decide :: "disk \<Rightarrow> string list \<Rightarrow> request \<Rightarrow> decision option" where
  "floor_decide d protected req =
     (let argv = rq_argv req in
      if argv = [] then None
      else if is_shell_string_call argv then
        Some (deny ''no-shell-strings'' ''refused:policy:no-shell-strings'')
      else if is_credential_mutation argv then
        Some (deny ''no-credential-mutation'' ''refused:policy:no-credential-mutation'')
      else if is_consent_grant argv then
        Some (deny ''no-self-consent'' ''refused:policy:no-self-consent'')
      else
        (case reset_class argv of
           Some cls \<Rightarrow> Some (reset_decision cls (rq_host_kind req))
         | None \<Rightarrow>
             if destroy_target d req \<noteq> None then Some (consent ''workspace-destroy'')
             else if force_push_target protected argv \<noteq> None then Some (consent ''force-push'')
             else None))"

end
