(* ===== verification/Policy_Seed.thy ===== *)
theory Policy_Seed
  imports Command_Policy
begin

text \<open>
  The fixture regime, the project's seed and the decision for a request
  (\<open>crates/tillandsias-plan/src/command_policy.rs\<close>).
\<close>

subsection \<open>The fixture regime\<close>

definition fixture_rules :: "string list" where
  "fixture_rules = [''fixture-writes-outside-scope'', ''fixture-gate-stamp-write'']"

record fixture_scope =
  fx_roots :: "path list"
  fx_git_dirs :: "path list"

text \<open>A list variable of the environment: its absolute entries, resolved.\<close>

definition path_list :: "disk \<Rightarrow> string option \<Rightarrow> path list" where
  "path_list d v =
     (case v of
        None \<Rightarrow> []
      | Some s \<Rightarrow> map (\<lambda>p. resolve_for_compare d (components p))
                    (filter is_absolute (split_on (CHR '':'') s)))"

definition scope_from_env :: "disk \<Rightarrow> string option \<Rightarrow> string option \<Rightarrow> string \<Rightarrow> fixture_scope" where
  "scope_from_env d scope_var git_dirs_var workspace =
     (let git_dirs = path_list d git_dirs_var
      in \<lparr>fx_roots = path_list d scope_var,
          fx_git_dirs = (if git_dirs = [] then git_dirs_of d (components workspace) else git_dirs)\<rparr>)"

definition outside_scope :: decision where
  "outside_scope = deny ''fixture-writes-outside-scope'' ''refused:policy:fixture-writes-outside-scope''"

definition fixture_write_decision :: "disk \<Rightarrow> path \<Rightarrow> fixture_scope \<Rightarrow> decision option" where
  "fixture_write_decision d target scope =
     (let t = resolve_for_compare d target in
      if list_ex (path_within t) (fx_git_dirs scope) then Some outside_scope
      else if fx_roots scope \<noteq> [] \<and> \<not> list_ex (path_within t) (fx_roots scope) then Some outside_scope
      else None)"

definition touches_real :: "disk \<Rightarrow> fixture_scope \<Rightarrow> path \<Rightarrow> bool" where
  "touches_real d scope cwd \<longleftrightarrow> list_ex (\<lambda>g. g \<in> set (fx_git_dirs scope)) (git_dirs_of d cwd)"

text \<open>Where \<open>gate-stamp.sh\<close> stands in the vector, run directly or by a shell.\<close>

definition stamp_script_at :: "string list \<Rightarrow> nat option" where
  "stamp_script_at argv =
     (let prog = program_name (hd argv) in
      if prog = ''gate-stamp.sh'' then Some 0
      else if prog \<in> {''bash'', ''sh'', ''zsh''} then
        (case find (\<lambda>i. ends_with ''gate-stamp.sh'' (argv ! i)) [0..<length argv] of
           Some i \<Rightarrow> if 0 < i then Some i else None
         | None \<Rightarrow> None)
      else None)"

definition stamp_write :: "string list \<Rightarrow> bool" where
  "stamp_write argv \<longleftrightarrow>
     (case stamp_script_at argv of
        None \<Rightarrow> False
      | Some i \<Rightarrow> Suc i < length argv \<and> argv ! Suc i = ''write'')"

definition assignment :: "string \<Rightarrow> (string \<times> string) option" where
  "assignment w =
     (case split_once (CHR ''='') w of
        None \<Rightarrow> None
      | Some (k, v) \<Rightarrow>
          (if k \<noteq> [] \<and> list_all (\<lambda>c. is_ascii_alphanumeric c \<or> c = CHR ''_'') k then Some (k, v) else None))"

fun skip_env_options :: "string list \<Rightarrow> string list" where
  "skip_env_options [] = []"
| "skip_env_options (a # rest) =
     (if a \<in> {''-u'', ''--unset'', ''-C'', ''--chdir''} then skip_env_options (drop 1 rest)
      else if a = ''--'' then rest
      else if starts_with ''-'' a \<and> 1 < length a then skip_env_options rest
      else a # rest)"

fun take_assignments :: "string list \<Rightarrow> (string \<times> string) list \<times> string list" where
  "take_assignments [] = ([], [])"
| "take_assignments (w # ws) =
     (case assignment w of
        None \<Rightarrow> ([], w # ws)
      | Some kv \<Rightarrow> (let (env, rest) = take_assignments ws in (kv # env, rest)))"

text \<open>The vector that an \<open>env\<close> prefix really runs (empty for none), and its assignments.\<close>

definition env_prefix :: "string list \<Rightarrow> string list \<times> (string \<times> string) list" where
  "env_prefix argv =
     (let after = (case argv of
                     [] \<Rightarrow> []
                   | a # rest \<Rightarrow> if program_name a = ''env'' then skip_env_options rest else argv);
          (env, rest) = take_assignments after
      in (rest, env))"

text \<open>The arms of the loop over git's options.\<close>

datatype git_arm = ChangeDir | GitDirFlag | ValueFlag | GitDirEquals string | PlainFlag | Subcommand

definition git_arm_of :: "string \<Rightarrow> git_arm" where
  "git_arm_of a =
     (if a = ''-C'' then ChangeDir
      else if a = ''--git-dir'' then GitDirFlag
      else if a \<in> set git_value_flags \<or> a \<in> {''--exec-path'', ''--config-env'', ''--super-prefix''}
      then ValueFlag
      else if starts_with ''--git-dir='' a then GitDirEquals (drop 10 a)
      else if starts_with ''-'' a then PlainFlag
      else Subcommand)"

text \<open>The directory the options lead to, the git directory they name, the subcommand.\<close>

fun git_options :: "disk \<Rightarrow> path \<Rightarrow> path option \<Rightarrow> string list \<Rightarrow> path \<times> path option \<times> string option" where
  "git_options d cwd git_dir [] = (cwd, git_dir, None)"
| "git_options d cwd git_dir (a # rest) =
     (case git_arm_of a of
        ChangeDir \<Rightarrow>
          git_options d (case rest of [] \<Rightarrow> cwd | p # _ \<Rightarrow> lexical_abs d cwd p) git_dir (drop 1 rest)
      | GitDirFlag \<Rightarrow>
          git_options d cwd (case rest of [] \<Rightarrow> git_dir | p # _ \<Rightarrow> Some (lexical_abs d cwd p)) (drop 1 rest)
      | ValueFlag \<Rightarrow> git_options d cwd git_dir (drop 1 rest)
      | GitDirEquals p \<Rightarrow> git_options d cwd (Some (lexical_abs d cwd p)) rest
      | PlainFlag \<Rightarrow> git_options d cwd git_dir rest
      | Subcommand \<Rightarrow> (cwd, git_dir, Some a))"

definition env_var :: "(string \<times> string) list \<Rightarrow> string \<Rightarrow> string option" where
  "env_var env name = map_option snd (find (\<lambda>(k, _). k = name) (rev env))"

definition git_on_real :: "disk \<Rightarrow> fixture_scope \<Rightarrow> request \<Rightarrow> bool" where
  "git_on_real d scope req =
     (let (run_argv, own_env) = env_prefix (rq_argv req) in
      case run_argv of
        [] \<Rightarrow> False
      | prog # args \<Rightarrow>
          (if program_name prog \<noteq> ''git'' then False
           else
             (let env = own_env @ rq_env req;
                  (cwd, dir_flag, sub) = git_options d (components (rq_cwd req)) None args;
                  git_dir = (if dir_flag \<noteq> None then dir_flag
                             else map_option (lexical_abs d cwd) (env_var env ''GIT_DIR''));
                  common = map_option (lexical_abs d cwd) (env_var env ''GIT_COMMON_DIR'');
                  named_real = (\<lambda>g. resolve_for_compare d g \<in> set (fx_git_dirs scope))
              in sub \<in> {Some ''update-ref'', Some ''push''}
                 \<and> ((case common of None \<Rightarrow> False | Some g \<Rightarrow> named_real g)
                    \<or> (case git_dir of
                         Some g \<Rightarrow> named_real g
                       | None \<Rightarrow> if is_git_dir d cwd then named_real cwd else touches_real d scope cwd)))))"

definition fixture_decide :: "disk \<Rightarrow> fixture_scope \<Rightarrow> request \<Rightarrow> decision option" where
  "fixture_decide d scope req =
     (let argv = rq_argv req; cwd = components (rq_cwd req) in
      if argv = [] then None
      else if stamp_write argv \<and> touches_real d scope cwd then
        Some (deny ''fixture-gate-stamp-write'' ''refused:policy:fixture-gate-stamp-write'')
      else if git_on_real d scope req then Some outside_scope
      else if program_name (hd argv) = ''rm'' then
        (case List.map_filter (\<lambda>a. fixture_write_decision d (lexical_abs d cwd a)
                                     \<lparr>fx_roots = [], fx_git_dirs = fx_git_dirs scope\<rparr>)
                (filter (\<lambda>a. \<not> starts_with ''-'' a) (tl argv)) of
           [] \<Rightarrow> None
         | x # _ \<Rightarrow> Some x)
      else None)"

subsection \<open>The seed\<close>

datatype default_policy = DefaultAllow | DefaultDeny | DenyAfterQuietDays nat

record seed_rule =
  sr_id :: string
  sr_program :: string
  sr_args :: "string list"
  sr_any_arg :: "string list"
  sr_decision :: strictness
  sr_host_kinds :: "host_kind list"

definition applies_to :: "seed_rule \<Rightarrow> host_kind \<Rightarrow> bool" where
  "applies_to r k \<longleftrightarrow> sr_host_kinds r = [] \<or> k \<in> set (sr_host_kinds r)"

definition rule_matches :: "seed_rule \<Rightarrow> request \<Rightarrow> bool" where
  "rule_matches r req \<longleftrightarrow>
     (case rq_argv req of
        [] \<Rightarrow> False
      | prog # args \<Rightarrow>
          applies_to r (rq_host_kind req) \<and> program_name prog = sr_program r
          \<and> (sr_args r = [] \<or> words_start (sr_args r) (positional_words [] args) \<or> words_start (sr_args r) args)
          \<and> (sr_any_arg r = [] \<or> list_ex (\<lambda>a. a \<in> set (sr_any_arg r)) args))"

definition synth_argv :: "seed_rule \<Rightarrow> string list" where
  "synth_argv r =
     (let v = sr_program r # sr_args r in
      case sr_any_arg r of
        [] \<Rightarrow> v
      | a # _ \<Rightarrow> if a \<notin> set v then v @ [a] else v)"

record seed =
  sd_default :: default_policy
  sd_rules :: "seed_rule list"

fun as_strings :: "string \<Rightarrow> yaml list \<Rightarrow> string + string list" where
  "as_strings what [] = Inr []"
| "as_strings what (x # xs) =
     (case as_str x of
        None \<Rightarrow> Inl (''invalid:'' @ what @ ''-not-strings'')
      | Some s \<Rightarrow> map_sum id ((#) s) (as_strings what xs))"

definition seed_str_list :: "yaml option \<Rightarrow> string \<Rightarrow> string + string list" where
  "seed_str_list v what =
     (case v of
        None \<Rightarrow> Inr []
      | Some YNull \<Rightarrow> Inr []
      | Some (YSequence s) \<Rightarrow> as_strings what s
      | Some _ \<Rightarrow> Inl (''invalid:'' @ what @ ''-not-a-list''))"

fun parse_kinds :: "string list \<Rightarrow> string + host_kind list" where
  "parse_kinds [] = Inr []"
| "parse_kinds (s # ss) =
     (case host_kind_parse s of
        None \<Rightarrow> Inl (''invalid:host-kind:'' @ s)
      | Some k \<Rightarrow> map_sum id ((#) k) (parse_kinds ss))"

fun sum_bind :: "'e + 'a \<Rightarrow> ('a \<Rightarrow> 'e + 'b) \<Rightarrow> 'e + 'b" where
  "sum_bind (Inl e) f = Inl e"
| "sum_bind (Inr a) f = f a"

definition or_error :: "'e \<Rightarrow> 'a option \<Rightarrow> 'e + 'a" where
  "or_error e v = (case v of None \<Rightarrow> Inl e | Some a \<Rightarrow> Inr a)"

definition unknown_key :: "string list \<Rightarrow> (yaml \<times> yaml) list \<Rightarrow> string option" where
  "unknown_key known m = find (\<lambda>k. k \<notin> set known) (map (\<lambda>(k, _). unwrap_or [] (as_str k)) m)"

definition rule_keys :: "string list" where
  "rule_keys =
     [''id'', ''program'', ''args'', ''any_arg'', ''decision'', ''host_kinds'', ''why'', ''remedy'']"

definition parse_rule :: "yaml \<Rightarrow> string + seed_rule" where
  "parse_rule r =
     sum_bind (or_error ''invalid:rule-not-a-mapping'' (as_mapping r)) (\<lambda>m.
     case unknown_key rule_keys m of
       Some k \<Rightarrow> Inl (''invalid:rule-unknown-key:'' @ k)
     | None \<Rightarrow>
         sum_bind (or_error ''invalid:rule-without-id''
             (case get_str r ''id'' of Some s \<Rightarrow> if s = [] then None else Some s | None \<Rightarrow> None)) (\<lambda>i.
         sum_bind (or_error (''invalid:rule-without-program:'' @ i)
             (map_option program_name (get_str r ''program''))) (\<lambda>program.
         sum_bind (or_error (''invalid:rule-decision:'' @ i)
             (Option.bind (get_str r ''decision'') strictness_parse)) (\<lambda>decision.
         sum_bind (sum_bind (seed_str_list (yget r ''host_kinds'') ''host_kinds'') parse_kinds) (\<lambda>kinds.
         sum_bind (seed_str_list (yget r ''args'') ''args'') (\<lambda>args.
         sum_bind (seed_str_list (yget r ''any_arg'') ''any_arg'') (\<lambda>any_arg.
         Inr \<lparr>sr_id = i, sr_program = program, sr_args = args, sr_any_arg = any_arg,
              sr_decision = decision, sr_host_kinds = kinds\<rparr>)))))))"

fun parse_rules :: "yaml list \<Rightarrow> string + seed_rule list" where
  "parse_rules [] = Inr []"
| "parse_rules (r # rs) = sum_bind (parse_rule r) (\<lambda>x. map_sum id ((#) x) (parse_rules rs))"

definition parse_default :: "yaml option \<Rightarrow> string + default_policy" where
  "parse_default v =
     (case v of
        None \<Rightarrow> Inr DefaultAllow
      | Some YNull \<Rightarrow> Inr DefaultAllow
      | Some (YString s) \<Rightarrow>
          (if s = ''allow'' then Inr DefaultAllow else if s = ''deny'' then Inr DefaultDeny
           else Inl ''invalid:default'')
      | Some (YMapping m) \<Rightarrow>
          (case Option.bind (map_of m (YString ''deny_after_quiet_days'')) as_u64 of
             None \<Rightarrow> Inl ''invalid:default''
           | Some n \<Rightarrow>
               (if \<not> (1 \<le> n \<and> n \<le> 365) \<or> length m \<noteq> 1 then Inl ''invalid:default''
                else Inr (DenyAfterQuietDays n)))
      | Some _ \<Rightarrow> Inl ''invalid:default'')"

definition parse_seed :: "(string \<Rightarrow> string + yaml) \<Rightarrow> string \<Rightarrow> string + seed" where
  "parse_seed parse_yaml text =
     (case parse_yaml text of
        Inl _ \<Rightarrow> Inl ''unparseable''
      | Inr doc \<Rightarrow>
          sum_bind (or_error ''invalid:not-a-mapping'' (as_mapping doc)) (\<lambda>m.
          case unknown_key [''version'', ''default'', ''rules''] m of
            Some k \<Rightarrow> Inl (''invalid:unknown-key:'' @ k)
          | None \<Rightarrow>
              (if Option.bind (yget doc ''version'') as_u64 \<noteq> Some 1 then Inl ''invalid:version''
               else
                 sum_bind (parse_default (yget doc ''default'')) (\<lambda>default_policy.
                 sum_bind (case yget doc ''rules'' of
                             None \<Rightarrow> Inr []
                           | Some rs \<Rightarrow> sum_bind (or_error ''invalid:rules-not-a-list'' (as_sequence rs)) parse_rules) (\<lambda>rules.
                 Inr \<lparr>sd_default = default_policy, sd_rules = rules\<rparr>)))))"

subsection \<open>The seed may only tighten\<close>

definition described_request :: "seed_rule \<Rightarrow> string \<Rightarrow> host_kind \<Rightarrow> request" where
  "described_request r workspace k =
     \<lparr>rq_argv = synth_argv r, rq_cwd = workspace, rq_workspace = workspace, rq_host_kind = k,
      rq_regime = ''interactive'', rq_env = []\<rparr>"

definition loosened_rule :: "disk \<Rightarrow> string list \<Rightarrow> string \<Rightarrow> seed_rule \<Rightarrow> string option" where
  "loosened_rule d protected workspace r =
     (case List.map_filter (\<lambda>k.
             if \<not> applies_to r k then None
             else (case floor_decide d protected (described_request r workspace k) of
                     Some f \<Rightarrow> if sr_decision r < de_strictness f then Some (de_rule f) else None
                   | None \<Rightarrow> None))
           all_host_kinds of
        rule # _ \<Rightarrow> Some rule
      | [] \<Rightarrow>
          (if (sr_id r \<in> set floor_rules \<or> sr_id r \<in> set fixture_rules) \<and> sr_decision r = Allow
           then Some (sr_id r) else None))"

definition check_cannot_loosen :: "disk \<Rightarrow> string list \<Rightarrow> string \<Rightarrow> seed \<Rightarrow> string + unit" where
  "check_cannot_loosen d protected workspace sd =
     (case List.map_filter (loosened_rule d protected workspace) (sd_rules sd) of
        rule # _ \<Rightarrow> Inl (''cannot-loosen:'' @ rule)
      | [] \<Rightarrow> Inr ())"

datatype seed_load = Absent | Loaded nat | Refused string

definition seed_verdict :: "seed_load \<Rightarrow> string" where
  "seed_verdict l =
     (case l of
        Absent \<Rightarrow> ''ok:policy-seed:absent''
      | Loaded n \<Rightarrow> ''ok:policy-seed:loaded:'' @ show_nat n @ ''-rules''
      | Refused r \<Rightarrow> ''refused:policy-seed:'' @ r)"

text \<open>What reading the seed file gave; a file that is missing, link included, is an absent seed
  only when its path was not given.\<close>

datatype seed_file = SeedText string | SeedMissing | SeedUnreadable

definition load_seed ::
  "disk \<Rightarrow> (string \<Rightarrow> string + yaml) \<Rightarrow> string list \<Rightarrow> string \<Rightarrow> bool \<Rightarrow> seed_file \<Rightarrow> seed option \<times> seed_load" where
  "load_seed d parse_yaml protected root explicit_path file =
     (case file of
        SeedText text \<Rightarrow>
          (case parse_seed parse_yaml text of
             Inl e \<Rightarrow> (None, Refused e)
           | Inr sd \<Rightarrow>
               (case check_cannot_loosen d protected root sd of
                  Inl e \<Rightarrow> (None, Refused e)
                | Inr _ \<Rightarrow> (Some sd, Loaded (length (sd_rules sd)))))
      | SeedMissing \<Rightarrow> if explicit_path then (None, Refused ''unreadable'') else (None, Absent)
      | SeedUnreadable \<Rightarrow> (None, Refused ''unreadable''))"

subsection \<open>The decision\<close>

definition rule_decision :: "seed_rule \<Rightarrow> decision" where
  "rule_decision r =
     (case sr_decision r of
        Allow \<Rightarrow> allow (sr_id r) (''ok:policy:allow:'' @ sr_id r)
      | Deny \<Rightarrow> deny (sr_id r) (''refused:policy:'' @ sr_id r)
      | Consent \<Rightarrow> consent (sr_id r))"

definition tighten :: "decision option \<Rightarrow> seed_rule \<Rightarrow> decision option" where
  "tighten best r =
     (let stricter = (case best of None \<Rightarrow> True | Some b \<Rightarrow> de_strictness b < sr_decision r)
      in if stricter then Some (rule_decision r) else best)"

definition default_decision :: "seed option \<Rightarrow> decision" where
  "default_decision sd =
     (case map_option sd_default sd of
        Some DefaultDeny \<Rightarrow> deny ''default-deny'' ''refused:policy:default-deny''
      | _ \<Rightarrow> allow ''default'' ''ok:policy:allow:default'')"

definition decide :: "disk \<Rightarrow> fixture_scope \<Rightarrow> string list \<Rightarrow> seed option \<Rightarrow> request \<Rightarrow> decision" where
  "decide d scope protected sd req =
     (case (if rq_regime req = ''fixture'' then fixture_decide d scope req else None) of
        Some x \<Rightarrow> x
      | None \<Rightarrow>
          (let rules = (case sd of None \<Rightarrow> [] | Some s \<Rightarrow> filter (\<lambda>r. rule_matches r req) (sd_rules s)) in
           case foldl tighten (floor_decide d protected req) rules of
             Some x \<Rightarrow> x
           | None \<Rightarrow> default_decision sd))"

definition decide_loaded ::
  "disk \<Rightarrow> fixture_scope \<Rightarrow> string list \<Rightarrow> seed option \<Rightarrow> seed_load \<Rightarrow> request \<Rightarrow> decision" where
  "decide_loaded d scope protected sd load req =
     (case load of
        Refused _ \<Rightarrow> deny ''policy-seed'' (seed_verdict load)
      | _ \<Rightarrow> decide d scope protected sd req)"

end
