(* ===== verification/Bash_Lex.thy ===== *)
theory Bash_Lex
  imports Policy_Seed
begin

text \<open>
  The lexer of the bridge that reads shell text (\<open>crates/tillandsias-plan/src/bash_policy.rs\<close>): words
  with their quotes, the operators between commands, the bodies of heredocs. Its inverse on quoted
  words is \<open>show_command\<close>.
\<close>

subsection \<open>The lexer\<close>

text \<open>The word being read is \<open>None\<close> between words. A pending heredoc has its delimiter, whether that was
  quoted, and whether tabs are stripped.\<close>

record lexer =
  lx_word :: "string option"
  lx_stage :: "string list"
  lx_pipeline :: "string list list"
  lx_pipelines :: "string list list list"
  lx_heredocs :: "(bool \<times> string) list"
  lx_pending :: "(string \<times> bool \<times> bool) list"
  lx_expect :: "bool option"

definition add_text :: "string \<Rightarrow> lexer \<Rightarrow> lexer" where
  "add_text t st = st\<lparr>lx_word := Some (unwrap_or [] (lx_word st) @ t)\<rparr>"

definition end_word :: "lexer \<Rightarrow> lexer" where
  "end_word st =
     (case lx_word st of
        None \<Rightarrow> st
      | Some w \<Rightarrow> st\<lparr>lx_word := None, lx_stage := lx_stage st @ [w]\<rparr>)"

definition quote_char :: "char \<Rightarrow> bool" where
  "quote_char c \<longleftrightarrow> c = CHR 39 \<or> c = CHR 34 \<or> c = CHR 92"

text \<open>The end of a word, which is the delimiter right after a heredoc operator.\<close>

definition finish_word :: "lexer \<Rightarrow> lexer" where
  "finish_word st =
     (case (lx_word st, lx_expect st) of
        (Some w, Some strip) \<Rightarrow>
          st\<lparr>lx_word := None, lx_expect := None,
             lx_pending := lx_pending st @ [(filter (\<lambda>c. \<not> quote_char c) w, list_ex quote_char w, strip)]\<rparr>
      | _ \<Rightarrow> end_word st)"

definition flush_stage :: "lexer \<Rightarrow> lexer" where
  "flush_stage st =
     (if lx_stage st = [] then st
      else st\<lparr>lx_stage := [], lx_pipeline := lx_pipeline st @ [lx_stage st]\<rparr>)"

definition flush_pipeline :: "lexer \<Rightarrow> lexer" where
  "flush_pipeline st =
     (if lx_pipeline st = [] then st
      else st\<lparr>lx_pipeline := [], lx_pipelines := lx_pipelines st @ [lx_pipeline st]\<rparr>)"

text \<open>The text up to a character, and what follows that character.\<close>

definition until_char :: "char \<Rightarrow> string \<Rightarrow> string \<times> string" where
  "until_char c s = (takeWhile (\<lambda>x. x \<noteq> c) s, drop 1 (dropWhile (\<lambda>x. x \<noteq> c) s))"

function double_quoted :: "string \<Rightarrow> string \<times> string" where
  "double_quoted [] = ([], [])"
| "double_quoted (c # s) =
     (if c = CHR 34 then ([], s)
      else if c = CHR 92 \<and> s \<noteq> [] then apfst (\<lambda>b. c # hd s # b) (double_quoted (tl s))
      else apfst ((#) c) (double_quoted s))"
  by pat_completeness auto

termination
  by (relation "measure length") auto

fun paren_text :: "nat \<Rightarrow> string \<Rightarrow> string \<times> string" where
  "paren_text depth [] = ([], [])"
| "paren_text depth (c # s) =
     (if c = CHR ''('' then apfst ((#) c) (paren_text (Suc depth) s)
      else if c = CHR '')'' \<and> depth = 1 then ([c], s)
      else apfst ((#) c) (paren_text (if c = CHR '')'' then depth - 1 else depth) s))"

lemma until_char_shorter: "length (snd (until_char c s)) \<le> length s"
  using length_dropWhile_le[of "\<lambda>x. x \<noteq> c" s] by (simp add: until_char_def)

lemma until_char_shorter_Cons: "length (snd (until_char c (x # s))) \<le> length s"
  using length_dropWhile_le[of "\<lambda>y. y \<noteq> c" s] by (auto simp: until_char_def)

function heredoc_body :: "string \<Rightarrow> bool \<Rightarrow> string \<Rightarrow> string \<times> string" where
  "heredoc_body delim strip [] = ([], [])"
| "heredoc_body delim strip (c # s) =
     (let line = fst (until_char (CHR 10) (c # s)); rest = snd (until_char (CHR 10) (c # s)) in
      if (if strip then dropWhile (\<lambda>x. x = CHR 9) line else line) = delim then ([], rest)
      else apfst ((@) (line @ [CHR 10])) (heredoc_body delim strip rest))"
  by pat_completeness auto

termination
proof (relation "measure (\<lambda>(_, _, s). length s)", goal_cases)
  case (2 delim strip c s line rest)
  then show ?case using until_char_shorter_Cons[of "CHR 10" c s] by simp
qed simp

fun read_heredocs :: "(string \<times> bool \<times> bool) list \<Rightarrow> string \<Rightarrow> (bool \<times> string) list \<times> string" where
  "read_heredocs [] s = ([], s)"
| "read_heredocs ((delim, quoted, strip) # ps) s =
     (let (body, rest) = heredoc_body delim strip s;
          (docs, r) = read_heredocs ps rest
      in ((quoted, body) # docs, r))"

definition end_line :: "lexer \<Rightarrow> string \<Rightarrow> lexer \<times> string" where
  "end_line st cs =
     (let st1 = flush_pipeline (flush_stage (finish_word st));
          (docs, rest) = read_heredocs (lx_pending st1) cs
      in (st1\<lparr>lx_pending := [], lx_heredocs := lx_heredocs st1 @ docs\<rparr>, rest))"

definition operator :: "lexer \<Rightarrow> char \<Rightarrow> string \<Rightarrow> lexer \<times> string" where
  "operator st c cs =
     (let st1 = flush_stage (finish_word st); double = starts_with [c] cs
      in (if c = CHR ''|'' \<and> \<not> double then st1 else flush_pipeline st1, if double then drop 1 cs else cs))"

definition heredoc_operator :: "lexer \<Rightarrow> string \<Rightarrow> lexer \<times> string" where
  "heredoc_operator st cs =
     (let strip = starts_with ''<-'' cs
      in ((end_word st)\<lparr>lx_expect := Some strip\<rparr>, drop (if strip then 2 else 1) cs))"

definition lex_step :: "lexer \<Rightarrow> char \<Rightarrow> string \<Rightarrow> lexer \<times> string" where
  "lex_step st c cs =
     (if c = CHR 39 \<or> c = CHR 96 then (let (body, rest) = until_char c cs in (add_text (c # body @ [c]) st, rest))
      else if c = CHR 34 then (let (body, rest) = double_quoted cs in (add_text (c # body @ [c]) st, rest))
      else if c = CHR 92 then (add_text (c # take 1 cs) st, drop 1 cs)
      else if c = CHR ''$'' \<and> starts_with ''('' cs then
        (let (body, rest) = paren_text 0 cs in (add_text (c # body) st, rest))
      else if c = CHR ''<'' \<and> starts_with ''<'' cs \<and> \<not> starts_with ''<<'' cs then heredoc_operator st cs
      else if c = CHR 32 \<or> c = CHR 9 then (finish_word st, cs)
      else if c = CHR 10 then end_line st cs
      else if c = CHR ''|'' \<or> c = CHR ''&'' \<or> c = CHR '';'' then operator st c cs
      else (add_text [c] st, cs))"

lemma double_quoted_shorter: "length (snd (double_quoted s)) \<le> length s"
  by (induction s rule: double_quoted.induct) auto

lemma paren_text_shorter: "length (snd (paren_text n s)) \<le> length s"
  by (induction n s rule: paren_text.induct) auto

lemma heredoc_body_shorter: "length (snd (heredoc_body d t s)) \<le> length s"
proof (induction d t s rule: heredoc_body.induct)
  case (2 d t c s)
  have "length (snd (until_char (CHR 10) (c # s))) \<le> length s" by (rule until_char_shorter_Cons)
  with 2[OF refl refl] show ?case by (cases t) (auto simp: Let_def)
qed simp

lemma read_heredocs_shorter: "length (snd (read_heredocs ps s)) \<le> length s"
proof (induction ps arbitrary: s)
  case (Cons p ps)
  obtain delim quoted strip where "p = (delim, quoted, strip)" by (cases p)
  with Cons[of "snd (heredoc_body delim strip s)"] heredoc_body_shorter[of delim strip s] show ?case
    by (simp add: case_prod_unfold Let_def)
qed simp

lemma end_line_shorter: "length (snd (end_line st cs)) \<le> length cs"
  by (simp add: end_line_def case_prod_unfold Let_def read_heredocs_shorter)

lemma operator_shorter: "length (snd (operator st c cs)) \<le> length cs"
  and heredoc_operator_shorter: "length (snd (heredoc_operator st cs)) \<le> length cs"
  by (simp_all add: operator_def heredoc_operator_def Let_def)

lemma lex_step_shorter: "length (snd (lex_step st c cs)) \<le> length cs"
  using until_char_shorter[of c cs] double_quoted_shorter[of cs] paren_text_shorter[of 0 cs]
    end_line_shorter[of st cs] operator_shorter[of st c cs] heredoc_operator_shorter[of st cs]
  by (simp add: lex_step_def case_prod_unfold Let_def)

function lex_from :: "lexer \<Rightarrow> string \<Rightarrow> lexer" where
  "lex_from st [] = st"
| "lex_from st (c # cs) = lex_from (fst (lex_step st c cs)) (snd (lex_step st c cs))"
  by pat_completeness auto

termination
  by (relation "measure (\<lambda>(_, s). length s)") (simp_all add: le_imp_less_Suc lex_step_shorter case_prod_unfold)

definition fresh_lexer :: lexer where
  "fresh_lexer = \<lparr>lx_word = None, lx_stage = [], lx_pipeline = [], lx_pipelines = [], lx_heredocs = [],
     lx_pending = [], lx_expect = None\<rparr>"

text \<open>At the end of the text a word that a heredoc operator waits for is dropped.\<close>

definition end_text :: "lexer \<Rightarrow> lexer" where
  "end_text st = flush_pipeline (flush_stage (if lx_expect st = None then end_word st else st))"

record lexed =
  ld_pipelines :: "string list list list"
  ld_heredocs :: "(bool \<times> string) list"

definition lex_cmd :: "string \<Rightarrow> lexed" where
  "lex_cmd cmd =
     (let st = end_text (lex_from fresh_lexer cmd)
      in \<lparr>ld_pipelines = lx_pipelines st, ld_heredocs = lx_heredocs st\<rparr>)"

subsection \<open>Words without their quotes\<close>

fun unquote_from :: "bool \<Rightarrow> bool \<Rightarrow> string \<Rightarrow> string" where
  "unquote_from in_single in_double [] = []"
| "unquote_from in_single in_double (c # s) =
     (if c = CHR 39 \<and> \<not> in_double then unquote_from (\<not> in_single) in_double s
      else if c = CHR 34 \<and> \<not> in_single then unquote_from in_single (\<not> in_double) s
      else if c = CHR 92 \<and> \<not> in_single then
        (case s of [] \<Rightarrow> [] | n # rest \<Rightarrow> n # unquote_from in_single in_double rest)
      else c # unquote_from in_single in_double s)"

definition unquote :: "string \<Rightarrow> string" where
  "unquote w = unquote_from False False w"

definition argv_of :: "string list \<Rightarrow> string list" where
  "argv_of stage = dropWhile (\<lambda>w. assignment w \<noteq> None) (map unquote stage)"

definition leading_assignments :: "string list \<Rightarrow> (string \<times> string) list" where
  "leading_assignments stage =
     List.map_filter assignment (takeWhile (\<lambda>w. assignment w \<noteq> None) (map unquote stage))"

end
