(* ===== verification/Policy_Consent.thy ===== *)
theory Policy_Consent
  imports Policy_Seed
begin

text \<open>
  Consent tokens (\<open>crates/tillandsias-plan/src/command_policy.rs\<close>): the store the operator mints into,
  spending a token, and the decision at an execution door. The store is the list of its token files
  by name with the string fields of their JSON (\<open>None\<close> for a file that does not parse) and the ledger
  of spent ones. The digest of a vector and the reading of a time are arguments.
\<close>

type_synonym token_file = "(string \<rightharpoonup> string) option"

record spent_entry =
  sp_class :: string
  sp_digest :: string
  sp_at :: string

record consent_store =
  cs_files :: "(string \<times> token_file) list"
  cs_ledger :: "spent_entry list"

record consent_ctx =
  cx_host :: string
  cx_now :: int
  cx_now_text :: string
  cx_evidence :: host_kind
  cx_skill :: "string option"
  cx_reset_ok :: "string option"

record clockwork =
  ck_digest :: "string list \<Rightarrow> string"
  ck_time :: "string \<Rightarrow> int option"

definition consent_classes :: "string list" where
  "consent_classes = [''soft-reset'', ''hard-reset'', ''workspace-destroy'', ''force-push'']"

definition smoke_skills :: "string list" where
  "smoke_skills = [''smoke-curl-install-and-test-e2e'', ''build-install-and-smoke-test-e2e'']"

definition grant_refusal :: "string option \<Rightarrow> host_kind \<Rightarrow> string option" where
  "grant_refusal env_kind evidence =
     (let env = Option.bind env_kind host_kind_parse in
      if evidence = Forge \<or> env = Some Forge then Some ''refused:consent:not-grantable-in-forge''
      else if evidence = Ci \<or> env = Some Ci then Some ''refused:consent:not-grantable-in-ci''
      else None)"

text \<open>Minting a token under a fresh name; the shown vector, which nothing reads back, is left out.\<close>

definition minted_token ::
  "clockwork \<Rightarrow> consent_ctx \<Rightarrow> string \<Rightarrow> string list \<Rightarrow> string \<Rightarrow> string \<Rightarrow> token_file" where
  "minted_token ck cx cls argv i expires_text =
     Some [''id'' \<mapsto> i, ''class'' \<mapsto> cls, ''host'' \<mapsto> cx_host cx, ''argv_digest'' \<mapsto> ck_digest ck argv,
           ''granted_at'' \<mapsto> cx_now_text cx, ''expires_at'' \<mapsto> expires_text]"

definition consent_grant ::
  "clockwork \<Rightarrow> consent_ctx \<Rightarrow> string \<Rightarrow> string list \<Rightarrow> string \<Rightarrow> string \<Rightarrow> consent_store \<Rightarrow> consent_store option" where
  "consent_grant ck cx cls argv i expires_text st =
     (let name = i @ ''.json'' in
      if name \<in> fst ` set (cs_files st) then None
      else Some (st\<lparr>cs_files := cs_files st @ [(name, minted_token ck cx cls argv i expires_text)]\<rparr>))"

definition token_field :: "token_file \<Rightarrow> string \<Rightarrow> string" where
  "token_field t k = unwrap_or [] (Option.bind t (\<lambda>m. m k))"

text \<open>Why a token file is of no use here at all.\<close>

definition unusable :: "clockwork \<Rightarrow> consent_ctx \<Rightarrow> string \<Rightarrow> token_file \<Rightarrow> string option" where
  "unusable ck cx cls t =
     (let expires = ck_time ck (token_field t ''expires_at'') in
      if t = None \<or> token_field t ''class'' \<noteq> cls \<or> expires = None then Some ''malformed''
      else if token_field t ''host'' \<noteq> cx_host cx then Some ''foreign-host''
      else if (case expires of None \<Rightarrow> False | Some e \<Rightarrow> e \<le> cx_now cx) then Some ''expired''
      else None)"

datatype token_check = Consumed string | Invalid string | NoToken "string option"

definition candidate_names :: "string \<Rightarrow> consent_store \<Rightarrow> string list" where
  "candidate_names cls st =
     sort (filter (\<lambda>n. ends_with ''.json'' n \<and> n \<noteq> ''.json'' \<and> starts_with (cls @ ''-'') n) (map fst (cs_files st)))"

definition remove_token :: "string \<Rightarrow> consent_store \<Rightarrow> consent_store" where
  "remove_token n st = st\<lparr>cs_files := filter (\<lambda>(m, _). m \<noteq> n) (cs_files st)\<rparr>"

definition spend :: "clockwork \<Rightarrow> consent_ctx \<Rightarrow> string \<Rightarrow> string list \<Rightarrow> string \<Rightarrow> consent_store \<Rightarrow> consent_store" where
  "spend ck cx cls argv n st =
     (remove_token n st)\<lparr>cs_ledger := cs_ledger st
        @ [\<lparr>sp_class = cls, sp_digest = ck_digest ck argv, sp_at = cx_now_text cx\<rparr>]\<rparr>"

definition read_token :: "consent_store \<Rightarrow> string \<Rightarrow> token_file" where
  "read_token st n = (case map_of (cs_files st) n of None \<Rightarrow> None | Some t \<Rightarrow> t)"

text \<open>The last run of this vector that the ledger has, for the answer without a token.\<close>

definition replayed_at :: "clockwork \<Rightarrow> string \<Rightarrow> string list \<Rightarrow> consent_store \<Rightarrow> string option" where
  "replayed_at ck cls argv st =
     map_option sp_at (find (\<lambda>e. sp_digest e = ck_digest ck argv \<and> sp_class e = cls) (rev (cs_ledger st)))"

fun scan_tokens ::
  "clockwork \<Rightarrow> consent_ctx \<Rightarrow> string \<Rightarrow> string list \<Rightarrow> string option \<Rightarrow> string list \<Rightarrow> consent_store
    \<Rightarrow> token_check \<times> consent_store" where
  "scan_tokens ck cx cls argv invalid [] st =
     ((case invalid of Some reason \<Rightarrow> Invalid reason | None \<Rightarrow> NoToken (replayed_at ck cls argv st)), st)"
| "scan_tokens ck cx cls argv invalid (n # ns) st =
     (let t = read_token st n; keep = (\<lambda>reason. Some (unwrap_or reason invalid)) in
      case unusable ck cx cls t of
        Some reason \<Rightarrow> scan_tokens ck cx cls argv (keep reason) ns (remove_token n st)
      | None \<Rightarrow>
          (if token_field t ''argv_digest'' \<noteq> ck_digest ck argv
           then scan_tokens ck cx cls argv (keep ''argv-mismatch'') ns st
           else (Consumed (token_field t ''id''), spend ck cx cls argv n st)))"

text \<open>\<open>consent_consume\<close> of one process that nobody races: the rename of a token it read succeeds.\<close>

definition consent_consume ::
  "clockwork \<Rightarrow> consent_ctx \<Rightarrow> string \<Rightarrow> string list \<Rightarrow> consent_store \<Rightarrow> token_check \<times> consent_store" where
  "consent_consume ck cx cls argv st =
     scan_tokens ck cx cls argv None (candidate_names cls st) st"

definition env_preauthorises :: "string \<Rightarrow> string option \<Rightarrow> string option \<Rightarrow> bool" where
  "env_preauthorises cls reset_ok skill \<longleftrightarrow>
     cls = ''soft-reset'' \<and> reset_ok = Some ''1''
     \<and> (case skill of None \<Rightarrow> False | Some s \<Rightarrow> s \<in> set smoke_skills)"

definition resolve_consent ::
  "clockwork \<Rightarrow> consent_ctx \<Rightarrow> request \<Rightarrow> decision \<Rightarrow> consent_store \<Rightarrow> decision \<times> consent_store" where
  "resolve_consent ck cx req d st =
     (if de_strictness d \<noteq> Consent \<or> de_rule d \<notin> set consent_classes then (d, st)
      else if rq_host_kind req \<noteq> BareMetal \<or> cx_evidence cx \<noteq> BareMetal then (d, st)
      else if env_preauthorises (de_rule d) (cx_reset_ok cx) (cx_skill cx)
      then (allow ''soft-reset'' ''ok:policy:soft-reset:env-preauthorised'', st)
      else
        (let cls = de_rule d in
         case consent_consume ck cx cls (rq_argv req) st of
           (Consumed _, st') \<Rightarrow> (allow cls (''ok:policy:'' @ cls @ '':consented''), st')
         | (Invalid reason, st') \<Rightarrow> (deny cls (''refused:consent:invalid:'' @ reason), st')
         | (NoToken _, st') \<Rightarrow> (d, st')))"

definition decide_execution ::
  "clockwork \<Rightarrow> consent_ctx \<Rightarrow> disk \<Rightarrow> fixture_scope \<Rightarrow> string list \<Rightarrow> seed option \<Rightarrow> seed_load \<Rightarrow> request
    \<Rightarrow> consent_store \<Rightarrow> decision \<times> consent_store" where
  "decide_execution ck cx d scope protected sd load req st =
     (let x = decide_loaded d scope protected sd load req
      in if de_strictness x = Consent then resolve_consent ck cx req x st else (x, st))"

definition consent_source :: "decision \<Rightarrow> string option" where
  "consent_source d =
     (if de_strictness d \<noteq> Allow then None
      else if ends_with '':forge-preauthorised'' (de_token d) then Some ''forge-policy''
      else if ends_with '':env-preauthorised'' (de_token d) then Some ''env''
      else if ends_with '':consented'' (de_token d) then Some ''token''
      else None)"

subsection \<open>Racing runs\<close>

text \<open>
  The same scan by processes that share the store, one access to it at a time: a process reads the
  next file of the listing it took, and in a step of its own renames the token it chose, which fails
  when another process was faster. \<open>taken\<close> records the names that a rename claimed, with the process.
\<close>

datatype process = Scanning "string list" "string option" | Claiming string string "string list" "string option"
  | Ended token_check

record race =
  rc_store :: consent_store
  rc_process :: "nat \<Rightarrow> process"
  rc_taken :: "(string \<times> nat) list"

inductive race_step :: "clockwork \<Rightarrow> consent_ctx \<Rightarrow> string \<Rightarrow> string list \<Rightarrow> race \<Rightarrow> race \<Rightarrow> bool"
  for ck cx cls argv where
  read_unusable:
    "rc_process r p = Scanning (n # ns) invalid \<Longrightarrow> unusable ck cx cls (read_token (rc_store r) n) = Some reason \<Longrightarrow>
     race_step ck cx cls argv r
       (r\<lparr>rc_store := remove_token n (rc_store r),
          rc_process := (rc_process r)(p := Scanning ns (Some (unwrap_or reason invalid)))\<rparr>)"
| read_mismatch:
    "rc_process r p = Scanning (n # ns) invalid \<Longrightarrow> unusable ck cx cls (read_token (rc_store r) n) = None \<Longrightarrow>
     token_field (read_token (rc_store r) n) ''argv_digest'' \<noteq> ck_digest ck argv \<Longrightarrow>
     race_step ck cx cls argv r
       (r\<lparr>rc_process := (rc_process r)(p := Scanning ns (Some (unwrap_or ''argv-mismatch'' invalid)))\<rparr>)"
| read_match:
    "rc_process r p = Scanning (n # ns) invalid \<Longrightarrow> unusable ck cx cls (read_token (rc_store r) n) = None \<Longrightarrow>
     token_field (read_token (rc_store r) n) ''argv_digest'' = ck_digest ck argv \<Longrightarrow>
     race_step ck cx cls argv r (r\<lparr>rc_process := (rc_process r)(p := Claiming n (token_field (read_token (rc_store r) n) ''id'') ns invalid)\<rparr>)"
| claim_won:
    "rc_process r p = Claiming n i ns invalid \<Longrightarrow> n \<in> fst ` set (cs_files (rc_store r)) \<Longrightarrow>
     race_step ck cx cls argv r
       \<lparr>rc_store = spend ck cx cls argv n (rc_store r),
        rc_process = (rc_process r)(p := Ended (Consumed i)),
        rc_taken = (n, p) # rc_taken r\<rparr>"
| claim_lost:
    "rc_process r p = Claiming n i ns invalid \<Longrightarrow> n \<notin> fst ` set (cs_files (rc_store r)) \<Longrightarrow>
     race_step ck cx cls argv r (r\<lparr>rc_process := (rc_process r)(p := Scanning ns invalid)\<rparr>)"
| scan_ended:
    "rc_process r p = Scanning [] invalid \<Longrightarrow>
     race_step ck cx cls argv r
       (r\<lparr>rc_process := (rc_process r)(p := Ended
          (case invalid of Some reason \<Rightarrow> Invalid reason | None \<Rightarrow> NoToken (replayed_at ck cls argv (rc_store r))))\<rparr>)"

inductive_cases race_stepE: "race_step ck cx cls argv r r'"

end
