(* ===== verification/Bash_Policy.thy ===== *)
theory Bash_Policy
  imports Bash_Lex Policy_Consent "HOL-Library.Sublist"
begin

text \<open>
  The bridge that judges a shell command before it runs
  (\<open>crates/tillandsias-plan/src/bash_policy.rs\<close>): the shapes it refuses on sight and, for each stage of
  the command, the floor of the command policy. The environment is a function from names to values.
  The regular expressions are written out as predicates on the text from a position on.
\<close>

datatype verdict = VAllow | VAsk | VDeny

record classification =
  cl_verdict :: verdict
  cl_rule :: string
  cl_token :: string

definition allow_bash :: classification where
  "allow_bash = \<lparr>cl_verdict = VAllow, cl_rule = ''allow'', cl_token = ''ok:bash-policy:allow''\<rparr>"

definition deny_bash :: "string \<Rightarrow> classification" where
  "deny_bash r = \<lparr>cl_verdict = VDeny, cl_rule = r, cl_token = ''refused:bash-policy:'' @ r\<rparr>"

definition ask_bash :: "string \<Rightarrow> classification" where
  "ask_bash c = \<lparr>cl_verdict = VAsk, cl_rule = c, cl_token = ''consent:bash-policy:'' @ c\<rparr>"

record bash_context =
  bx_cwd :: string
  bx_host_kind :: host_kind
  bx_scratch :: "path list"
  bx_protected :: "string list"

type_synonym environment = "string \<Rightarrow> string option"

subsection \<open>Patterns in the text\<close>

definition run_of :: "(char \<Rightarrow> bool) \<Rightarrow> nat \<Rightarrow> string \<Rightarrow> bool" where
  "run_of P n s \<longleftrightarrow> n \<le> length (takeWhile P s)"

definition shape_at :: "string \<Rightarrow> char list \<Rightarrow> string \<Rightarrow> (char \<Rightarrow> bool) \<Rightarrow> nat \<Rightarrow> string \<Rightarrow> bool" where
  "shape_at before kinds after P n s \<longleftrightarrow>
     (case strip_prefix before s of
        Some (k # r) \<Rightarrow>
          k \<in> set kinds
          \<and> (case strip_prefix after r of Some body \<Rightarrow> run_of P n body | None \<Rightarrow> False)
      | _ \<Rightarrow> False)"

definition prefixed_run :: "string \<Rightarrow> (char \<Rightarrow> bool) \<Rightarrow> nat \<Rightarrow> string \<Rightarrow> bool" where
  "prefixed_run p P n s \<longleftrightarrow> (case strip_prefix p s of Some body \<Rightarrow> run_of P n body | None \<Rightarrow> False)"

definition token_literal_at :: "string \<Rightarrow> bool" where
  "token_literal_at s \<longleftrightarrow>
     shape_at ''gh'' ''pousr'' ''_'' is_ascii_alphanumeric 36 s
     \<or> prefixed_run ''github_pat_'' (\<lambda>c. is_ascii_alphanumeric c \<or> c = CHR ''_'') 22 s
     \<or> prefixed_run ''AKIA'' (\<lambda>c. is_ascii_digit c \<or> is_ascii_uppercase c) 16 s
     \<or> prefixed_run ''sk-ant-'' (\<lambda>c. is_ascii_alphanumeric c \<or> c = CHR ''_'' \<or> c = CHR ''-'') 20 s
     \<or> shape_at ''xox'' ''baprs'' ''-'' (\<lambda>c. is_ascii_alphanumeric c \<or> c = CHR ''-'') 10 s"

definition token_literal :: "string \<Rightarrow> bool" where
  "token_literal cmd \<longleftrightarrow> list_ex token_literal_at (suffixes cmd)"

definition is_ascii_alphabetic :: "char \<Rightarrow> bool" where
  "is_ascii_alphabetic c \<longleftrightarrow> is_ascii_lowercase c \<or> is_ascii_uppercase c"

text \<open>White space, at least one, and then the rest.\<close>

definition skip_space :: "string \<Rightarrow> string option" where
  "skip_space s = (if trim_start s = s then None else Some (trim_start s))"

definition pipefail_at :: "string \<Rightarrow> bool" where
  "pipefail_at s \<longleftrightarrow>
     (case Option.bind (strip_prefix ''set'' s) skip_space of
        Some (d # r) \<Rightarrow>
          (let letters = takeWhile is_ascii_alphabetic r in
           d = CHR ''-'' \<and> letters \<noteq> [] \<and> last letters = CHR ''o''
           \<and> (case skip_space (dropWhile is_ascii_alphabetic r) of
                Some t \<Rightarrow> starts_with ''pipefail'' t
              | None \<Rightarrow> False))
      | _ \<Rightarrow> False)"

definition sets_pipefail :: "string \<Rightarrow> bool" where
  "sets_pipefail cmd \<longleftrightarrow>
     list_ex (\<lambda>i. (i = 0 \<or> last (take i cmd) \<in> set '';&|'' \<or> list_ex (\<lambda>w. ends_with w (take i cmd)) white_space)
                   \<and> pipefail_at (drop i cmd))
       [0..<Suc (length cmd)]"

subsection \<open>Stages with a telling shape\<close>

definition short_has :: "char \<Rightarrow> string \<Rightarrow> bool" where
  "short_has c a \<longleftrightarrow> starts_with ''-'' a \<and> \<not> starts_with ''--'' a \<and> c \<in> set (tl a)"

definition is_grep_quiet :: "string list \<Rightarrow> bool" where
  "is_grep_quiet argv \<longleftrightarrow>
     (case argv of
        [] \<Rightarrow> False
      | p # args \<Rightarrow>
          program_name p \<in> {''grep'', ''egrep'', ''fgrep''}
          \<and> list_ex (\<lambda>a. a = ''--quiet'' \<or> a = ''--silent'' \<or> short_has (CHR ''q'') a) args)"

fun tail_one_args :: "string list \<Rightarrow> bool" where
  "tail_one_args [] = False"
| "tail_one_args (x # rest) =
     (x \<in> {''-1'', ''-n1'', ''--lines=1''} \<or> (x = ''-n'' \<and> take 1 rest = [''1'']) \<or> tail_one_args rest)"

definition is_tail_one :: "string list \<Rightarrow> bool" where
  "is_tail_one argv \<longleftrightarrow>
     (case argv of [] \<Rightarrow> False | p # args \<Rightarrow> program_name p = ''tail'' \<and> tail_one_args args)"

definition file_name :: "path \<Rightarrow> string option" where
  "file_name p =
     (if p = [] then None else case last p of Normal n \<Rightarrow> Some n | _ \<Rightarrow> None)"

definition verdict_script :: "string list \<Rightarrow> string option" where
  "verdict_script argv =
     (case argv of
        [] \<Rightarrow> None
      | p # args \<Rightarrow>
          (let script = (if program_name p \<in> {''bash'', ''sh'', ''zsh'', ''dash''}
                         then find (\<lambda>a. \<not> starts_with ''-'' a) args else Some p)
           in case Option.bind script (\<lambda>s. file_name (components s)) of
                Some base \<Rightarrow>
                  if starts_with ''check-'' base \<or> starts_with ''test-'' base then Some base else None
              | None \<Rightarrow> None))"

definition string_shells :: "string list" where
  "string_shells = [''bash'', ''sh'', ''zsh'', ''dash'', ''ksh'']"

text \<open>
  The words after a shell, with their raw texts: \<open>None\<close> without a flag that takes a string, else the
  raw string after the flag.
\<close>

fun string_flag :: "(string \<times> string) list \<Rightarrow> string option option" where
  "string_flag [] = None"
| "string_flag ((f, _) # rest) =
     (if short_has (CHR ''c'') f then Some (case rest of [] \<Rightarrow> None | (_, raw) # _ \<Rightarrow> Some raw)
      else if \<not> starts_with ''-'' f then None
      else string_flag rest)"

definition risky_string :: "string \<Rightarrow> bool" where
  "risky_string s \<longleftrightarrow> contains_text ''|'' s \<or> contains_text ''`'' s \<or> contains_text ''$('' s"

fun crosses :: "(string \<times> string) list \<Rightarrow> bool" where
  "crosses [] = False"
| "crosses ((a, _) # rest) =
     (if program_name a \<notin> set string_shells then crosses rest
      else case string_flag rest of
             None \<Rightarrow> crosses rest
           | Some raw \<Rightarrow> (case raw of None \<Rightarrow> False | Some s \<Rightarrow> risky_string s))"

definition string_crosses_boundary :: "string list \<Rightarrow> bool" where
  "string_crosses_boundary stage \<longleftrightarrow>
     crosses (dropWhile (\<lambda>(w, _). assignment w \<noteq> None) (map (\<lambda>w. (unquote w, w)) stage))"

text \<open>Past the wrappers of a command, their options and assignments.\<close>

definition wrapper_words :: "string list \<Rightarrow> string list" where
  "wrapper_words argv = dropWhile (\<lambda>a. starts_with ''-'' a \<or> contains_text ''='' a) argv"

lemma wrapper_words_shorter: "length (wrapper_words argv) \<le> length argv"
  by (simp add: wrapper_words_def length_dropWhile_le)

function skip_wrappers :: "string list \<Rightarrow> string list" where
  "skip_wrappers [] = []"
| "skip_wrappers (a # argv) =
     (if program_name a \<in> {''sudo'', ''env'', ''nohup'', ''exec'', ''command''}
      then skip_wrappers (wrapper_words argv)
      else if program_name a = ''timeout''
      then skip_wrappers (wrapper_words (drop 1 (dropWhile (starts_with ''-'') argv)))
      else a # argv)"
  by pat_completeness auto

termination
proof (relation "measure length", goal_cases)
  case (3 a argv)
  have "length (wrapper_words (drop 1 (dropWhile (starts_with ''-'') argv))) \<le> length argv"
    using wrapper_words_shorter length_dropWhile_le
    by (metis (no_types, lifting) diff_le_self le_trans length_drop)
  then show ?case by simp
qed (simp_all add: wrapper_words_shorter less_Suc_eq_le)

text \<open>Kills that match whole command lines, through at most three shells that take a string.\<close>

fun self_matching_kill :: "nat \<Rightarrow> string list \<Rightarrow> bool" where
  "self_matching_kill left words =
     (case skip_wrappers words of
        [] \<Rightarrow> False
      | p # args \<Rightarrow>
          (let opts = takeWhile (\<lambda>a. a \<noteq> ''--'') args in
           if program_name p = ''pkill'' then list_ex (\<lambda>a. short_has (CHR ''f'') a \<or> a = ''--full'') opts
           else if program_name p = ''killall'' then list_ex (\<lambda>a. short_has (CHR ''r'') a \<or> a = ''--regexp'') opts
           else case left of
                  0 \<Rightarrow> False
                | Suc n \<Rightarrow>
                    is_shell_string_call (p # args)
                    \<and> (case dropWhile (\<lambda>a. \<not> short_has (CHR ''c'') (to_ascii_lowercase a)) (p # args) of
                         _ # inner # _ \<Rightarrow>
                           list_ex (list_ex (\<lambda>stage. self_matching_kill n (argv_of stage)))
                             (ld_pipelines (lex_cmd inner))
                       | _ \<Rightarrow> False)))"

declare self_matching_kill.simps [simp del]

subsection \<open>Expansion\<close>

definition env_value :: "environment \<Rightarrow> string \<Rightarrow> string option" where
  "env_value env k = (case env k of Some v \<Rightarrow> if v = [] then None else Some v | None \<Rightarrow> None)"

definition name_char :: "char \<Rightarrow> bool" where
  "name_char c \<longleftrightarrow> is_ascii_alphanumeric c \<or> c = CHR ''_''"

text \<open>\<open>NAME\<close> or \<open>NAME:-default\<close> inside braces.\<close>

definition brace_value :: "environment \<Rightarrow> string \<Rightarrow> string option" where
  "brace_value env inner =
     (let (name, default) = (case split_once_text '':-'' inner of
                               Some (n, d) \<Rightarrow> (n, Some d) | None \<Rightarrow> (inner, None))
      in if name = [] \<or> \<not> list_all name_char name then None
         else case env_value env name of Some v \<Rightarrow> Some v | None \<Rightarrow> default)"

lemma split_once_shorter: "split_once c s = Some (a, b) \<Longrightarrow> length b < length s"
  by (auto dest: split_once_Some)

function expand_dollars :: "environment \<Rightarrow> string \<Rightarrow> string option" where
  "expand_dollars env s =
     (case split_once (CHR ''$'') s of
        None \<Rightarrow> Some s
      | Some (before, rest) \<Rightarrow>
          (if starts_with ''{'' rest then
             (case split_once (CHR ''}'') (tl rest) of
                None \<Rightarrow> None
              | Some (inner, after) \<Rightarrow>
                  (case brace_value env inner of
                     None \<Rightarrow> None
                   | Some v \<Rightarrow> map_option (\<lambda>t. before @ v @ t) (expand_dollars env after)))
           else
             (let name = takeWhile name_char rest in
              if name = [] \<or> is_ascii_digit (hd rest) then None
              else case env_value env name of
                     None \<Rightarrow> None
                   | Some v \<Rightarrow>
                       map_option (\<lambda>t. before @ v @ t) (expand_dollars env (dropWhile name_char rest)))))"
  by auto

termination
proof (relation "measure (\<lambda>(_, s). length s)", goal_cases)
  case (2 env s x before rest y inner after v)
  then show ?case using split_once_shorter[of "CHR ''$''" s before rest] split_once_shorter[of "CHR ''}''" "tl rest" inner after]
    by simp
next
  case (3 env s x before rest name v)
  then show ?case using split_once_shorter[of "CHR ''$''" s before rest] length_dropWhile_le[of name_char rest] by simp
qed simp

declare expand_dollars.simps [simp del]

definition expand_word :: "environment \<Rightarrow> string \<Rightarrow> string option" where
  "expand_word env w =
     (if contains_text ''`'' w \<or> contains_text ''$('' w then None
      else if w = ''~'' \<or> starts_with ''~/'' w then
        Option.bind (env_value env ''HOME'') (\<lambda>h. expand_dollars env (h @ tl w))
      else expand_dollars env w)"

fun expand_words :: "environment \<Rightarrow> string list \<Rightarrow> string list option" where
  "expand_words env [] = Some []"
| "expand_words env (w # ws) =
     (case expand_word env w of None \<Rightarrow> None | Some e \<Rightarrow> map_option ((#) e) (expand_words env ws))"

subsection \<open>Judging a stage\<close>

definition normal_path :: "path \<Rightarrow> path" where
  "normal_path p = foldl push_component [] p"

definition targets_a_scratch_root :: "string list \<Rightarrow> bash_context \<Rightarrow> bool" where
  "targets_a_scratch_root argv ctx \<longleftrightarrow>
     list_ex (\<lambda>a. normal_path (join_path (components (bx_cwd ctx)) a) \<in> normal_path ` set (bx_scratch ctx))
       (filter (\<lambda>a. \<not> starts_with ''-'' a) (tl argv))"

definition hook_request :: "string list \<Rightarrow> bash_context \<Rightarrow> string \<Rightarrow> request" where
  "hook_request argv ctx workspace =
     \<lparr>rq_argv = argv, rq_cwd = bx_cwd ctx, rq_workspace = workspace, rq_host_kind = bx_host_kind ctx,
      rq_regime = ''hook'', rq_env = []\<rparr>"

definition floor_on :: "disk \<Rightarrow> string list \<Rightarrow> bash_context \<Rightarrow> string \<Rightarrow> decision option" where
  "floor_on d argv ctx workspace = floor_decide d (bx_protected ctx) (hook_request argv ctx workspace)"

definition stage_variable :: "environment \<Rightarrow> string list \<Rightarrow> string \<Rightarrow> string option" where
  "stage_variable env stage name =
     (case env_var (leading_assignments stage) name of Some v \<Rightarrow> Some v | None \<Rightarrow> env name)"

definition stage_env_preauthorises ::
  "environment \<Rightarrow> string list \<Rightarrow> string \<Rightarrow> host_kind \<Rightarrow> host_kind \<Rightarrow> bool" where
  "stage_env_preauthorises env stage cls kind evidence \<longleftrightarrow>
     kind = BareMetal \<and> evidence = BareMetal
     \<and> env_preauthorises cls (stage_variable env stage ''TILLANDSIAS_DESTRUCTIVE_RESET_OK'')
          (stage_variable env stage ''TILLANDSIAS_SKILL'')"

definition beneath_scratch :: "disk \<Rightarrow> string list \<Rightarrow> bash_context \<Rightarrow> bool" where
  "beneath_scratch d argv ctx \<longleftrightarrow>
     \<not> targets_a_scratch_root argv ctx
     \<and> list_ex (\<lambda>root. floor_on d argv ctx (path_text root) = None) (bx_scratch ctx)"

text \<open>What one stage does to the verdict: nothing, a question unless one came before, or a refusal.\<close>

datatype stage_result = Passes | Asks classification | Refuses classification

definition floor_outcome ::
  "disk \<Rightarrow> environment \<Rightarrow> host_kind \<Rightarrow> bash_context \<Rightarrow> string list \<Rightarrow> string list \<Rightarrow> stage_result" where
  "floor_outcome d env evidence ctx stage argv =
     (case floor_on d argv ctx (bx_cwd ctx) of
        None \<Rightarrow> Passes
      | Some f \<Rightarrow>
          (case de_strictness f of
             Allow \<Rightarrow> Passes
           | Deny \<Rightarrow> Refuses (deny_bash (de_rule f))
           | Consent \<Rightarrow>
               if de_rule f = ''workspace-destroy'' \<and> beneath_scratch d argv ctx then Passes
               else if stage_env_preauthorises env stage (de_rule f) (bx_host_kind ctx) evidence then Passes
               else Asks (ask_bash (de_rule f))))"

definition expanded_argv :: "environment \<Rightarrow> string list \<Rightarrow> string list option" where
  "expanded_argv env argv =
     (case argv of
        [] \<Rightarrow> Some []
      | p # args \<Rightarrow> if program_name p = ''rm'' then map_option ((#) p) (expand_words env args) else Some argv)"

definition stage_outcome ::
  "disk \<Rightarrow> environment \<Rightarrow> host_kind \<Rightarrow> bash_context \<Rightarrow> string list \<Rightarrow> stage_result" where
  "stage_outcome d env evidence ctx stage =
     (let argv = argv_of stage in
      if string_crosses_boundary stage then Refuses (deny_bash ''string-crosses-a-boundary'')
      else if argv = [] then Passes
      else if self_matching_kill 3 argv then Refuses (deny_bash ''self-matching-kill-pattern'')
      else if is_shell_string_call argv then Passes
      else
        (case expanded_argv env argv of
           None \<Rightarrow> Refuses (deny_bash ''unresolvable-rm-target'')
         | Some real \<Rightarrow> floor_outcome d env evidence ctx stage real))"

fun judge :: "('a \<Rightarrow> stage_result) \<Rightarrow> classification option \<Rightarrow> 'a list \<Rightarrow> classification" where
  "judge f ask [] = unwrap_or allow_bash ask"
| "judge f ask (s # ss) =
     (case f s of
        Passes \<Rightarrow> judge f ask ss
      | Asks c \<Rightarrow> judge f (Some (unwrap_or c ask)) ss
      | Refuses c \<Rightarrow> c)"

subsection \<open>Judging a command\<close>

definition runs_prose :: "bool \<times> string \<Rightarrow> bool" where
  "runs_prose h \<longleftrightarrow> \<not> fst h \<and> (contains_text ''`'' (snd h) \<or> contains_text ''$('' (snd h))"

definition pipeline_refusal :: "bool \<Rightarrow> string list list \<Rightarrow> classification option" where
  "pipeline_refusal pipefail p =
     (if length p < 2 then None
      else if pipefail \<and> is_grep_quiet (argv_of (last p)) then Some (deny_bash ''sigpipe-verdict-pipeline'')
      else if is_tail_one (argv_of (last p)) \<and> verdict_script (argv_of (hd p)) \<noteq> None
      then Some (deny_bash ''verdict-through-tail'')
      else None)"

definition classify ::
  "disk \<Rightarrow> environment \<Rightarrow> host_kind \<Rightarrow> bash_context \<Rightarrow> string \<Rightarrow> classification" where
  "classify d env evidence ctx cmd =
     (if token_literal cmd then deny_bash ''token-literal''
      else
        (let lexed = lex_cmd cmd in
         if list_ex runs_prose (ld_heredocs lexed) then deny_bash ''unquoted-heredoc-executes-prose''
         else
           (case List.map_filter (pipeline_refusal (sets_pipefail cmd)) (ld_pipelines lexed) of
              c # _ \<Rightarrow> c
            | [] \<Rightarrow> judge (stage_outcome d env evidence ctx) None (concat (ld_pipelines lexed)))))"

subsection \<open>The context and the counts of the audit\<close>

text \<open>Without a trailing slash; the directory of a darwin user has two spellings.\<close>

definition darwin_roots :: "path option \<Rightarrow> path list" where
  "darwin_roots temp =
     (case temp of
        None \<Rightarrow> []
      | Some t \<Rightarrow>
          (if path_within t (components ''/var'') then [components ''/private/var'' @ drop 2 t, t] else [t]))"

definition scratch_roots :: "string option \<Rightarrow> string option \<Rightarrow> path option \<Rightarrow> path list" where
  "scratch_roots tmpdir extra darwin_temp =
     [components ''/tmp'', components ''/private/tmp'']
     @ (case tmpdir of Some t \<Rightarrow> if t = [] then [] else [components (trim_end_chars (\<lambda>c. c = CHR ''/'') t)] | None \<Rightarrow> [])
     @ darwin_roots darwin_temp
     @ (case extra of Some e \<Rightarrow> map components (filter (\<lambda>s. s \<noteq> []) (split_on (CHR '':'') e)) | None \<Rightarrow> [])"

record audit_line =
  al_caller :: "string option"
  al_decision :: "string option"
  al_kill_switch :: "int option"

record audit_counts =
  ac_deny :: nat
  ac_ask :: nat
  ac_allow :: nat
  ac_kill :: nat

definition count_line :: "audit_counts \<Rightarrow> audit_line \<Rightarrow> audit_counts" where
  "count_line n l =
     (if al_caller l \<noteq> Some ''pretooluse'' then n
      else
        (let m = (if al_decision l = Some ''deny'' then n\<lparr>ac_deny := Suc (ac_deny n)\<rparr>
                  else if al_decision l = Some ''consent'' \<or> al_decision l = Some ''ask''
                  then n\<lparr>ac_ask := Suc (ac_ask n)\<rparr>
                  else if al_decision l = Some ''allow'' then n\<lparr>ac_allow := Suc (ac_allow n)\<rparr>
                  else n)
         in if al_kill_switch l = Some 1 then m\<lparr>ac_kill := Suc (ac_kill m)\<rparr> else m))"

definition status_counts :: "(string \<Rightarrow> audit_line option) \<Rightarrow> string \<Rightarrow> audit_counts" where
  "status_counts parse_line text =
     foldl count_line \<lparr>ac_deny = 0, ac_ask = 0, ac_allow = 0, ac_kill = 0\<rparr>
       (List.map_filter parse_line (lines text))"

end
