(* ===== verification/Bash_Lex_Props.thy ===== *)
theory Bash_Lex_Props
  imports Bash_Lex
begin

text \<open>
  The lexer of the bridge inverts a printer of quoted commands, and finds the bodies of heredocs.
\<close>

subsection \<open>Quoted words\<close>

definition escape_quotes :: "string \<Rightarrow> string" where
  "escape_quotes w = concat (map (\<lambda>c. if c = CHR 39 then [CHR 39, CHR 92, CHR 39, CHR 39] else [c]) w)"

definition shell_word :: "string \<Rightarrow> string" where
  "shell_word w = CHR 39 # escape_quotes w @ [CHR 39]"

lemma escape_quotes_simps [simp]:
  "escape_quotes [] = []"
  "escape_quotes (c # w) = (if c = CHR 39 then [CHR 39, CHR 92, CHR 39, CHR 39] else [c]) @ escape_quotes w"
  by (simp_all add: escape_quotes_def)

lemma unquote_escaped:
  "unquote_from True False (escape_quotes w @ CHR 39 # rest) = w @ unquote_from False False rest"
  by (induction w) auto

lemma unquote_shell_word [simp]: "unquote (shell_word w) = w"
  using unquote_escaped[of w "[]"] by (simp add: unquote_def shell_word_def)

lemma map_unquote_shell_word [simp]: "map (unquote \<circ> shell_word) ws = ws"
  by (induction ws) simp_all

subsection \<open>Lexing them\<close>

lemma add_text_add_text [simp]: "add_text b (add_text a st) = add_text (a @ b) st"
  by (cases "lx_word st") (simp_all add: add_text_def unwrap_or_def)

lemma until_char_here: "c \<notin> set a \<Longrightarrow> until_char c (a @ c # rest) = (a, rest)"
  by (simp add: until_char_def takeWhile_append dropWhile_append)

lemma lex_single_quoted:
  "CHR 39 \<notin> set a \<Longrightarrow>
    lex_from st (CHR 39 # a @ CHR 39 # rest) = lex_from (add_text (CHR 39 # a @ [CHR 39]) st) rest"
  by (simp add: lex_step_def until_char_here)

lemma lex_backslash:
  "lex_from st (CHR 92 # c # rest) = lex_from (add_text [CHR 92, c] st) rest"
  by (simp add: lex_step_def)

lemma escape_quotes_plain: "CHR 39 \<notin> set a \<Longrightarrow> escape_quotes (a @ w) = a @ escape_quotes w"
  by (induction a) auto

lemma lex_shell_word:
  "lex_from st (shell_word w @ rest) = lex_from (add_text (shell_word w) st) rest"
proof (induction w arbitrary: st rule: length_induct)
  case (1 w)
  show ?case
  proof (cases "CHR 39 \<in> set w")
    case False
    with lex_single_quoted[OF this] escape_quotes_plain[OF this, of "[]"] show ?thesis by (simp add: shell_word_def)
  next
    case True
    then obtain a b where w: "w = a @ CHR 39 # b" "CHR 39 \<notin> set a" by (metis split_list_first)
    then have word: "shell_word w = CHR 39 # a @ CHR 39 # CHR 92 # CHR 39 # shell_word b"
      by (simp add: shell_word_def escape_quotes_plain)
    have "lex_from st (shell_word w @ rest)
        = lex_from (add_text (CHR 39 # a @ [CHR 39]) st) (CHR 92 # CHR 39 # shell_word b @ rest)"
      using lex_single_quoted[OF w(2), of st "CHR 92 # CHR 39 # shell_word b @ rest"] by (simp add: word)
    also have "\<dots> = lex_from (add_text (CHR 39 # a @ [CHR 39, CHR 92, CHR 39]) st) (shell_word b @ rest)"
      by (simp only: lex_backslash) simp
    also have "\<dots> = lex_from (add_text (shell_word w) st) rest"
      using 1 w(1) by (simp add: word [unfolded w(1)])
    finally show ?thesis .
  qed
qed

subsection \<open>Printing commands\<close>

definition show_stage :: "string list \<Rightarrow> string" where
  "show_stage ws = concat (map (\<lambda>w. shell_word w @ '' '') ws)"

definition show_pipeline :: "string list list \<Rightarrow> string" where
  "show_pipeline stages = join ''| '' (map show_stage stages)"

definition show_command :: "string list list list \<Rightarrow> string" where
  "show_command ps = join ''; '' (map show_pipeline ps)"

definition between_words :: "lexer \<Rightarrow> bool" where
  "between_words st \<longleftrightarrow> lx_word st = None \<and> lx_expect st = None"

lemma lex_space: "lex_from st (CHR 32 # rest) = lex_from (finish_word st) rest"
  by (simp add: lex_step_def)

lemma finish_shell_word:
  "between_words st \<Longrightarrow> finish_word (add_text w st) = st\<lparr>lx_stage := lx_stage st @ [w]\<rparr>"
  by (cases st) (simp add: between_words_def finish_word_def end_word_def add_text_def unwrap_or_def)

lemma lex_show_stage:
  "between_words st \<Longrightarrow>
     lex_from st (show_stage ws @ rest) = lex_from (st\<lparr>lx_stage := lx_stage st @ map shell_word ws\<rparr>) rest"
proof (induction ws arbitrary: st)
  case (Cons w ws)
  have "lex_from st (show_stage (w # ws) @ rest)
      = lex_from (finish_word (add_text (shell_word w) st)) (show_stage ws @ rest)"
    by (simp add: show_stage_def lex_shell_word lex_space del: lex_from.simps)
  also have "\<dots> = lex_from (st\<lparr>lx_stage := lx_stage st @ [shell_word w]\<rparr>) (show_stage ws @ rest)"
    using finish_shell_word[OF Cons.prems] by simp
  finally show ?case using Cons.IH[of "st\<lparr>lx_stage := lx_stage st @ [shell_word w]\<rparr>"] Cons.prems
    by (simp add: between_words_def)
qed (simp add: show_stage_def)

lemma finish_between: "between_words st \<Longrightarrow> finish_word st = st"
  by (simp add: between_words_def finish_word_def end_word_def)

lemma lex_pipe:
  "between_words st \<Longrightarrow> lex_from st (''| '' @ rest) = lex_from (flush_stage st) rest"
  by (simp add: lex_step_def operator_def starts_with_def finish_between finish_word_def Let_def between_words_def
      end_word_def flush_stage_def)

lemma lex_semicolon:
  "between_words st \<Longrightarrow> lex_from st (''; '' @ rest) = lex_from (flush_pipeline (flush_stage st)) rest"
  by (simp add: lex_step_def operator_def starts_with_def finish_between finish_word_def Let_def between_words_def
      end_word_def flush_stage_def flush_pipeline_def)

lemma lex_show_pipeline:
  assumes "between_words st" "lx_stage st = []" "[] \<notin> set stages" "stages \<noteq> []"
  shows "\<exists>stage done. stages = done @ [stage] \<and>
    lex_from st (show_pipeline stages @ rest)
      = lex_from (st\<lparr>lx_pipeline := lx_pipeline st @ map (map shell_word) done, lx_stage := map shell_word stage\<rparr>) rest"
  using assms
proof (induction stages arbitrary: st)
  case (Cons s stages)
  show ?case
  proof (cases stages)
    case Nil
    with Cons.prems lex_show_stage[of st s rest] show ?thesis
      by (intro exI[of _ s] exI[of _ "[]"]) (simp add: show_pipeline_def)
  next
    case (Cons s' ss)
    let ?st = "st\<lparr>lx_pipeline := lx_pipeline st @ [map shell_word s]\<rparr>"
    have "lex_from st (show_pipeline (s # stages) @ rest)
        = lex_from (st\<lparr>lx_stage := map shell_word s\<rparr>) (''| '' @ show_pipeline stages @ rest)"
      using Cons lex_show_stage[OF Cons.prems(1)] Cons.prems(2) by (simp add: show_pipeline_def del: lex_from.simps)
    also have "\<dots> = lex_from (flush_stage (st\<lparr>lx_stage := map shell_word s\<rparr>)) (show_pipeline stages @ rest)"
      using lex_pipe[of "st\<lparr>lx_stage := map shell_word s\<rparr>" "show_pipeline stages @ rest"] Cons.prems(1)
      by (simp only: between_words_def) simp
    also have "flush_stage (st\<lparr>lx_stage := map shell_word s\<rparr>) = ?st"
      using Cons.prems(2,3) by (cases st) (auto simp: flush_stage_def)
    finally have step: "lex_from st (show_pipeline (s # stages) @ rest) = lex_from ?st (show_pipeline stages @ rest)" .
    from Cons.IH[of ?st] Cons.prems Cons obtain stage "done" where "stages = done @ [stage]"
      "lex_from ?st (show_pipeline stages @ rest)
        = lex_from (?st\<lparr>lx_pipeline := lx_pipeline ?st @ map (map shell_word) done, lx_stage := map shell_word stage\<rparr>) rest"
      by (auto simp: between_words_def)
    with step show ?thesis by (intro exI[of _ stage] exI[of _ "s # done"]) simp
  qed
qed simp

lemma lex_show_command:
  assumes "between_words st" "lx_stage st = []" "lx_pipeline st = []"
    and "\<forall>p \<in> set ps. p \<noteq> [] \<and> [] \<notin> set p"
  shows "flush_pipeline (flush_stage (lex_from st (show_command ps)))
      = st\<lparr>lx_pipelines := lx_pipelines st @ map (map (map shell_word)) ps\<rparr>
    \<and> between_words (lex_from st (show_command ps))"
  using assms
proof (induction ps arbitrary: st)
  case Nil
  then show ?case by (cases st) (simp add: show_command_def flush_stage_def flush_pipeline_def)
next
  case (Cons p ps)
  let ?st = "st\<lparr>lx_pipelines := lx_pipelines st @ [map (map shell_word) p]\<rparr>"
  have p: "p \<noteq> []" "[] \<notin> set p" using Cons.prems(4) by auto
  obtain stage "done" where split: "p = done @ [stage]"
    and lexed: "\<And>rest. lex_from st (show_pipeline p @ rest)
      = lex_from (st\<lparr>lx_pipeline := map (map shell_word) done, lx_stage := map shell_word stage\<rparr>) rest"
  proof -
    obtain stage "done" where "p = done @ [stage]" using p(1) by (metis append_butlast_last_id)
    moreover have "lex_from st (show_pipeline p @ rest)
      = lex_from (st\<lparr>lx_pipeline := map (map shell_word) done, lx_stage := map shell_word stage\<rparr>) rest" for rest
      using lex_show_pipeline[OF Cons.prems(1,2) p(2,1), of rest] Cons.prems(3) \<open>p = done @ [stage]\<close> by auto
    ultimately show thesis by (rule that)
  qed
  let ?mid = "st\<lparr>lx_pipeline := map (map shell_word) done, lx_stage := map shell_word stage\<rparr>"
  have mid: "between_words ?mid" using Cons.prems(1) by (simp add: between_words_def)
  have flushed: "flush_pipeline (flush_stage ?mid) = ?st"
    using p split Cons.prems(2,3) by (cases st) (auto simp: flush_stage_def flush_pipeline_def)
  show ?case
  proof (cases ps)
    case Nil
    then have "lex_from st (show_command (p # ps)) = ?mid" using lexed[of "[]"] by (simp add: show_command_def)
    with flushed mid Nil show ?thesis by simp
  next
    case (Cons p' ps')
    then have "lex_from st (show_command (p # ps)) = lex_from ?mid (''; '' @ show_command ps)"
      using lexed by (simp add: show_command_def)
    also have "\<dots> = lex_from ?st (show_command ps)"
      using lex_semicolon[OF mid] flushed by simp
    finally show ?thesis using Cons.IH[of ?st] Cons.prems by (simp add: between_words_def)
  qed
qed

lemma lex_quoted_command:
  assumes "\<forall>p \<in> set ps. p \<noteq> [] \<and> [] \<notin> set p"
  shows "lex_cmd (show_command ps) = \<lparr>ld_pipelines = map (map (map shell_word)) ps, ld_heredocs = []\<rparr>"
proof -
  have "between_words fresh_lexer" by (simp add: between_words_def fresh_lexer_def)
  from lex_show_command[OF this _ _ assms] have
    "flush_pipeline (flush_stage (lex_from fresh_lexer (show_command ps)))
      = fresh_lexer\<lparr>lx_pipelines := map (map (map shell_word)) ps\<rparr>"
    "between_words (lex_from fresh_lexer (show_command ps))"
    by (simp_all add: fresh_lexer_def)
  then show ?thesis by (simp add: lex_cmd_def end_text_def between_words_def end_word_def fresh_lexer_def)
qed

text \<open>
  C16. Every command of quoted words is read back as it was written: the lexer splits a printed list of
  pipelines into exactly those pipelines, stages and words, whatever characters the words have,
  finds no heredoc, and taking the quotes off gives the words.
\<close>

theorem lexer_reads_quoted_commands:
  assumes "\<forall>p \<in> set ps. p \<noteq> [] \<and> [] \<notin> set p"
  shows "lex_cmd (show_command ps)
      = \<lparr>ld_pipelines = map (map (map shell_word)) ps, ld_heredocs = []\<rparr>
    \<and> map (map (map unquote)) (ld_pipelines (lex_cmd (show_command ps))) = ps"
  using lex_quoted_command[OF assms] by (simp add: comp_def)

theorem lexer_reads_quoted_commands_witness:
  "ld_pipelines (lex_cmd (show_command [[[''a'', ''it is; a | b''], [''c'']]]))
     = [[[shell_word ''a'', shell_word ''it is; a | b''], [shell_word ''c'']]]"
  using lexer_reads_quoted_commands[of "[[[''a'', ''it is; a | b''], [''c'']]]"] by simp

subsection \<open>Heredocs\<close>

text \<open>A delimiter of letters, digits and underscores, bare or quoted.\<close>

definition delimiter_text :: "bool \<Rightarrow> string \<Rightarrow> string" where
  "delimiter_text quoted delim = (if quoted then shell_word delim else delim)"

definition plain_char :: "char \<Rightarrow> bool" where
  "plain_char c \<longleftrightarrow> is_ascii_alphanumeric c \<or> c = CHR ''_''"

lemma plain_char_special:
  "plain_char c \<Longrightarrow> c \<noteq> CHR 39 \<and> c \<noteq> CHR 96 \<and> c \<noteq> CHR 34 \<and> c \<noteq> CHR 92 \<and> c \<noteq> CHR ''$'' \<and> c \<noteq> CHR ''<''
     \<and> c \<noteq> CHR 32 \<and> c \<noteq> CHR 9 \<and> c \<noteq> CHR 10 \<and> c \<noteq> CHR ''|'' \<and> c \<noteq> CHR ''&'' \<and> c \<noteq> CHR '';'' \<and> c \<noteq> CHR ''-''"
  by (auto simp: plain_char_def string_defs)

lemma plain_char_step: "plain_char c \<Longrightarrow> lex_step st c cs = (add_text [c] st, cs)"
  using plain_char_special[of c] by (simp add: lex_step_def)

lemma lex_plain: "list_all plain_char w \<Longrightarrow> w \<noteq> [] \<Longrightarrow> lex_from st (w @ rest) = lex_from (add_text w st) rest"
proof (induction w arbitrary: st)
  case (Cons c w)
  then have step: "lex_from st ((c # w) @ rest) = lex_from (add_text [c] st) (w @ rest)"
    by (simp add: plain_char_step)
  show ?case
  proof (cases "w = []")
    case True
    with step show ?thesis by simp
  next
    case False
    with step Cons show ?thesis by simp
  qed
qed simp

lemma lex_delimiter:
  "list_all plain_char delim \<Longrightarrow> delim \<noteq> [] \<Longrightarrow>
     lex_from st (delimiter_text q delim @ rest) = lex_from (add_text (delimiter_text q delim) st) rest"
  by (simp add: delimiter_text_def lex_plain lex_shell_word)

lemma plain_no_quote: "list_all plain_char w \<Longrightarrow> filter (\<lambda>c. \<not> quote_char c) w = w \<and> \<not> list_ex quote_char w \<and> CHR 39 \<notin> set w"
  using plain_char_special by (induction w) (auto simp: quote_char_def)

lemma delimiter_read:
  assumes "list_all plain_char delim"
  shows "filter (\<lambda>c. \<not> quote_char c) (delimiter_text q delim) = delim \<and> list_ex quote_char (delimiter_text q delim) = q"
  using plain_no_quote[OF assms] escape_quotes_plain[of delim "[]"]
  by (cases q) (simp_all add: delimiter_text_def shell_word_def quote_char_def)

lemma heredoc_body_lines:
  assumes "\<forall>l \<in> set ls. CHR 10 \<notin> set l \<and> l \<noteq> delim" "CHR 10 \<notin> set delim" "delim \<noteq> []"
  shows "heredoc_body delim False (unlines ls @ delim @ CHR 10 # rest) = (unlines ls, rest)"
  using assms(1)
proof (induction ls)
  case Nil
  obtain c s where "delim @ CHR 10 # rest = c # s" by (cases "delim @ CHR 10 # rest") auto
  then have "heredoc_body delim False (delim @ CHR 10 # rest) = ([], rest)"
    using until_char_here[OF assms(2), of rest] by simp
  then show ?case by (simp add: unlines_def)
next
  case (Cons l ls)
  let ?more = "unlines ls @ delim @ CHR 10 # rest"
  have split: "unlines (l # ls) @ delim @ CHR 10 # rest = l @ CHR 10 # ?more" by (simp add: unlines_def)
  obtain c s where "l @ CHR 10 # ?more = c # s" by (cases "l @ CHR 10 # ?more") auto
  then have "heredoc_body delim False (l @ CHR 10 # ?more) = apfst ((@) (l @ [CHR 10])) (heredoc_body delim False ?more)"
    using until_char_here[of "CHR 10" l ?more] Cons.prems by simp
  with Cons show ?case unfolding split by (simp add: unlines_def)
qed

lemma lex_heredoc_operator:
  assumes "starts_with [c] w" "plain_char c \<or> c = CHR 39"
  shows "lex_from st (''<<'' @ w) = lex_from ((end_word st)\<lparr>lx_expect := Some False\<rparr>) w"
proof -
  obtain w' where "w = c # w'" using assms(1) by (cases w) (auto simp: starts_with_def)
  moreover have "c \<noteq> CHR ''<''" "c \<noteq> CHR ''-''"
    by (use assms(2) plain_char_special[of c] in \<open>elim disjE; simp\<close>)+
  ultimately have "lex_step st (CHR ''<'') (CHR ''<'' # w) = ((end_word st)\<lparr>lx_expect := Some False\<rparr>, w)"
    by (simp add: lex_step_def heredoc_operator_def starts_with_def Let_def)
  then show ?thesis by (simp only: append_Cons append_Nil lex_from.simps fst_conv snd_conv)
qed

text \<open>
  The body of a heredoc after a quoted command is exactly the lines up to the delimiter, with the
  note whether the delimiter was quoted; what follows is read as a command again.
\<close>

theorem heredoc_is_read_exactly:
  assumes "list_all plain_char delim" "delim \<noteq> []" and "\<forall>l \<in> set ls. CHR 10 \<notin> set l \<and> l \<noteq> delim"
    and "ws \<noteq> []" and "\<forall>p \<in> set ps. p \<noteq> [] \<and> [] \<notin> set p"
  shows "lex_cmd (show_stage ws @ ''<<'' @ delimiter_text q delim @ CHR 10 # unlines ls @ delim @ CHR 10 # show_command ps)
    = \<lparr>ld_pipelines = [map shell_word ws] # map (map (map shell_word)) ps, ld_heredocs = [(q, unlines ls)]\<rparr>"
proof -
  let ?tail = "unlines ls @ delim @ CHR 10 # show_command ps"
  let ?d = "delimiter_text q delim"
  define st1 where "st1 = fresh_lexer\<lparr>lx_stage := map shell_word ws, lx_expect := Some False\<rparr>"
  define st2 where "st2 = fresh_lexer\<lparr>lx_pipelines := [[map shell_word ws]], lx_heredocs := [(q, unlines ls)]\<rparr>"
  have between: "between_words fresh_lexer" "between_words (fresh_lexer\<lparr>lx_stage := map shell_word ws\<rparr>)"
    by (simp_all add: between_words_def fresh_lexer_def)
  have first: "\<exists>c. starts_with [c] (?d @ CHR 10 # ?tail) \<and> (plain_char c \<or> c = CHR 39)"
    using assms(1,2) by (cases delim) (auto simp: delimiter_text_def shell_word_def starts_with_def)
  have "lex_from fresh_lexer (show_stage ws @ ''<<'' @ ?d @ CHR 10 # ?tail)
      = lex_from (fresh_lexer\<lparr>lx_stage := map shell_word ws\<rparr>) (''<<'' @ ?d @ CHR 10 # ?tail)"
    using lex_show_stage[OF between(1)] by (simp add: fresh_lexer_def del: lex_from.simps)
  also have "\<dots> = lex_from st1 (?d @ CHR 10 # ?tail)"
  proof -
    obtain c where c: "starts_with [c] (?d @ CHR 10 # ?tail)" "plain_char c \<or> c = CHR 39" using first by blast
    have "(end_word (fresh_lexer\<lparr>lx_stage := map shell_word ws\<rparr>))\<lparr>lx_expect := Some False\<rparr> = st1"
      by (simp add: st1_def end_word_def fresh_lexer_def)
    with lex_heredoc_operator[OF c, of "fresh_lexer\<lparr>lx_stage := map shell_word ws\<rparr>"] show ?thesis by (simp only:)
  qed
  also have "\<dots> = lex_from (add_text ?d st1) (CHR 10 # ?tail)" by (rule lex_delimiter[OF assms(1,2)])
  also have "lex_step (add_text ?d st1) (CHR 10) ?tail = (st2, show_command ps)"
  proof -
    have "finish_word (add_text ?d st1)
        = fresh_lexer\<lparr>lx_stage := map shell_word ws, lx_pending := [(delim, q, False)]\<rparr>"
      using delimiter_read[OF assms(1), of q]
      by (simp add: finish_word_def add_text_def st1_def fresh_lexer_def unwrap_or_def)
    moreover have "heredoc_body delim False ?tail = (unlines ls, show_command ps)"
      using heredoc_body_lines assms(1-3) plain_char_special by (metis list_all_iff)
    ultimately show ?thesis using assms(4)
      by (simp add: lex_step_def end_line_def flush_stage_def flush_pipeline_def st2_def fresh_lexer_def)
  qed
  then have "lex_from (add_text ?d st1) (CHR 10 # ?tail) = lex_from st2 (show_command ps)" by simp
  finally have lexed: "lex_from fresh_lexer (show_stage ws @ ''<<'' @ ?d @ CHR 10 # ?tail) = lex_from st2 (show_command ps)" .
  have "flush_pipeline (flush_stage (lex_from st2 (show_command ps)))
      = st2\<lparr>lx_pipelines := [map shell_word ws] # map (map (map shell_word)) ps\<rparr>"
    "between_words (lex_from st2 (show_command ps))"
    using lex_show_command[of st2, OF _ _ _ assms(5)] by (simp_all add: st2_def between_words_def fresh_lexer_def)
  with lexed show ?thesis
    by (simp add: lex_cmd_def end_text_def between_words_def end_word_def st2_def fresh_lexer_def del: lex_from.simps)
qed

theorem heredoc_is_read_exactly_witness:
  "ld_heredocs (lex_cmd (show_stage [''cat''] @ ''<<'' @ ''EOF'' @ CHR 10 # unlines [''run `ls`''] @ ''EOF'' @ CHR 10 # show_command [[[''ls'']]]))
     = [(False, unlines [''run `ls`''])]"
proof -
  have plain: "list_all plain_char ''EOF''" by code_simp
  show ?thesis
    using heredoc_is_read_exactly[OF plain, of "[''run `ls`'']" "[''cat'']" "[[[''ls'']]]" False]
    by (simp add: delimiter_text_def)
qed

end
