(* ===== verification/Policy_Props.thy ===== *)
theory Policy_Props
  imports Policy_Consent
begin

text \<open>
  What the command policy promises (\<open>crates/tillandsias-plan/src/command_policy.rs\<close>): the seed can
  only tighten, a floor denial stands, a refused seed refuses everything, consent is spent once, and
  what \<open>rm\<close> may remove.
\<close>

subsection \<open>The decision is the strictest answer\<close>

interpretation strictest: lww_register "\<lambda>a b. de_strictness b < de_strictness a" de_strictness
  by unfold_locales simp

lemma rule_decision_strictness [simp]: "de_strictness (rule_decision r) = sr_decision r"
  by (cases "sr_decision r") (simp_all add: rule_decision_def allow_def deny_def consent_def)

lemma tighten_take_in: "tighten best r = strictest.take_in best (rule_decision r)"
  by (cases best) (simp_all add: tighten_def)

definition matching_rules :: "seed option \<Rightarrow> request \<Rightarrow> seed_rule list" where
  "matching_rules sd req =
     (case sd of None \<Rightarrow> [] | Some s \<Rightarrow> filter (\<lambda>r. rule_matches r req) (sd_rules s))"

definition answers :: "disk \<Rightarrow> string list \<Rightarrow> seed option \<Rightarrow> request \<Rightarrow> decision list" where
  "answers d protected sd req =
     (case floor_decide d protected req of None \<Rightarrow> [] | Some f \<Rightarrow> [f])
       @ map rule_decision (matching_rules sd req)"

lemma foldl_tighten: "foldl tighten best rs = foldl strictest.take_in best (map rule_decision rs)"
  by (induction rs arbitrary: best) (simp_all add: tighten_take_in)

lemma foldl_tighten_floor:
  "foldl tighten (floor_decide d protected req) (matching_rules sd req)
     = strictest.winner (answers d protected sd req)"
  by (cases "floor_decide d protected req") (simp_all add: answers_def foldl_tighten strictest.winner_def)

definition fixture_answer :: "disk \<Rightarrow> fixture_scope \<Rightarrow> request \<Rightarrow> decision option" where
  "fixture_answer d scope req = (if rq_regime req = ''fixture'' then fixture_decide d scope req else None)"

lemma decide_winner:
  "decide d scope protected sd req =
     (case fixture_answer d scope req of
        Some x \<Rightarrow> x
      | None \<Rightarrow> (case strictest.winner (answers d protected sd req) of
                   Some x \<Rightarrow> x | None \<Rightarrow> default_decision sd))"
  unfolding decide_def fixture_answer_def matching_rules_def [symmetric] Let_def foldl_tighten_floor ..

lemma write_decision_denies: "fixture_write_decision d t scope = Some x \<Longrightarrow> de_strictness x = Deny"
  by (auto simp: fixture_write_decision_def outside_scope_def deny_def Let_def split: if_splits)

lemma map_filter_Cons_member:
  "List.map_filter f xs = y # ys \<Longrightarrow> \<exists>x \<in> set xs. f x = Some y"
  by (induction xs) (auto simp: List.map_filter_simps split: option.splits)

lemma fixture_denies: "fixture_decide d scope req = Some x \<Longrightarrow> de_strictness x = Deny"
  by (auto simp: fixture_decide_def Let_def outside_scope_def deny_def write_decision_denies
      dest!: map_filter_Cons_member split: if_splits list.splits)

lemma fixture_answer_denies: "fixture_answer d scope req = Some x \<Longrightarrow> de_strictness x = Deny"
  by (simp add: fixture_answer_def fixture_denies split: if_splits)

lemma Deny_greatest [simp]: "(s :: strictness) \<le> Deny"
  by (cases s) (simp_all add: less_eq_strictness_def)

lemma Deny_le [simp]: "Deny \<le> s \<longleftrightarrow> s = Deny"
  by (cases s) (simp_all add: less_eq_strictness_def)

lemma winner_None: "strictest.winner ds = None \<longleftrightarrow> ds = []"
  by (metis option.distinct(1) strictest.winner_def foldl_Nil strictest.winner_split)

text \<open>
  C12. The decision is the first of the strictest among the floor's answer and the answers of the
  matching seed rules, the floor first: no answer is stricter, and none before it is as strict. Only
  without any answer it is the seed's default; a denial of the fixture regime comes before all.
\<close>

theorem decide_takes_strictest:
  "case fixture_answer d scope req of
     Some x \<Rightarrow> decide d scope protected sd req = x \<and> de_strictness x = Deny
   | None \<Rightarrow>
       if answers d protected sd req = [] then decide d scope protected sd req = default_decision sd
       else \<exists>xs ys. answers d protected sd req = xs @ decide d scope protected sd req # ys
              \<and> (\<forall>x \<in> set xs. de_strictness x < de_strictness (decide d scope protected sd req))
              \<and> (\<forall>y \<in> set ys. de_strictness y \<le> de_strictness (decide d scope protected sd req))"
proof (cases "fixture_answer d scope req")
  case (Some x)
  then show ?thesis by (simp add: decide_winner fixture_answer_denies)
next
  case None
  show ?thesis
  proof (cases "answers d protected sd req = []")
    case True
    with None show ?thesis by (simp add: decide_winner strictest.winner_def)
  next
    case False
    then obtain w xs ys where "strictest.winner (answers d protected sd req) = Some w"
      "answers d protected sd req = xs @ w # ys" "\<forall>x \<in> set xs. de_strictness x < de_strictness w"
      "\<forall>y \<in> set ys. de_strictness y \<le> de_strictness w" by (rule strictest.winner_split)
    with None False show ?thesis by (auto simp: decide_winner)
  qed
qed

text \<open>A disk without any file, and a request, for the examples.\<close>

definition blank_disk :: disk where
  "blank_disk = \<lparr>dk_home = None, dk_exists = (\<lambda>_. False), dk_canonical = (\<lambda>_. None), dk_is_dir = (\<lambda>_. False),
     dk_is_file = (\<lambda>_. False), dk_read = (\<lambda>_. None)\<rparr>"

definition no_scope :: fixture_scope where
  "no_scope = \<lparr>fx_roots = [], fx_git_dirs = []\<rparr>"

definition request_of :: "host_kind \<Rightarrow> string list \<Rightarrow> request" where
  "request_of k argv =
     \<lparr>rq_argv = argv, rq_cwd = ''/w'', rq_workspace = ''/w'', rq_host_kind = k, rq_regime = ''interactive'', rq_env = []\<rparr>"

definition deny_push :: seed where
  "deny_push = \<lparr>sd_default = DefaultAllow, sd_rules =
     [\<lparr>sr_id = ''p'', sr_program = ''git'', sr_args = [''push''], sr_any_arg = [], sr_decision = Deny, sr_host_kinds = []\<rparr>]\<rparr>"

theorem decide_takes_strictest_witness:
  "de_rule (decide blank_disk no_scope [''main''] (Some deny_push)
     (request_of BareMetal [''git'', ''push'', ''-f'', ''o'', ''main''])) = ''p''"
proof -
  let ?req = "request_of BareMetal [''git'', ''push'', ''-f'', ''o'', ''main'']"
  have "fixture_answer blank_disk no_scope ?req = None" by code_simp
  moreover have "answers blank_disk [''main''] (Some deny_push) ?req
      = [consent ''force-push'', deny ''p'' ''refused:policy:p'']" by code_simp
  ultimately have "\<exists>xs ys. [consent ''force-push'', deny ''p'' ''refused:policy:p''] = xs @ x # ys
      \<and> (\<forall>y \<in> set ys. de_strictness y \<le> de_strictness x)"
    if "x = decide blank_disk no_scope [''main''] (Some deny_push) ?req" for x
    using that decide_takes_strictest[of blank_disk "[''main'']" "Some deny_push" ?req no_scope] by auto
  then have "de_rule x = ''p''"
    if "x = decide blank_disk no_scope [''main''] (Some deny_push) ?req" for x
    using that by (cases x) (fastforce simp: Cons_eq_append_conv consent_def deny_def less_eq_strictness_def)
  then show ?thesis by blast
qed

subsection \<open>A floor denial stands\<close>

lemma decide_at_least:
  assumes "x \<in> set (answers d protected sd req)"
  shows "de_strictness x \<le> de_strictness (decide d scope protected sd req)"
proof (cases "fixture_answer d scope req")
  case (Some y)
  then show ?thesis by (simp add: decide_winner fixture_answer_denies)
next
  case None
  from assms have "answers d protected sd req \<noteq> []" by auto
  from strictest.winner_max[OF this] None assms show ?thesis by (auto simp: decide_winner)
qed

lemma floor_at_least:
  "floor_decide d protected req = Some f
    \<Longrightarrow> de_strictness f \<le> de_strictness (decide d scope protected sd req)"
  by (rule decide_at_least) (simp add: answers_def)

lemma refused_seed_denies: "de_strictness (decide_loaded d scope protected sd (Refused e) req) = Deny"
  by (simp add: decide_loaded_def deny_def)

lemma floor_denial_stands:
  assumes "floor_decide d protected req = Some f" "de_strictness f = Deny"
  shows "de_strictness (decide_loaded d scope protected sd load req) = Deny"
  using floor_at_least[OF assms(1)] assms(2)
  by (cases load) (auto simp: decide_loaded_def deny_def)

text \<open>What no consent, no seed and no environment may allow.\<close>

definition never_runs :: "request \<Rightarrow> bool" where
  "never_runs req \<longleftrightarrow>
     (let argv = rq_argv req in
      argv \<noteq> []
      \<and> (is_shell_string_call argv \<or> is_credential_mutation argv \<or> is_consent_grant argv
         \<or> (reset_class argv = Some HardReset \<and> rq_host_kind req = Forge)))"

lemma never_runs_floor:
  "never_runs req \<Longrightarrow> \<exists>f. floor_decide d protected req = Some f \<and> de_strictness f = Deny"
  by (auto simp: never_runs_def floor_decide_def reset_decision_def deny_def Let_def)

text \<open>
  C9. A shell given a command string, a change of credentials, an agent minting its own consent and a
  hard reset inside a forge are denied at the execution door under every seed, every load, every
  fixture scope, every environment and every store of tokens, and the store is left as it was.
\<close>

theorem floor_denials_never_run:
  assumes "never_runs req"
  shows "de_strictness (fst (decide_execution ck cx d scope protected sd load req st)) = Deny
    \<and> snd (decide_execution ck cx d scope protected sd load req st) = st"
proof -
  obtain f where "floor_decide d protected req = Some f" "de_strictness f = Deny"
    using never_runs_floor[OF assms] by blast
  from floor_denial_stands[OF this] show ?thesis by (simp add: decide_execution_def Let_def)
qed

definition flat_clock :: clockwork where
  "flat_clock = \<lparr>ck_digest = join '' '', ck_time = (\<lambda>s. if s = [] then None else Some 10)\<rparr>"

definition bare_ctx :: consent_ctx where
  "bare_ctx = \<lparr>cx_host = ''h'', cx_now = 5, cx_now_text = ''5'', cx_evidence = BareMetal, cx_skill = None,
     cx_reset_ok = None\<rparr>"

definition hard_reset_token :: token_file where
  "hard_reset_token = Some [''id'' \<mapsto> ''t1'', ''class'' \<mapsto> ''hard-reset'', ''host'' \<mapsto> ''h'',
     ''argv_digest'' \<mapsto> ''wsl --unregister T'', ''expires_at'' \<mapsto> ''10'']"

definition one_token :: consent_store where
  "one_token = \<lparr>cs_files = [(''hard-reset-1.json'', hard_reset_token)], cs_ledger = []\<rparr>"

theorem floor_denials_never_run_witness:
  "de_strictness (fst (decide_execution flat_clock bare_ctx blank_disk no_scope [''main''] None Absent
     (request_of Forge [''wsl'', ''--unregister'', ''T'']) one_token)) = Deny"
proof -
  have "never_runs (request_of Forge [''wsl'', ''--unregister'', ''T''])" by code_simp
  from floor_denials_never_run[OF this] show ?thesis by blast
qed

subsection \<open>Loading the seed\<close>

lemma map_filter_Nil: "List.map_filter f xs = [] \<longleftrightarrow> (\<forall>x \<in> set xs. f x = None)"
  by (induction xs) (auto simp: List.map_filter_simps split: option.splits)

definition rule_tightens :: "disk \<Rightarrow> string list \<Rightarrow> string \<Rightarrow> seed_rule \<Rightarrow> bool" where
  "rule_tightens d protected root r \<longleftrightarrow>
     (\<forall>k f. applies_to r k \<longrightarrow> floor_decide d protected (described_request r root k) = Some f
        \<longrightarrow> de_strictness f \<le> sr_decision r)
     \<and> (sr_id r \<in> set (floor_rules @ fixture_rules) \<longrightarrow> sr_decision r \<noteq> Allow)"

lemma all_host_kinds [simp]: "k \<in> set all_host_kinds"
  by (cases k) (simp_all add: all_host_kinds_def)

lemma no_host_kind: "List.map_filter f all_host_kinds = [] \<longleftrightarrow> (\<forall>k. f k = None)"
  by (auto simp: map_filter_Nil)

lemma loosened_rule_None: "loosened_rule d protected root r = None \<longleftrightarrow> rule_tightens d protected root r"
proof -
  let ?low = "\<lambda>k. if \<not> applies_to r k then None
     else (case floor_decide d protected (described_request r root k) of
             Some f \<Rightarrow> if sr_decision r < de_strictness f then Some (de_rule f) else None
           | None \<Rightarrow> None)"
  have "(\<forall>k. ?low k = None) \<longleftrightarrow>
      (\<forall>k f. applies_to r k \<longrightarrow> floor_decide d protected (described_request r root k) = Some f
         \<longrightarrow> de_strictness f \<le> sr_decision r)"
    by (simp split: option.splits) (meson not_less)
  moreover have "List.map_filter ?low all_host_kinds = [] \<longleftrightarrow> (\<forall>k. ?low k = None)"
    by (rule no_host_kind)
  ultimately show ?thesis
    by (auto simp: loosened_rule_def rule_tightens_def split: list.splits)
qed

lemma check_cannot_loosen_Inr:
  "check_cannot_loosen d protected root sd = Inr u \<longleftrightarrow> (\<forall>r \<in> set (sd_rules sd). rule_tightens d protected root r)"
proof -
  have "List.map_filter (loosened_rule d protected root) (sd_rules sd) = []
      \<longleftrightarrow> (\<forall>r \<in> set (sd_rules sd). rule_tightens d protected root r)"
    by (simp add: map_filter_Nil loosened_rule_None)
  then show ?thesis by (cases "List.map_filter (loosened_rule d protected root) (sd_rules sd)") (auto simp: check_cannot_loosen_def)
qed

text \<open>
  C28. A seed takes part in a decision only when its text parses and each of its rules is at least as
  strict as the floor is on what the rule describes, on every host kind it applies to. Without a
  seed the load is \<open>Absent\<close>, which needs a missing file at the default path; in every other case
  every request is denied.
\<close>

theorem load_seed_sound:
  "case load_seed d parse_yaml protected root explicit_path file of
     (Some sd, load) \<Rightarrow>
       load = Loaded (length (sd_rules sd))
       \<and> (\<exists>text. file = SeedText text \<and> parse_seed parse_yaml text = Inr sd)
       \<and> list_all (rule_tightens d protected root) (sd_rules sd)
   | (None, load) \<Rightarrow>
       load = Absent \<and> file = SeedMissing \<and> \<not> explicit_path
       \<or> de_strictness (decide_loaded d' scope protected' None load req) = Deny"
  by (auto simp: load_seed_def refused_seed_denies list_all_iff check_cannot_loosen_Inr split: seed_file.split sum.split)

subsection \<open>Consent is spent\<close>



definition token_names :: "consent_store \<Rightarrow> string list" where
  "token_names st = map fst (cs_files st)"

lemma remove_token_files: "cs_files (remove_token n st) = filter (\<lambda>(m, _). m \<noteq> n) (cs_files st)"
  by (simp add: remove_token_def)

lemma spend_files: "cs_files (spend ck cx cls argv n st) = cs_files (remove_token n st)"
  by (simp add: spend_def remove_token_def)

lemma token_names_remove: "token_names (remove_token n st) = filter (\<lambda>m. m \<noteq> n) (token_names st)"
  by (simp add: token_names_def remove_token_files filter_map o_def case_prod_unfold)

lemma token_names_spend: "token_names (spend ck cx cls argv n st) = filter (\<lambda>m. m \<noteq> n) (token_names st)"
  using token_names_remove by (simp add: token_names_def spend_files)






subsection \<open>Racing runs spend a token once\<close>

definition claims_sound :: "string set \<Rightarrow> race \<Rightarrow> bool" where
  "claims_sound names r \<longleftrightarrow>
     distinct (map fst (rc_taken r))
     \<and> set (map fst (rc_taken r)) \<inter> set (token_names (rc_store r)) = {}
     \<and> set (map fst (rc_taken r)) \<union> set (token_names (rc_store r)) \<subseteq> names
     \<and> (\<forall>p i. rc_process r p = Ended (Consumed i) \<longrightarrow> p \<in> snd ` set (rc_taken r))"

lemma token_names_set: "fst ` set (cs_files st) = set (token_names st)"
  by (simp add: token_names_def)

lemma claims_sound_step:
  assumes "race_step ck cx cls argv r r'" and "claims_sound names r"
  shows "claims_sound names r'"
  using assms(1)
proof cases
  case (read_unusable p n ns invalid reason)
  with assms(2) show ?thesis by (auto simp: claims_sound_def token_names_remove)
next
  case (claim_won p n i ns invalid)
  with assms(2) show ?thesis
    by (auto simp: claims_sound_def token_names_spend token_names_set)
qed (use assms(2) in \<open>auto simp: claims_sound_def split: option.splits\<close>)

lemma claims_sound_steps:
  assumes "(race_step ck cx cls argv)\<^sup>*\<^sup>* r r'" and "claims_sound names r"
  shows "claims_sound names r'"
  using assms by (induction rule: rtranclp_induct) (auto intro: claims_sound_step)

text \<open>
  C11. However the runs interleave, no token is spent twice: the names that renames claimed are
  distinct, were in the store when the race began and are no longer in it, every run that goes ahead
  claimed one of its own, and so at most as many runs go ahead as the store had token files.
\<close>

theorem race_spends_once:
  assumes steps: "(race_step ck cx cls argv)\<^sup>*\<^sup>* r r'"
    and start: "rc_taken r = []" "\<forall>p i. rc_process r p \<noteq> Ended (Consumed i)"
  shows "distinct (map fst (rc_taken r'))
    \<and> set (map fst (rc_taken r')) \<subseteq> set (token_names (rc_store r)) - set (token_names (rc_store r'))
    \<and> card {p. \<exists>i. rc_process r' p = Ended (Consumed i)} \<le> length (cs_files (rc_store r))"
proof -
  have "claims_sound (set (token_names (rc_store r))) r" using start by (simp add: claims_sound_def)
  from claims_sound_steps[OF steps this] have sound: "claims_sound (set (token_names (rc_store r))) r'" .
  have "card {p. \<exists>i. rc_process r' p = Ended (Consumed i)} \<le> card (set (map snd (rc_taken r')))"
    using sound by (intro card_mono) (auto simp: claims_sound_def)
  also have "\<dots> \<le> length (map fst (rc_taken r'))" by (metis card_length length_map)
  also have "\<dots> = card (set (map fst (rc_taken r')))"
    using sound by (metis claims_sound_def distinct_card)
  also have "\<dots> \<le> card (set (token_names (rc_store r)))"
    using sound by (intro card_mono) (auto simp: claims_sound_def)
  also have "\<dots> \<le> length (cs_files (rc_store r))" using card_length[of "token_names (rc_store r)"] by (simp add: token_names_def)
  finally show ?thesis using sound by (auto simp: claims_sound_def)
qed

definition two_runs :: race where
  "two_runs = \<lparr>rc_store = one_token, rc_process = (\<lambda>_. Scanning [''hard-reset-1.json''] None), rc_taken = []\<rparr>"

theorem race_spends_once_witness:
  "\<exists>r'. (race_step flat_clock bare_ctx ''hard-reset'' [''wsl'', ''--unregister'', ''T''])\<^sup>*\<^sup>* two_runs r'
     \<and> rc_process r' 0 = Ended (Consumed ''t1'') \<and> rc_process r' 1 = Scanning [] None
     \<and> card {p. \<exists>i. rc_process r' p = Ended (Consumed i)} \<le> 1"
proof -
  let ?step = "race_step flat_clock bare_ctx ''hard-reset'' [''wsl'', ''--unregister'', ''T'']"
  have fit: "unusable flat_clock bare_ctx ''hard-reset'' (read_token one_token ''hard-reset-1.json'') = None"
    "token_field (read_token one_token ''hard-reset-1.json'') ''argv_digest''
      = ck_digest flat_clock [''wsl'', ''--unregister'', ''T'']"
    "token_field (read_token one_token ''hard-reset-1.json'') ''id'' = ''t1''"
    by code_simp+
  define r1 where "r1 = two_runs\<lparr>rc_process := (rc_process two_runs)(0 := Claiming ''hard-reset-1.json'' ''t1'' [] None)\<rparr>"
  define r2 where "r2 = r1\<lparr>rc_process := (rc_process r1)(1 := Claiming ''hard-reset-1.json'' ''t1'' [] None)\<rparr>"
  define r3 where "r3 = \<lparr>rc_store = spend flat_clock bare_ctx ''hard-reset'' [''wsl'', ''--unregister'', ''T''] ''hard-reset-1.json'' (rc_store r2),
    rc_process = (rc_process r2)(0 := Ended (Consumed ''t1'')), rc_taken = [(''hard-reset-1.json'', 0)]\<rparr>"
  define r4 where "r4 = r3\<lparr>rc_process := (rc_process r3)(1 := Scanning [] None)\<rparr>"
  have "?step two_runs r1"
    using race_step.read_match[of two_runs 0 "''hard-reset-1.json''" "[]" None flat_clock bare_ctx "''hard-reset''" "[''wsl'', ''--unregister'', ''T'']"] fit
    by (simp add: r1_def two_runs_def)
  moreover have "?step r1 r2"
    using race_step.read_match[of r1 1 "''hard-reset-1.json''" "[]" None flat_clock bare_ctx "''hard-reset''" "[''wsl'', ''--unregister'', ''T'']"] fit
    by (simp add: r2_def r1_def two_runs_def)
  moreover have "?step r2 r3"
    using race_step.claim_won[of r2 0 "''hard-reset-1.json''" "''t1''" "[]" None flat_clock bare_ctx "''hard-reset''" "[''wsl'', ''--unregister'', ''T'']"]
    by (simp add: r3_def r2_def r1_def two_runs_def one_token_def)
  moreover have "?step r3 r4"
    using race_step.claim_lost[of r3 1 "''hard-reset-1.json''" "''t1''" "[]" None flat_clock bare_ctx "''hard-reset''" "[''wsl'', ''--unregister'', ''T'']"]
    by (simp add: r4_def r3_def r2_def token_names_set token_names_spend)
  ultimately have steps: "?step\<^sup>*\<^sup>* two_runs r4" by (meson converse_rtranclp_into_rtranclp rtranclp.rtrancl_refl)
  have "card {p. \<exists>i. rc_process r4 p = Ended (Consumed i)} \<le> length (cs_files (rc_store two_runs))"
    using race_spends_once[OF steps] by (simp add: two_runs_def)
  then have "card {p. \<exists>i. rc_process r4 p = Ended (Consumed i)} \<le> 1" by (simp add: two_runs_def one_token_def)
  with steps show ?thesis by (intro exI[of _ r4]) (simp add: r4_def r3_def)
qed

subsection \<open>What rm may remove\<close>

definition absolute_home :: "disk \<Rightarrow> bool" where
  "absolute_home d \<longleftrightarrow> (case dk_home d of None \<Rightarrow> True | Some h \<Rightarrow> is_absolute h)"

lemma rooted_home: "absolute_home d \<Longrightarrow> rooted_path (home_path d)"
proof -
  have "is_absolute ''/''" by code_simp
  then show "absolute_home d \<Longrightarrow> rooted_path (home_path d)"
    by (auto simp: absolute_home_def home_path_def intro!: rooted_components split: option.splits)
qed

lemma rooted_raw: "absolute_home d \<Longrightarrow> rooted_path cwd \<Longrightarrow> rooted_path (raw_path d cwd p)"
  by (auto simp: raw_path_def rooted_home rooted_join split: option.splits)

lemma lexical_abs_plain:
  "absolute_home d \<Longrightarrow> rooted_path cwd \<Longrightarrow> plain (lexical_abs d cwd p) \<and> hd (lexical_abs d cwd p) = RootDir"
  using resolve_rooted[OF rooted_raw] by (simp add: lexical_abs_def)

lemma path_within_iff: "path_within p dir \<longleftrightarrow> (\<exists>rest. p = dir @ rest)"
  by (metis append_eq_conv_conj append_take_drop_id path_within_def)

lemma find_None_all: "find P xs = None \<longleftrightarrow> (\<forall>x \<in> set xs. \<not> P x)"
  by (induction xs) auto

lemma destroy_target_None_iff:
  assumes "program_name (hd (rq_argv req)) = ''rm''" and "rm_scan False (tl (rq_argv req)) = (True, targets)"
    and "is_absolute (rq_cwd req)" and "absolute_home d"
  shows "destroy_target d req = None \<longleftrightarrow>
    (\<forall>t \<in> set targets. \<exists>rest. rest \<noteq> [] \<and> ParentDir \<notin> set rest \<and> RootDir \<notin> set rest
       \<and> lexical_abs d (components (rq_cwd req)) t = lexical_abs d [RootDir] (rq_workspace req) @ rest)"
proof -
  let ?ws = "lexical_abs d [RootDir] (rq_workspace req)"
  let ?abs = "lexical_abs d (components (rq_cwd req))"
  have free: "destroy_target d req = None \<longleftrightarrow> (\<forall>t \<in> set targets. ?abs t \<noteq> ?ws \<and> path_within (?abs t) ?ws)"
    using assms(1,2) by (simp add: destroy_target_def Let_def find_None_all)
  have ws: "?ws \<noteq> []"
    using resolve_rooted[OF rooted_raw[OF assms(4)], of "[RootDir]"] by (simp add: lexical_abs_def rooted_path_def)
  have inside: "?abs t \<noteq> ?ws \<and> path_within (?abs t) ?ws \<longleftrightarrow>
      (\<exists>rest. rest \<noteq> [] \<and> ParentDir \<notin> set rest \<and> RootDir \<notin> set rest \<and> ?abs t = ?ws @ rest)" for t
  proof -
    have "plain (?abs t)" using lexical_abs_plain[OF assms(4) rooted_components[OF assms(3)]] by blast
    then have "ParentDir \<notin> set rest \<and> RootDir \<notin> set rest" if "?abs t = ?ws @ rest" for rest
      using that ws by (auto simp: plain_def)
    then show ?thesis by (auto simp: path_within_iff)
  qed
  show ?thesis unfolding free by (simp add: inside)
qed

text \<open>
  With absolute directories, a recursive \<open>rm\<close> needs no consent exactly when every target resolves
  strictly inside the workspace: the workspace's own components followed by at least one more, all
  of them plain names, whatever the target climbs or expands.
\<close>

theorem rm_free_iff_inside:
  assumes "program_name (hd (rq_argv req)) = ''rm''" and "rm_scan False (tl (rq_argv req)) = (True, targets)"
    and "is_absolute (rq_cwd req)" and "absolute_home d"
  shows "destroy_target d req = None \<longleftrightarrow>
    (\<forall>t \<in> set targets. \<exists>rest. rest \<noteq> [] \<and> ParentDir \<notin> set rest \<and> RootDir \<notin> set rest
       \<and> lexical_abs d (components (rq_cwd req)) t = lexical_abs d [RootDir] (rq_workspace req) @ rest)"
  using assms by (rule destroy_target_None_iff)

theorem rm_free_iff_inside_witness:
  "destroy_target blank_disk (request_of BareMetal [''rm'', ''-rf'', ''a/../b'']) = None
   \<and> destroy_target blank_disk (request_of BareMetal [''rm'', ''-rf'', ''a/../../b'']) \<noteq> None"
proof -
  have at: "program_name (hd (rq_argv (request_of BareMetal [''rm'', ''-rf'', t]))) = ''rm''"
    "is_absolute (rq_cwd (request_of BareMetal [''rm'', ''-rf'', t]))" for t
    by (simp add: request_of_def; code_simp)+
  have home: "absolute_home blank_disk" by (simp add: absolute_home_def blank_disk_def)
  have scan: "rm_scan False (tl (rq_argv (request_of BareMetal [''rm'', ''-rf'', ''a/../b'']))) = (True, [''a/../b''])"
    "rm_scan False (tl (rq_argv (request_of BareMetal [''rm'', ''-rf'', ''a/../../b'']))) = (True, [''a/../../b''])"
    by code_simp+
  have paths: "lexical_abs blank_disk (components ''/w'') ''a/../b'' = [RootDir, Normal ''w'', Normal ''b'']"
    "lexical_abs blank_disk (components ''/w'') ''a/../../b'' = [RootDir, Normal ''b'']"
    "lexical_abs blank_disk [RootDir] ''/w'' = [RootDir, Normal ''w'']"
    by code_simp+
  show ?thesis
    using rm_free_iff_inside[OF at(1) scan(1) at(2) home] rm_free_iff_inside[OF at(1) scan(2) at(2) home]
    by (simp add: paths request_of_def)
qed

subsection \<open>What the floor does not see\<close>

text \<open>
  Pushing a mirror rewrites every ref of the remote and names none: the check of the flag comes to
  nothing, since only a named ref is looked at.
\<close>

lemma mirror_push_unseen:
  "force_flag [''push'', ''--mirror'', ''origin'']
   \<and> floor_decide d protected (request_of k [''git'', ''push'', ''--mirror'', ''origin'']) = None"
proof -
  let ?req = "request_of k [''git'', ''push'', ''--mirror'', ''origin'']"
  have argv: "rq_argv ?req = [''git'', ''push'', ''--mirror'', ''origin'']" by (simp add: request_of_def)
  have "\<not> is_shell_string_call (rq_argv ?req)" "\<not> is_credential_mutation (rq_argv ?req)" "\<not> is_consent_grant (rq_argv ?req)"
    "reset_class (rq_argv ?req) = None" "program_name (hd (rq_argv ?req)) \<noteq> ''rm''"
    "drop 2 (positional_words git_value_flags (tl (rq_argv ?req))) = []" "force_flag [''push'', ''--mirror'', ''origin'']"
    unfolding argv by code_simp+
  then show ?thesis
    by (simp add: floor_decide_def destroy_target_def force_push_target_def Let_def argv)
qed

text \<open>The flags of a shell that takes a string are compared whole, so that a bundle of flags is not one.\<close>

lemma bundled_shell_flag_unseen:
  "is_shell_string_call [''bash'', ''-c'', ''x''] \<and> \<not> is_shell_string_call [''bash'', ''-ec'', ''x'']"
  by code_simp

text \<open>
  Some options of git that take a value are known to the fixture rules only: with one of them the
  credential rule takes the value for the subcommand.
\<close>

lemma config_env_hides_credential:
  "is_credential_mutation [''git'', ''credential'', ''approve'']
   \<and> \<not> is_credential_mutation [''git'', ''--config-env'', ''a=B'', ''credential'', ''approve'']
   \<and> git_arm_of ''--config-env'' = ValueFlag"
  by code_simp

text \<open>A variable that the command sets for itself loses against the one of the caller.\<close>

lemma own_assignment_loses:
  "env_prefix [''env'', ''GIT_DIR=/real'', ''git'', ''push''] = ([''git'', ''push''], [(''GIT_DIR'', ''/real'')])
   \<and> env_var ([(''GIT_DIR'', ''/real'')] @ [(''GIT_DIR'', ''/scratch'')]) ''GIT_DIR'' = Some ''/scratch''"
  by code_simp

text \<open>
  A rule of the project that asks for consent and has the name of a floor class is answered by the
  environment of a smoke skill, whatever it is about; the load accepts it.
\<close>

definition pull_asks :: seed where
  "pull_asks = \<lparr>sd_default = DefaultAllow, sd_rules =
     [\<lparr>sr_id = ''soft-reset'', sr_program = ''docker'', sr_args = [], sr_any_arg = [], sr_decision = Consent,
       sr_host_kinds = []\<rparr>]\<rparr>"

definition smoke_ctx :: consent_ctx where
  "smoke_ctx = bare_ctx\<lparr>cx_skill := Some ''smoke-curl-install-and-test-e2e'', cx_reset_ok := Some ''1''\<rparr>"

lemma seed_consent_by_floor_name:
  "map_sum id (\<lambda>_. True) (check_cannot_loosen blank_disk [''main''] ''/w'' pull_asks) = Inr True
   \<and> de_strictness (decide blank_disk no_scope [''main''] (Some pull_asks) (request_of BareMetal [''docker'', ''rm''])) = Consent
   \<and> fst (decide_execution flat_clock smoke_ctx blank_disk no_scope [''main''] (Some pull_asks) (Loaded 1)
           (request_of BareMetal [''docker'', ''rm'']) one_token)
       = allow ''soft-reset'' ''ok:policy:soft-reset:env-preauthorised''"
proof (intro conjI)
  show "map_sum id (\<lambda>_. True) (check_cannot_loosen blank_disk [''main''] ''/w'' pull_asks) = Inr True" by code_simp
qed code_simp+

end
