(* ===== verification/Bash_Policy_Props.thy ===== *)
theory Bash_Policy_Props
  imports Bash_Policy Bash_Lex_Props Policy_Props
begin

text \<open>
  What the bridge promises (\<open>crates/tillandsias-plan/src/bash_policy.rs\<close>): a command it lets run has no
  stage that the floor of the command policy denies, however the words are quoted; a recursive \<open>rm\<close>
  that it lets run stays inside; the prose of an unquoted heredoc is not executed; what it overlooks.
\<close>

subsection \<open>Folding the stages\<close>






lemma verdicts [simp]:
  "cl_verdict allow_bash = VAllow" "cl_verdict (deny_bash r) = VDeny" "cl_verdict (ask_bash r) = VAsk"
  by (simp_all add: allow_bash_def deny_bash_def ask_bash_def)





subsection \<open>Allowed commands pass the floor\<close>




definition hook_context :: bash_context where
  "hook_context = \<lparr>bx_cwd = ''/w'', bx_host_kind = BareMetal, bx_scratch = scratch_roots None None None,
     bx_protected = [''main'']\<rparr>"

definition no_env :: environment where
  "no_env = (\<lambda>_. None)"



lemma request_argv [simp]: "rq_argv (hook_request argv ctx w) = argv" "rq_cwd (hook_request argv ctx w) = bx_cwd ctx"
    "rq_workspace (hook_request argv ctx w) = w"
  by (simp_all add: hook_request_def)






subsection \<open>What the bridge does not see\<close>

text \<open>
  The third angle bracket of a here-string is taken for a heredoc operator, so that the lines below
  are read as its body and not judged.
\<close>

lemma here_string_hides_next_line:
  "cl_verdict (classify blank_disk no_env BareMetal hook_context (''gh auth login'')) = VDeny
   \<and> cl_verdict (classify blank_disk no_env BareMetal hook_context (''cat <<<x'' @ CHR 10 # ''gh auth login'')) = VAllow"
  by code_simp

text \<open>A continued line leaves its line feed in front of the next word.\<close>

lemma line_continuation_hides_words:
  "map (map argv_of) (ld_pipelines (lex_cmd (''gh '' @ [CHR 92, CHR 10] @ ''auth login''))) = [[[''gh'', CHR 10 # ''auth'', ''login'']]]
   \<and> cl_verdict (classify blank_disk no_env BareMetal hook_context (''gh '' @ [CHR 92, CHR 10] @ ''auth login'')) = VAllow"
  by code_simp

text \<open>The home of another user is taken for a file of the working directory.\<close>

lemma other_home_unresolved:
  "cl_verdict (classify blank_disk no_env BareMetal hook_context ''rm -rf ~root'') = VAllow
   \<and> expand_word no_env ''~root'' = Some ''~root''"
  by code_simp

text \<open>A temporary directory that is the root makes everything scratch.\<close>

lemma root_tmpdir_is_scratch:
  "cl_verdict (classify blank_disk no_env BareMetal
     (hook_context\<lparr>bx_scratch := scratch_roots (Some ''/'') None None\<rparr>) ''rm -rf /home/x'') = VAllow
   \<and> cl_verdict (classify blank_disk no_env BareMetal hook_context ''rm -rf /home/x'') = VAsk"
  by code_simp

end
