(* ===== verification/Branch_Discipline.thy ===== *)
theory Branch_Discipline
  imports Policy_Seed "HOL-Library.Char_ord" "HOL-Library.List_Lexorder"
begin

text \<open>
  The branch discipline of a project (\<open>crates/tillandsias-plan/src/branch_discipline.rs\<close>): its seed,
  the answer about a ref, and the level that the history of the checkout shows. The regular
  expression library, the output of git and the lower case of a text are arguments. An answer is its
  verdict, whether it refuses and the rule; the explanations are left out.
\<close>

record regexes =
  rx_compiles :: "string \<Rightarrow> bool"
  rx_matches :: "string \<Rightarrow> string \<Rightarrow> bool"
  rx_escape :: "string \<Rightarrow> string"

datatype source = FromSeed | FromDefault

fun source_str :: "source \<Rightarrow> string" where
  "source_str FromSeed = ''seed''"
| "source_str FromDefault = ''default''"

definition enforcements :: "string list" where
  "enforcements = [''advised'', ''warn'', ''enforced'']"

definition discipline_rules :: "string list" where
  "discipline_rules = [''default_branch'', ''ref_grammar'']"

record discipline =
  bd_source :: source
  bd_level :: nat
  bd_enforcement :: "(string, string) btmap"
  bd_default :: string
  bd_integration :: "(string, string) btmap"
  bd_work_ref :: "string option"
  bd_salvage_ref :: "string option"
  bd_plan_only :: "string list"
  bd_freeze :: "string option"
  bd_denied :: "string option"
  bd_refusal :: "string option"

definition advised_rules :: "(string, string) btmap" where
  "advised_rules = foldl (\<lambda>m r. bt_insert r ''advised'' m) [] discipline_rules"

definition discipline_floor :: "string \<Rightarrow> discipline" where
  "discipline_floor default_branch =
     \<lparr>bd_source = FromDefault, bd_level = 0, bd_enforcement = advised_rules, bd_default = default_branch,
      bd_integration = [], bd_work_ref = None, bd_salvage_ref = None, bd_plan_only = [], bd_freeze = None,
      bd_denied = None, bd_refusal = None\<rparr>"

definition enforcement_of :: "discipline \<Rightarrow> string \<Rightarrow> string" where
  "enforcement_of d r = unwrap_or ''advised'' (map_of (bd_enforcement d) r)"

definition integration_target :: "discipline \<Rightarrow> string \<Rightarrow> string" where
  "integration_target d platform =
     (if bd_level d = 0 then bd_default d
      else unwrap_or (bd_default d) (map_of (bd_integration d) platform))"

text \<open>\<open>str::replace\<close>; no pattern of the code is empty.\<close>

function replace_text :: "string \<Rightarrow> string \<Rightarrow> string \<Rightarrow> string" where
  "replace_text p q s =
     (if p = [] then s
      else case split_once_text p s of
             None \<Rightarrow> s
           | Some (a, b) \<Rightarrow> a @ q @ replace_text p q b)"
  by auto

termination
  by (relation "measure (\<lambda>(_, _, s). length s)") (auto dest: split_once_text_Some)

declare replace_text.simps [simp del]

definition denied_message :: "discipline \<Rightarrow> string option \<Rightarrow> string" where
  "denied_message d platform =
     (let integration = (case platform of
                           Some p \<Rightarrow> integration_target d p
                         | None \<Rightarrow> join ''|'' (bt_set (map snd (bd_integration d))));
          template = unwrap_or (''push to {default} denied: this project uses branch {integration} for ''
                       @ ''integration and {work_ref} for work; switch to the corresponding branch and ''
                       @ ''rebase to remote'') (bd_denied d)
      in replace_text ''{work_ref}'' (unwrap_or ''work/<id>'' (bd_work_ref d))
           (replace_text ''{integration}'' integration (replace_text ''{default}'' (bd_default d) template)))"

definition provenance :: "discipline \<Rightarrow> string option \<Rightarrow> string" where
  "provenance d r =
     (let enforcement = (case (bd_source d, r) of
                           (FromDefault, _) \<Rightarrow> ''advised''
                         | (FromSeed, Some x) \<Rightarrow> enforcement_of d x
                         | (FromSeed, None) \<Rightarrow> ''-'')
      in ''source='' @ source_str (bd_source d) @ '' level='' @ show_nat (bd_level d)
         @ '' enforcement='' @ enforcement)"

subsection \<open>Answers about a ref\<close>

record ref_answer =
  ra_verdict :: string
  ra_refused :: bool
  ra_rule :: "string option"

definition ok_ref :: "string \<Rightarrow> ref_answer" where
  "ok_ref cls = \<lparr>ra_verdict = ''ok:discipline:'' @ cls, ra_refused = False, ra_rule = None\<rparr>"

record qualifier =
  ql_level :: nat
  ql_met :: bool
  ql_requires :: string

record derived =
  dv_level :: nat
  dv_qualifiers :: "qualifier list"
  dv_unfetched :: bool

definition missing_for :: "derived \<Rightarrow> nat \<Rightarrow> string option" where
  "missing_for r level = map_option ql_requires (find (\<lambda>q. ql_level q = level \<and> \<not> ql_met q) (dv_qualifiers r))"

definition rule_level :: "string \<Rightarrow> nat" where
  "rule_level r = (if r = ''ref_grammar'' then 2 else 1)"

definition at_enforcement :: "discipline \<Rightarrow> derived option \<Rightarrow> string \<Rightarrow> string \<Rightarrow> ref_answer" where
  "at_enforcement d reality r tok =
     (let e = enforcement_of d r in
      if e = ''enforced'' \<and> (case reality of None \<Rightarrow> False | Some x \<Rightarrow> missing_for x (rule_level r) \<noteq> None)
      then \<lparr>ra_verdict = ''warn:discipline:'' @ tok @ '':seed-ahead-of-reality'', ra_refused = False, ra_rule = Some r\<rparr>
      else if e = ''enforced''
      then \<lparr>ra_verdict = ''refused:discipline:'' @ tok @ '':enforced'', ra_refused = True, ra_rule = Some r\<rparr>
      else if e = ''warn''
      then \<lparr>ra_verdict = ''warn:discipline:'' @ tok, ra_refused = False, ra_rule = Some r\<rparr>
      else \<lparr>ra_verdict = ''advised:discipline:'' @ tok, ra_refused = False, ra_rule = Some r\<rparr>)"

definition salvage_regex :: "regexes \<Rightarrow> string \<Rightarrow> string" where
  "salvage_regex rx pattern =
     (let re = foldl (\<lambda>re (placeholder, cls). replace_text (rx_escape rx placeholder) cls re) (rx_escape rx pattern)
                 [(''<host>'', ''[^/]+''), (''<yyyymmdd>'', ''[0-9]{8}''), (''<slug>'', ''[^/]+'')]
      in ''^'' @ re @ ''$'')"

definition anchored :: "string \<Rightarrow> string" where
  "anchored re = ''^(?:'' @ re @ '')$''"

definition matches_regex :: "regexes \<Rightarrow> string \<Rightarrow> string \<Rightarrow> bool" where
  "matches_regex rx re s \<longleftrightarrow> rx_compiles rx re \<and> rx_matches rx re s"

definition is_work_ref :: "regexes \<Rightarrow> discipline \<Rightarrow> string \<Rightarrow> bool" where
  "is_work_ref rx d branch \<longleftrightarrow>
     (case bd_work_ref d of None \<Rightarrow> False | Some w \<Rightarrow> matches_regex rx (anchored w) branch)"

definition is_salvage_ref :: "regexes \<Rightarrow> discipline \<Rightarrow> string \<Rightarrow> bool" where
  "is_salvage_ref rx d branch \<longleftrightarrow>
     (case bd_salvage_ref d of None \<Rightarrow> False | Some p \<Rightarrow> matches_regex rx (salvage_regex rx p) branch)"

text \<open>The branch a ref names; \<open>None\<close> for another namespace.\<close>

definition branch_of :: "string \<Rightarrow> string option" where
  "branch_of reference =
     (case strip_prefix ''refs/heads/'' reference of
        Some b \<Rightarrow> Some b
      | None \<Rightarrow> if starts_with ''refs/'' reference then None else Some reference)"

definition check_ref_observed :: "regexes \<Rightarrow> discipline \<Rightarrow> string \<Rightarrow> derived option \<Rightarrow> ref_answer" where
  "check_ref_observed rx d reference reality =
     (case branch_of reference of
        None \<Rightarrow> ok_ref ''non-branch''
      | Some branch \<Rightarrow>
          (if bd_level d = 0 then
             (if branch = bd_default d then ok_ref ''default-branch:level=0'' else ok_ref ''admitted:level=0'')
           else if branch = bd_default d then at_enforcement d reality ''default_branch'' ''default-branch-protected''
           else if branch \<in> snd ` set (bd_integration d) then ok_ref ''integration''
           else if is_work_ref rx d branch then ok_ref ''work-ref''
           else if is_salvage_ref rx d branch then ok_ref ''salvage''
           else at_enforcement d reality ''ref_grammar'' ''ref-outside-grammar''))"

definition check_ref_unobserved :: "regexes \<Rightarrow> discipline \<Rightarrow> string \<Rightarrow> ref_answer" where
  "check_ref_unobserved rx d reference = check_ref_observed rx d reference None"

subsection \<open>The repository\<close>

function find_root :: "disk \<Rightarrow> path \<Rightarrow> path option" where
  "find_root d p =
     (if dk_exists d (p @ [Normal ''.git'']) then Some p
      else if p = [] \<or> p = [RootDir] then None
      else find_root d (butlast p))"
  by auto

termination
  by (relation "measure (\<lambda>(d, p). length p)") auto

declare find_root.simps [simp del]

definition common_git_dir :: "disk \<Rightarrow> path \<Rightarrow> path option" where
  "common_git_dir d root =
     (let dot = root @ [Normal ''.git''];
          gitdir = (if dk_is_dir d dot then Some dot
                    else Option.bind (dk_read d dot) (\<lambda>text.
                         map_option (\<lambda>rel. join_path root (trim rel)) (strip_prefix ''gitdir:'' (trim text))))
      in Option.bind gitdir (\<lambda>g.
           case dk_read d (g @ [Normal ''commondir'']) of
             Some c \<Rightarrow> Some (join_path g (trim c))
           | None \<Rightarrow> Some g))"

definition head_files :: "(string \<times> string) list" where
  "head_files =
     [(''refs/remotes/origin/HEAD'', ''ref: refs/remotes/origin/''), (''HEAD'', ''ref: refs/heads/'')]"

definition default_branch_of :: "disk \<Rightarrow> path \<Rightarrow> string" where
  "default_branch_of d root =
     (case common_git_dir d root of
        None \<Rightarrow> ''main''
      | Some common \<Rightarrow>
          (case List.map_filter (\<lambda>(file, prefix).
                  Option.bind (dk_read d (join_path common file)) (\<lambda>text. strip_prefix prefix (trim text)))
                head_files of
             b # _ \<Rightarrow> b
           | [] \<Rightarrow> ''main''))"

definition parse_u8 :: "string \<Rightarrow> nat option" where
  "parse_u8 s = (case parse_u64 s of Some n \<Rightarrow> if n < 256 then Some n else None | None \<Rightarrow> None)"

definition level_of_name :: "string \<Rightarrow> nat option" where
  "level_of_name name =
     Option.bind (strip_prefix ''refs/tillandsias/discipline/'' name)
       (\<lambda>rest. parse_u8 (hd (split_on (CHR ''/'') rest)))"

definition see_level :: "nat option \<Rightarrow> string \<Rightarrow> nat option" where
  "see_level best name =
     (case level_of_name name of
        None \<Rightarrow> best
      | Some l \<Rightarrow> Some (case best of None \<Rightarrow> l | Some m \<Rightarrow> max m l))"

text \<open>From the packed refs and from the directory of published levels.\<close>

definition published_level :: "string option \<Rightarrow> string list \<Rightarrow> nat option" where
  "published_level packed level_dirs =
     foldl see_level None
       ((case packed of
           None \<Rightarrow> []
         | Some text \<Rightarrow> List.map_filter (\<lambda>l. map_option (\<lambda>(_, name). trim name) (split_once (CHR 32) l)) (lines text))
        @ map (\<lambda>name. ''refs/tillandsias/discipline/'' @ name @ ''/x'') level_dirs)"

subsection \<open>The seed\<close>

fun add_enforcements :: "(string, string) btmap \<Rightarrow> (yaml \<times> yaml) list \<Rightarrow> string + (string, string) btmap" where
  "add_enforcements m [] = Inr m"
| "add_enforcements m ((k, e) # rest) =
     (case (as_str k, as_str e) of
        (Some k, Some e) \<Rightarrow>
          (if e \<notin> set enforcements then Inl (''enforcement-vocabulary:'' @ k @ ''='' @ e)
           else add_enforcements (bt_insert k e m) rest)
      | _ \<Rightarrow> Inl ''enforcement-shape'')"

fun add_integrations ::
  "nat \<Rightarrow> string \<Rightarrow> (string, string) btmap \<Rightarrow> (yaml \<times> yaml) list \<Rightarrow> string + (string, string) btmap" where
  "add_integrations level default_branch m [] = Inr m"
| "add_integrations level default_branch m ((k, b) # rest) =
     (case (as_str k, as_str b) of
        (Some k, Some b) \<Rightarrow>
          (if 1 \<le> level \<and> b = default_branch then Inl (''integration-equals-default:'' @ k)
           else add_integrations level default_branch (bt_insert k b m) rest)
      | _ \<Rightarrow> Inl ''integration-shape'')"

definition mapping_at :: "yaml \<Rightarrow> string \<Rightarrow> (yaml \<times> yaml) list" where
  "mapping_at v k = unwrap_or [] (Option.bind (yget v k) as_mapping)"

text \<open>An angle-bracketed placeholder: a letter or underscore, then letters, digits, underscores, dashes.\<close>

definition template_at :: "string \<Rightarrow> bool" where
  "template_at s \<longleftrightarrow>
     (case s of
        l # c # rest \<Rightarrow>
          l = CHR ''<'' \<and> (is_ascii_lowercase c \<or> is_ascii_uppercase c \<or> c = CHR ''_'')
          \<and> take 1 (dropWhile (\<lambda>x. is_ascii_alphanumeric x \<or> x = CHR ''_'' \<or> x = CHR ''-'') rest) = ''>''
      | _ \<Rightarrow> False)"

fun has_template :: "string \<Rightarrow> bool" where
  "has_template [] = False"
| "has_template (c # s) = (template_at (c # s) \<or> has_template s)"

definition parse_level :: "yaml \<Rightarrow> nat option \<Rightarrow> string + nat" where
  "parse_level v published =
     (case Option.bind (yget v ''level'') as_u64 of
        None \<Rightarrow> Inl ''level-missing''
      | Some l \<Rightarrow>
          (if 2 < l then Inl ''level-out-of-range''
           else case published of
                  Some p \<Rightarrow> if l < p then Inl (''level-regressed:'' @ show_nat l @ ''<'' @ show_nat p) else Inr l
                | None \<Rightarrow> Inr l))"

definition parse_work_ref :: "regexes \<Rightarrow> string option \<Rightarrow> string + string option" where
  "parse_work_ref rx work_ref =
     (case work_ref of
        None \<Rightarrow> Inr None
      | Some w \<Rightarrow>
          (if \<not> rx_compiles rx (anchored w) then Inl ''work-ref-regex''
           else if has_template w then Inl ''work-ref-template''
           else Inr (Some w)))"

definition seed_paths :: "yaml \<Rightarrow> string list" where
  "seed_paths v =
     (case Option.bind (Option.bind (yget v ''plan_only_lane'') (\<lambda>p. yget p ''paths'')) as_sequence of
        None \<Rightarrow> []
      | Some xs \<Rightarrow> List.map_filter as_str xs)"

definition parse_discipline ::
  "regexes \<Rightarrow> (string \<Rightarrow> string + yaml) \<Rightarrow> string \<Rightarrow> nat option \<Rightarrow> string \<Rightarrow> string + discipline" where
  "parse_discipline rx parse_yaml text published fallback =
     (case parse_yaml text of
        Inl _ \<Rightarrow> Inl ''unparseable''
      | Inr v \<Rightarrow>
          sum_bind (parse_level v published) (\<lambda>level.
          sum_bind (add_enforcements advised_rules (mapping_at v ''enforcement'')) (\<lambda>enforcement.
          let default_branch = unwrap_or fallback (get_str v ''default_branch'') in
          sum_bind (add_integrations level default_branch [] (mapping_at v ''integration'')) (\<lambda>integration.
          if 1 \<le> level \<and> integration = [] then Inl ''integration-missing''
          else
            sum_bind (parse_work_ref rx (get_str v ''work_ref'')) (\<lambda>work_ref.
            Inr \<lparr>bd_source = FromSeed, bd_level = level, bd_enforcement = enforcement, bd_default = default_branch,
                 bd_integration = integration, bd_work_ref = work_ref, bd_salvage_ref = get_str v ''salvage_ref'',
                 bd_plan_only = seed_paths v, bd_freeze = get_str v ''freeze_namespace'',
                 bd_denied = Option.bind (Option.bind (yget v ''messages'') (\<lambda>m. yget m ''default_branch_denied'')) as_str,
                 bd_refusal = None\<rparr>)))))"

text \<open>\<open>load\<close>, without the path and the digest of the seed, which only reports show.\<close>

definition load_discipline ::
  "regexes \<Rightarrow> (string \<Rightarrow> string + yaml) \<Rightarrow> string \<Rightarrow> nat option \<Rightarrow> string option \<Rightarrow> discipline" where
  "load_discipline rx parse_yaml fallback published seed_text =
     (case seed_text of
        None \<Rightarrow> discipline_floor fallback
      | Some text \<Rightarrow>
          (case parse_discipline rx parse_yaml text published fallback of
             Inr d \<Rightarrow> d
           | Inl reason \<Rightarrow>
               (discipline_floor fallback)\<lparr>bd_refusal := Some (''refused:discipline-seed:'' @ reason)\<rparr>))"

text \<open>The refs that a forced push may not rewrite without consent (\<open>command_policy.rs\<close>).\<close>

definition protected_refs :: "discipline \<Rightarrow> string list" where
  "protected_refs d = bt_set (''main'' # bd_default d # map snd (bd_integration d))"

subsection \<open>The level that the history shows\<close>

definition shared_providers :: "string list" where
  "shared_providers =
     [''gmail.com'', ''hotmail.com'', ''outlook.com'', ''yahoo.com'', ''icloud.com'', ''protonmail.com'',
      ''proton.me'', ''users.noreply.github.com'']"

definition host_of_email :: "(string \<Rightarrow> string) \<Rightarrow> string \<Rightarrow> string option" where
  "host_of_email lower email =
     (case split_once (CHR ''@'') email of
        None \<Rightarrow> None
      | Some (_, rest) \<Rightarrow>
          (let domain = lower (trim rest) in
           if domain = [] \<or> domain \<in> set shared_providers then None
           else Some (hd (split_on (CHR ''.'') domain))))"

definition trailer_host :: "(string \<Rightarrow> string) \<Rightarrow> string \<Rightarrow> string option" where
  "trailer_host lower trailer_values =
     (let host = lower (trim (hd (split_on (CHR '','') trailer_values)))
      in if host = [] then None else Some host)"

definition commit_author :: "(string \<Rightarrow> string) \<Rightarrow> string \<Rightarrow> (string \<times> string option) option" where
  "commit_author lower l =
     (let (email, trailer) = unwrap_or (l, []) (split_once (CHR 9) l);
          e = lower (trim email)
      in if e = [] then None else Some (e, trailer_host lower trailer))"

definition host_of :: "(string \<Rightarrow> string) \<Rightarrow> string \<times> string option \<Rightarrow> string option" where
  "host_of lower a = (case snd a of Some h \<Rightarrow> Some h | None \<Rightarrow> host_of_email lower (fst a))"

definition default_work_ref :: string where
  "default_work_ref = ''work/[0-9]{3,4}-[a-z0-9]{4}''"

text \<open>The answers of git that the code asks for; each is \<open>None\<close> when git fails.\<close>

record git_answers =
  ga_git_dir :: "string option"
  ga_remote_head :: "string option"
  ga_heads :: "string option"
  ga_authors :: "string list \<Rightarrow> string option"
  ga_merges :: "string \<Rightarrow> string option"

definition remote_head :: "git_answers \<Rightarrow> string option" where
  "remote_head g =
     (case map_option (\<lambda>s. trim_start_matches ''origin/'' (trim s)) (ga_remote_head g) of
        Some h \<Rightarrow> if h = [] then None else Some h
      | None \<Rightarrow> None)"

definition origin_heads :: "git_answers \<Rightarrow> string list" where
  "origin_heads g = filter (\<lambda>h. h \<noteq> [] \<and> h \<noteq> ''HEAD'') (map trim (lines (unwrap_or [] (ga_heads g))))"

definition origin_integration :: "git_answers \<Rightarrow> discipline \<Rightarrow> string list" where
  "origin_integration g d =
     (let default = unwrap_or (bd_default d) (remote_head g)
      in filter (\<lambda>h. h \<noteq> default \<and> (h \<in> snd ` set (bd_integration d) \<or> ends_with ''-next'' h)) (origin_heads g))"

definition work_refs_on_origin :: "regexes \<Rightarrow> git_answers \<Rightarrow> discipline \<Rightarrow> nat" where
  "work_refs_on_origin rx g d =
     length (filter (matches_regex rx (anchored (unwrap_or default_work_ref (bd_work_ref d)))) (origin_heads g))"

definition history_refs :: "git_answers \<Rightarrow> discipline \<Rightarrow> string list" where
  "history_refs g d =
     (let refs = map ((@) ''refs/remotes/origin/'')
                   (filter (\<lambda>b. b \<in> set (origin_heads g))
                     (unwrap_or (bd_default d) (remote_head g) # origin_integration g d))
      in if refs = [] then [''HEAD''] else refs)"

definition committers :: "(string \<Rightarrow> string) \<Rightarrow> git_answers \<Rightarrow> discipline \<Rightarrow> (string \<times> string option) list" where
  "committers lower g d =
     remdups (List.map_filter (commit_author lower) (lines (unwrap_or [] (ga_authors g (history_refs g d)))))"

definition committer_hosts :: "(string \<Rightarrow> string) \<Rightarrow> git_answers \<Rightarrow> discipline \<Rightarrow> string list" where
  "committer_hosts lower g d = bt_set (List.map_filter (host_of lower) (committers lower g d))"

definition pr_merges :: "git_answers \<Rightarrow> discipline \<Rightarrow> nat" where
  "pr_merges g d =
     (let default = unwrap_or (bd_default d) (remote_head g);
          ref = (if default \<in> set (origin_heads g) then ''refs/remotes/origin/'' @ default else default)
      in length (filter (starts_with ''Merge pull request'') (lines (unwrap_or [] (ga_merges g ref)))))"

definition level_one_text :: string where
  "level_one_text =
     ''an integration branch on origin other than the default branch, or pull-request merges on the default branch''"

definition level_two_text :: string where
  "level_two_text =
     ''two or more distinct committer hosts (by author email domain) in the last 50 commits AND a work ref on origin''"

definition derive_level :: "regexes \<Rightarrow> (string \<Rightarrow> string) \<Rightarrow> git_answers \<Rightarrow> discipline \<Rightarrow> derived option" where
  "derive_level rx lower g d =
     (if ga_git_dir g = None then None
      else
        (let l1 = (origin_integration g d \<noteq> [] \<or> 0 < pr_merges g d);
             l2 = (2 \<le> length (committer_hosts lower g d) \<and> 1 \<le> work_refs_on_origin rx g d)
         in Some \<lparr>dv_level = (if l2 then 2 else if l1 then 1 else 0),
              dv_qualifiers =
                [\<lparr>ql_level = 1, ql_met = l1, ql_requires = level_one_text\<rparr>,
                 \<lparr>ql_level = 2, ql_met = l2, ql_requires = level_two_text\<rparr>],
              dv_unfetched = (origin_heads g = [])\<rparr>))"

text \<open>The drift of a report.\<close>

datatype seed_drift = SeedBehind nat | SeedAhead nat "string option" | SeedMatches

definition seed_level :: "discipline \<Rightarrow> nat" where
  "seed_level d = (if bd_source d = FromSeed then bd_level d else 0)"

definition effective_level :: "discipline \<Rightarrow> derived option \<Rightarrow> nat" where
  "effective_level d r = (case r of None \<Rightarrow> seed_level d | Some x \<Rightarrow> min (seed_level d) (dv_level x))"

definition drift_of :: "discipline \<Rightarrow> derived \<Rightarrow> seed_drift" where
  "drift_of d r =
     (if seed_level d < dv_level r then SeedBehind (dv_level r)
      else if dv_level r < seed_level d then SeedAhead (seed_level d) (missing_for r (Suc (dv_level r)))
      else SeedMatches)"

end
