(* ===== verification/Branch_Discipline_Props.thy ===== *)
theory Branch_Discipline_Props
  imports Branch_Discipline Policy_Props
begin

text \<open>
  What the branch discipline promises (\<open>crates/tillandsias-plan/src/branch_discipline.rs\<close>): a loaded
  seed is well formed or nothing is refused, a ref is refused exactly when an enforced rule meets a
  qualifier that is not observed absent, and what it protects a forced push may not rewrite without
  consent (\<open>command_policy.rs\<close>).
\<close>

subsection \<open>When a ref is refused\<close>

definition rule_holds :: "discipline \<Rightarrow> derived option \<Rightarrow> string \<Rightarrow> bool" where
  "rule_holds d reality r \<longleftrightarrow>
     enforcement_of d r = ''enforced''
     \<and> (case reality of None \<Rightarrow> True | Some x \<Rightarrow> missing_for x (rule_level r) = None)"

lemma refused_at_enforcement: "ra_refused (at_enforcement d reality r tok) \<longleftrightarrow> rule_holds d reality r"
  by (auto simp: at_enforcement_def rule_holds_def Let_def split: option.splits)

lemma ok_ref_admits [simp]: "\<not> ra_refused (ok_ref cls)"
  by (simp add: ok_ref_def)

definition outside_grammar :: "regexes \<Rightarrow> discipline \<Rightarrow> string \<Rightarrow> bool" where
  "outside_grammar rx d b \<longleftrightarrow>
     b \<noteq> bd_default d \<and> b \<notin> snd ` set (bd_integration d) \<and> \<not> is_work_ref rx d b \<and> \<not> is_salvage_ref rx d b"

lemma refused_iff:
  "ra_refused (check_ref_observed rx d reference reality) \<longleftrightarrow>
     bd_level d \<noteq> 0
     \<and> (case branch_of reference of
          None \<Rightarrow> False
        | Some b \<Rightarrow>
            b = bd_default d \<and> rule_holds d reality ''default_branch''
            \<or> outside_grammar rx d b \<and> rule_holds d reality ''ref_grammar'')"
  by (auto simp: check_ref_observed_def refused_at_enforcement outside_grammar_def split: option.splits)

text \<open>
  A ref is refused exactly when the discipline is above level 0, the ref is a branch, and it is
  the default branch or outside the grammar while the rule for that is enforced and its qualifier was
  not observed absent.
\<close>

theorem check_ref_refuses_iff:
  "ra_refused (check_ref_observed rx d reference reality) \<longleftrightarrow>
     bd_level d \<noteq> 0
     \<and> (case branch_of reference of
          None \<Rightarrow> False
        | Some b \<Rightarrow>
            b = bd_default d \<and> rule_holds d reality ''default_branch''
            \<or> outside_grammar rx d b \<and> rule_holds d reality ''ref_grammar'')"
  by (rule refused_iff)

subsection \<open>Loaded seeds\<close>

definition wf_discipline :: "regexes \<Rightarrow> nat option \<Rightarrow> discipline \<Rightarrow> bool" where
  "wf_discipline rx published d \<longleftrightarrow>
     bd_level d \<le> 2 \<and> (case published of None \<Rightarrow> True | Some p \<Rightarrow> p \<le> bd_level d)
     \<and> set discipline_rules \<subseteq> fst ` set (bd_enforcement d)
     \<and> snd ` set (bd_enforcement d) \<subseteq> set enforcements
     \<and> bt_wf (bd_enforcement d) \<and> bt_wf (bd_integration d)
     \<and> (bd_level d \<noteq> 0 \<longrightarrow> bd_integration d \<noteq> [] \<and> bd_default d \<notin> snd ` set (bd_integration d))
     \<and> (case bd_work_ref d of None \<Rightarrow> True | Some w \<Rightarrow> rx_compiles rx (anchored w) \<and> \<not> has_template w)"

lemma snd_bt_insert: "snd ` set (bt_insert k v m) \<subseteq> insert v (snd ` set m)"
  by (induction k v m rule: bt_insert.induct) auto

lemma add_enforcements_ok:
  assumes "add_enforcements m kvs = Inr m'" "bt_wf m" "snd ` set m \<subseteq> set enforcements"
  shows "bt_wf m' \<and> snd ` set m' \<subseteq> set enforcements \<and> fst ` set m \<subseteq> fst ` set m'"
  using assms
proof (induction kvs arbitrary: m)
  case (Cons ke rest)
  obtain k e where ke: "ke = (k, e)" by (cases ke)
  with Cons.prems(1) obtain k' e' where step: "e' \<in> set enforcements" "add_enforcements (bt_insert k' e' m) rest = Inr m'"
    by (auto split: option.splits if_splits)
  have "snd ` set (bt_insert k' e' m) \<subseteq> set enforcements" using snd_bt_insert[of k' e' m] step(1) Cons.prems(3) by blast
  from Cons.IH[OF step(2) bt_wf_insert[OF Cons.prems(2)] this] show ?case by auto
qed simp

lemma add_integrations_ok:
  assumes "add_integrations level db m kvs = Inr m'" "bt_wf m" "1 \<le> level \<longrightarrow> db \<notin> snd ` set m"
  shows "bt_wf m' \<and> (1 \<le> level \<longrightarrow> db \<notin> snd ` set m')"
  using assms
proof (induction kvs arbitrary: m)
  case (Cons kb rest)
  obtain k b where kb: "kb = (k, b)" by (cases kb)
  with Cons.prems(1) obtain k' b' where step: "\<not> (1 \<le> level \<and> b' = db)"
    "add_integrations level db (bt_insert k' b' m) rest = Inr m'"
    by (auto split: option.splits if_splits)
  have "1 \<le> level \<longrightarrow> db \<notin> snd ` set (bt_insert k' b' m)" using snd_bt_insert[of k' b' m] step(1) Cons.prems(3) by blast
  from Cons.IH[OF step(2) bt_wf_insert[OF Cons.prems(2)] this] show ?case .
qed simp

lemma advised_rules_ok:
  "bt_wf advised_rules \<and> snd ` set advised_rules \<subseteq> set enforcements \<and> set discipline_rules \<subseteq> fst ` set advised_rules"
  by (auto simp: advised_rules_def discipline_rules_def enforcements_def less_char_def bt_wf_def)

lemma sum_bind_Inr: "sum_bind x f = Inr b \<longleftrightarrow> (\<exists>a. x = Inr a \<and> f a = Inr b)"
  by (cases x) auto

lemma parse_level_ok:
  "parse_level v published = Inr l \<Longrightarrow> l \<le> 2 \<and> (case published of None \<Rightarrow> True | Some p \<Rightarrow> p \<le> l)"
  by (auto simp: parse_level_def split: option.splits if_splits)

lemma parse_work_ref_ok:
  "parse_work_ref rx w = Inr w' \<Longrightarrow> case w' of None \<Rightarrow> True | Some x \<Rightarrow> rx_compiles rx (anchored x) \<and> \<not> has_template x"
  by (auto simp: parse_work_ref_def split: option.splits if_splits)

lemma parse_discipline_ok:
  assumes "parse_discipline rx parse_yaml text published fallback = Inr d"
  shows "wf_discipline rx published d \<and> bd_source d = FromSeed \<and> bd_refusal d = None"
proof -
  obtain v where v: "parse_yaml text = Inr v" using assms by (cases "parse_yaml text") (simp_all add: parse_discipline_def)
  let ?db = "unwrap_or fallback (get_str v ''default_branch'')"
  from assms v obtain level enforcement where
    level: "parse_level v published = Inr level" and
    enforcement: "add_enforcements advised_rules (mapping_at v ''enforcement'') = Inr enforcement"
    by (auto simp: parse_discipline_def sum_bind_Inr)
  with assms v obtain integration where
    integration: "add_integrations level ?db [] (mapping_at v ''integration'') = Inr integration"
    "\<not> (1 \<le> level \<and> integration = [])"
    by (auto simp: parse_discipline_def sum_bind_Inr Let_def split: if_splits)
  with assms v level enforcement obtain work_ref where work: "parse_work_ref rx (get_str v ''work_ref'') = Inr work_ref"
    and d: "bd_level d = level" "bd_enforcement d = enforcement" "bd_integration d = integration" "bd_work_ref d = work_ref"
      "bd_default d = ?db" "bd_source d = FromSeed" "bd_refusal d = None"
    by (auto simp: parse_discipline_def sum_bind_Inr Let_def split: if_splits)
  have "bt_wf enforcement \<and> snd ` set enforcement \<subseteq> set enforcements \<and> set discipline_rules \<subseteq> fst ` set enforcement"
    using add_enforcements_ok[OF enforcement] advised_rules_ok by blast
  moreover have "bt_wf integration \<and> (1 \<le> level \<longrightarrow> ?db \<notin> snd ` set integration)"
    using add_integrations_ok[OF integration(1)] by simp
  ultimately show ?thesis
    using parse_level_ok[OF level] parse_work_ref_ok[OF work] integration(2)
    unfolding wf_discipline_def d by auto
qed

text \<open>
  C25. The discipline that is loaded is a well-formed one from the seed, at no lower level than the
  published one, whose integration branches exist and differ from the default branch and whose
  grammar compiles; or it is the floor, which refuses no ref whatever is observed.
\<close>

theorem loaded_discipline_sound:
  "let d = load_discipline rx parse_yaml fallback published seed_text in
     (bd_source d = FromSeed \<and> wf_discipline rx published d)
     \<or> (bd_source d = FromDefault \<and> \<not> ra_refused (check_ref_observed rx d reference reality))"
proof (cases seed_text)
  case None
  then show ?thesis by (simp add: load_discipline_def discipline_floor_def refused_iff)
next
  case (Some t)
  show ?thesis
  proof (cases "parse_discipline rx parse_yaml t published fallback")
    case (Inl e)
    with Some show ?thesis by (simp add: load_discipline_def discipline_floor_def refused_iff)
  next
    case (Inr d)
    with Some parse_discipline_ok[OF Inr] show ?thesis by (simp add: load_discipline_def)
  qed
qed

subsection \<open>Refusals need evidence\<close>

text \<open>
  C26. With the history observed, a ref is refused only where the history agrees: the default branch
  only when origin has an integration branch or the default branch has merged pull requests, another
  branch only when two hosts commit and origin has a work ref.
\<close>

theorem refusals_need_evidence:
  assumes "derive_level rx lower g d = Some r"
    and "ra_refused (check_ref_observed rx d reference (Some r))"
  shows "branch_of reference = Some (bd_default d) \<and> (origin_integration g d \<noteq> [] \<or> 0 < pr_merges g d)
    \<or> branch_of reference \<noteq> Some (bd_default d)
      \<and> 2 \<le> length (committer_hosts lower g d) \<and> 0 < work_refs_on_origin rx g d"
  using assms
  by (auto simp: refused_iff rule_holds_def rule_level_def derive_level_def missing_for_def outside_grammar_def Let_def
      split: option.splits if_splits)

text \<open>A discipline of this kind, with a history, for the examples.\<close>

definition work_regexes :: regexes where
  "work_regexes = \<lparr>rx_compiles = (\<lambda>_. True), rx_matches = (\<lambda>_. starts_with ''work/''), rx_escape = (\<lambda>p. p)\<rparr>"

definition ladder_two :: discipline where
  "ladder_two = (discipline_floor ''main'')\<lparr>bd_source := FromSeed, bd_level := 2,
     bd_enforcement := [(''default_branch'', ''enforced''), (''ref_grammar'', ''enforced'')],
     bd_integration := [(''linux'', ''linux-next'')], bd_work_ref := Some ''work/.*''\<rparr>"

definition busy_origin :: git_answers where
  "busy_origin = \<lparr>ga_git_dir = Some ''.git'', ga_remote_head = Some ''origin/main'',
     ga_heads = Some (unlines [''HEAD'', ''main'', ''linux-next'', ''work/1'']),
     ga_authors = (\<lambda>_. Some (unlines [''a@h1.net'', ''b@h2.net''])), ga_merges = (\<lambda>_. None)\<rparr>"

definition quiet_origin :: git_answers where
  "quiet_origin = busy_origin\<lparr>ga_heads := Some (unlines [''HEAD'', ''main'', ''work/1''])\<rparr>"

definition two_rungs :: "bool \<Rightarrow> derived" where
  "two_rungs l1 = \<lparr>dv_level = 2, dv_qualifiers =
     [\<lparr>ql_level = 1, ql_met = l1, ql_requires = level_one_text\<rparr>, \<lparr>ql_level = 2, ql_met = True, ql_requires = level_two_text\<rparr>],
     dv_unfetched = False\<rparr>"

lemma derive_busy: "derive_level work_regexes (\<lambda>s. s) busy_origin ladder_two = Some (two_rungs True)"
  and derive_quiet: "derive_level work_regexes (\<lambda>s. s) quiet_origin ladder_two = Some (two_rungs False)"
proof -
  have "ga_git_dir busy_origin \<noteq> None" "origin_integration busy_origin ladder_two \<noteq> []" "origin_heads busy_origin \<noteq> []"
    "length (committer_hosts (\<lambda>s. s) busy_origin ladder_two) = 2" "work_refs_on_origin work_regexes busy_origin ladder_two = 1"
    by code_simp+
  then show "derive_level work_regexes (\<lambda>s. s) busy_origin ladder_two = Some (two_rungs True)"
    by (simp add: derive_level_def two_rungs_def Let_def)
  have "ga_git_dir quiet_origin \<noteq> None" "origin_integration quiet_origin ladder_two = []" "origin_heads quiet_origin \<noteq> []"
    "length (committer_hosts (\<lambda>s. s) quiet_origin ladder_two) = 2" "work_refs_on_origin work_regexes quiet_origin ladder_two = 1"
    "pr_merges quiet_origin ladder_two = 0"
    by code_simp+
  then show "derive_level work_regexes (\<lambda>s. s) quiet_origin ladder_two = Some (two_rungs False)"
    by (simp add: derive_level_def two_rungs_def Let_def)
qed

lemma ladder_two_facts:
  "bd_level ladder_two = 2" "bd_default ladder_two = ''main''" "enforcement_of ladder_two ''default_branch'' = ''enforced''"
  "branch_of ''main'' = Some ''main''" "rule_level ''default_branch'' = 1"
  "missing_for (two_rungs True) 1 = None" "missing_for (two_rungs False) 1 = Some level_one_text"
  "integration_target ladder_two ''macos'' = ''main''" "integration_target ladder_two ''linux'' = ''linux-next''"
  "drift_of ladder_two (two_rungs False) = SeedMatches"
  by code_simp+

theorem refusals_need_evidence_witness:
  "\<not> (origin_integration busy_origin ladder_two = [] \<and> pr_merges busy_origin ladder_two = 0)"
proof -
  have "ra_refused (check_ref_observed work_regexes ladder_two ''main'' (Some (two_rungs True)))"
    by (simp add: refused_iff rule_holds_def ladder_two_facts del: One_nat_def)
  from refusals_need_evidence[OF derive_busy this] show ?thesis by (auto simp: ladder_two_facts)
qed

text \<open>
  The report compares the levels alone. A history that shows the second rung without the first matches
  a seed of level 2, by its report, while the enforced rule of the first rung only warns.
\<close>

lemma matching_report_with_waived_rule:
  "derive_level work_regexes (\<lambda>s. s) quiet_origin ladder_two = Some (two_rungs False)
   \<and> drift_of ladder_two (two_rungs False) = SeedMatches
   \<and> \<not> ra_refused (check_ref_observed work_regexes ladder_two ''main'' (Some (two_rungs False)))
   \<and> ra_refused (check_ref_unobserved work_regexes ladder_two ''main'')"
  by (simp add: derive_quiet ladder_two_facts refused_iff check_ref_unobserved_def rule_holds_def outside_grammar_def del: One_nat_def)

text \<open>A platform that the seed does not name is sent to the branch that the seed protects.\<close>

lemma unnamed_platform_target_refused:
  "integration_target ladder_two ''macos'' = ''main'' \<and> ra_refused (check_ref_unobserved work_regexes ladder_two ''main'')"
  by (simp add: ladder_two_facts refused_iff check_ref_unobserved_def rule_holds_def)

subsection \<open>Forced pushes\<close>










end
