(* ===== verification/Gpu_Queue.thy ===== *)
theory Gpu_Queue
  imports Main "HOL-Library.Word"
begin

text \<open>
  The queue for the graphics device (\<open>crates/tillandsias-headless/src/gpu_queue.rs\<close>, \<open>GpuQueue\<close>,
  \<open>wait_on\<close> and \<open>GpuTurn\<close>): two counters behind a mutex and a condition variable. Everything
  between taking the mutex and waiting or returning is one step, because the mutex is held
  throughout, also while the progress callback runs. A waiter may wake at any time, as condition
  variables allow; \<open>signalled\<close> records whether a notification is pending for it, which is when it
  is bound to wake. The counters wrap around, as in the release profile. The callback belongs to
  the caller and may panic: the mutex is then unlocked by unwinding and the ticket is never served.
\<close>

subsection \<open>State and operations\<close>

datatype caller =
    Waiting (ticket: "64 word") (last_told: "64 word option") (signalled: bool)
  | Holding
  | Lost

record gpu_queue =
  next_ticket :: "64 word"
  now_serving :: "64 word"
  callers :: "nat \<Rightarrow> caller option"
  told :: "(nat \<times> 64 word) list"

definition new_queue :: gpu_queue where
  "new_queue = \<lparr>next_ticket = 0, now_serving = 0, callers = (\<lambda>_. None), told = []\<rparr>"

definition set_caller :: "nat \<Rightarrow> caller \<Rightarrow> gpu_queue \<Rightarrow> gpu_queue" where
  "set_caller c st q = q\<lparr>callers := (callers q)(c \<mapsto> st)\<rparr>"

text \<open>The progress callback is told a number of jobs ahead when it is not the one told last.\<close>

definition tells :: "64 word \<Rightarrow> 64 word option \<Rightarrow> gpu_queue \<Rightarrow> bool" where
  "tells t l q \<longleftrightarrow> now_serving q \<noteq> t \<and> l \<noteq> Some (t - now_serving q)"

definition tell :: "nat \<Rightarrow> 64 word \<Rightarrow> 64 word option \<Rightarrow> gpu_queue \<Rightarrow> gpu_queue" where
  "tell c t l q = (if tells t l q then q\<lparr>told := told q @ [(c, t - now_serving q)]\<rparr> else q)"

text \<open>One round of the waiting loop: leave with the turn, or report and wait.\<close>

definition try_turn :: "nat \<Rightarrow> 64 word \<Rightarrow> 64 word option \<Rightarrow> gpu_queue \<Rightarrow> gpu_queue" where
  "try_turn c t l q =
     (if now_serving q = t then set_caller c Holding q
      else set_caller c (Waiting t (Some (t - now_serving q)) False) (tell c t l q))"

definition draw_ticket :: "gpu_queue \<Rightarrow> 64 word \<times> gpu_queue" where
  "draw_ticket q = (next_ticket q, q\<lparr>next_ticket := next_ticket q + 1\<rparr>)"

definition wait_on :: "nat \<Rightarrow> gpu_queue \<Rightarrow> gpu_queue" where
  "wait_on c q = (case draw_ticket q of (t, q') \<Rightarrow> try_turn c t None q')"

fun notify :: "caller \<Rightarrow> caller" where
  "notify (Waiting t l _) = Waiting t l True"
| "notify st = st"

definition drop_turn :: "nat \<Rightarrow> gpu_queue \<Rightarrow> gpu_queue" where
  "drop_turn c q =
     q\<lparr>now_serving := now_serving q + 1,
       callers := (\<lambda>d. map_option notify (((callers q)(c := None)) d))\<rparr>"

definition unwind :: "nat \<Rightarrow> 64 word \<Rightarrow> 64 word option \<Rightarrow> gpu_queue \<Rightarrow> gpu_queue" where
  "unwind c t l q = set_caller c Lost (tell c t l q)"

lemma notify_lost [simp]: "notify st = Lost \<longleftrightarrow> st = Lost"
  by (cases st) auto

subsection \<open>Interleavings\<close>

text \<open>
  The events of a caller. A new caller is a thread of its own; there are never \<open>2 ^ 64\<close> of them.
\<close>

datatype queue_event = Arrive nat | Wake nat | Release nat | ArriveUnwinds nat | WakeUnwinds nat

inductive queue_step :: "queue_event \<Rightarrow> gpu_queue \<Rightarrow> gpu_queue \<Rightarrow> bool" where
  arrive: "callers q c = None \<Longrightarrow> card (dom (callers q)) < 2 ^ 64 \<Longrightarrow>
     queue_step (Arrive c) q (wait_on c q)"
| wake: "callers q c = Some (Waiting t l s) \<Longrightarrow> queue_step (Wake c) q (try_turn c t l q)"
| release: "callers q c = Some Holding \<Longrightarrow> queue_step (Release c) q (drop_turn c q)"
| arrive_unwinds: "callers q c = None \<Longrightarrow> card (dom (callers q)) < 2 ^ 64 \<Longrightarrow>
     draw_ticket q = (t, q') \<Longrightarrow> tells t None q' \<Longrightarrow>
     queue_step (ArriveUnwinds c) q (unwind c t None q')"
| wake_unwinds: "callers q c = Some (Waiting t l s) \<Longrightarrow> tells t l q \<Longrightarrow>
     queue_step (WakeUnwinds c) q (unwind c t l q)"

inductive_cases arriveE: "queue_step (Arrive c) q r"
inductive_cases wakeE: "queue_step (Wake c) q r"
inductive_cases releaseE: "queue_step (Release c) q r"
inductive_cases arrive_unwindsE: "queue_step (ArriveUnwinds c) q r"
inductive_cases wake_unwindsE: "queue_step (WakeUnwinds c) q r"

lemmas queue_stepE = arriveE wakeE releaseE arrive_unwindsE wake_unwindsE

inductive queue_run :: "queue_event list \<Rightarrow> gpu_queue \<Rightarrow> gpu_queue \<Rightarrow> bool" where
  run_nil: "queue_run [] q q"
| run_snoc: "queue_run es q r \<Longrightarrow> queue_step e r s \<Longrightarrow> queue_run (es @ [e]) q s"

lemma run_append:
  assumes "queue_run fs r s" and "queue_run es q r"
  shows "queue_run (es @ fs) q s"
  using assms by (induction rule: queue_run.induct) (auto simp flip: append_assoc intro: run_snoc)

subsection \<open>The abstract line\<close>

text \<open>
  The abstract queue is the list of the callers whose ticket is not served yet, the one being served
  first. Arrivals join at the end, a release takes the head away, nothing else changes it.
\<close>

fun line_after :: "queue_event \<Rightarrow> nat list \<Rightarrow> nat list" where
  "line_after (Arrive c) line = line @ [c]"
| "line_after (ArriveUnwinds c) line = line @ [c]"
| "line_after (Release c) line = tl line"
| "line_after _ line = line"

fun arrivals :: "queue_event list \<Rightarrow> nat list" where
  "arrivals [] = []"
| "arrivals (Arrive c # es) = c # arrivals es"
| "arrivals (ArriveUnwinds c # es) = c # arrivals es"
| "arrivals (_ # es) = arrivals es"

fun releases :: "queue_event list \<Rightarrow> nat list" where
  "releases [] = []"
| "releases (Release c # es) = c # releases es"
| "releases (_ # es) = releases es"

text \<open>
  What the code keeps of the caller at a place of the line: only the head holds the turn, a ticket is
  the one served at that place, a waiting head has a notification pending, and a waiter without one
  was last told its place.
\<close>

fun placed :: "64 word \<Rightarrow> nat \<Rightarrow> caller \<Rightarrow> bool" where
  "placed serving k (Waiting t l s) \<longleftrightarrow>
     t = serving + word_of_nat k \<and> (if s then True else 0 < k \<and> l = Some (word_of_nat k))"
| "placed serving k Holding \<longleftrightarrow> k = 0"
| "placed serving k Lost \<longleftrightarrow> True"

definition in_line :: "gpu_queue \<Rightarrow> nat list \<Rightarrow> bool" where
  "in_line q line \<longleftrightarrow>
     distinct line \<and> dom (callers q) = set line \<and> length line \<le> 2 ^ 64 \<and>
     next_ticket q = now_serving q + word_of_nat (length line) \<and>
     (\<forall>k<length line. \<exists>st. callers q (line ! k) = Some st \<and> placed (now_serving q) k st)"

lemma in_lineD:
  assumes "in_line q line" and "callers q c = Some st"
  obtains k where "k < length line" "line ! k = c" "placed (now_serving q) k st"
proof -
  from assms have "c \<in> set line" by (auto simp: in_line_def)
  then obtain k where "k < length line" "line ! k = c" by (auto simp: in_set_conv_nth)
  with assms that show thesis by (fastforce simp: in_line_def)
qed

lemma in_line_at:
  assumes "in_line q line" and "k < length line"
  obtains st where "callers q (line ! k) = Some st" "placed (now_serving q) k st"
  using assms by (auto simp: in_line_def)

lemma tell_simps [simp]:
  "now_serving (tell c t l q) = now_serving q" "next_ticket (tell c t l q) = next_ticket q"
  "callers (tell c t l q) = callers q"
  by (auto simp: tell_def)

lemma set_caller_simps [simp]:
  "now_serving (set_caller c st q) = now_serving q" "next_ticket (set_caller c st q) = next_ticket q"
  "callers (set_caller c st q) = (callers q)(c \<mapsto> st)" "told (set_caller c st q) = told q"
  by (auto simp: set_caller_def)

text \<open>Two operations suffice for the simulation: a caller changes its state at its place, or one joins.\<close>

lemma in_line_update:
  assumes "in_line q line" and "k < length line" and "placed (now_serving q) k st"
    and "callers r = (callers q)(line ! k \<mapsto> st)"
    and "now_serving r = now_serving q" and "next_ticket r = next_ticket q"
  shows "in_line r line"
proof -
  have "\<exists>st'. callers r (line ! j) = Some st' \<and> placed (now_serving r) j st'"
    if "j < length line" for j
  proof (cases "j = k")
    case False
    with assms(1,2) that have "line ! j \<noteq> line ! k" by (simp add: in_line_def nth_eq_iff_index_eq)
    with assms that show ?thesis by (auto simp: in_line_def)
  qed (use assms in simp)
  with assms show ?thesis by (auto simp: in_line_def)
qed

lemma in_line_join:
  assumes "in_line q line" and "callers q c = None" and "length line < 2 ^ 64"
    and "placed (now_serving q) (length line) st"
    and "callers r = (callers q)(c \<mapsto> st)"
    and "now_serving r = now_serving q" and "next_ticket r = next_ticket q + 1"
  shows "in_line r (line @ [c])"
proof -
  have new: "c \<notin> set line" using assms(1,2) by (auto simp: in_line_def)
  have "\<exists>st'. callers r ((line @ [c]) ! j) = Some st' \<and> placed (now_serving r) j st'"
    if "j < length (line @ [c])" for j
  proof (cases "j = length line")
    case False
    with that have j: "j < length line" by simp
    with new have "line ! j \<noteq> c" by (metis nth_mem)
    with assms j show ?thesis by (auto simp: in_line_def nth_append)
  qed (use assms in simp)
  with assms new show ?thesis by (auto simp: in_line_def)
qed

lemma places_differ: "(word_of_nat k :: 64 word) = 0 \<longleftrightarrow> k = 0" if "k < 2 ^ 64"
  using that by (simp add: word_of_nat_eq_0_iff nat_dvd_not_less dvd_imp_le) (auto dest: dvd_imp_le)

lemma in_line_wake:
  assumes "in_line q line" and "callers q c = Some (Waiting t l s)"
  shows "in_line (try_turn c t l q) line"
proof -
  from assms obtain k where k: "k < length line" "line ! k = c" "t = now_serving q + word_of_nat k"
    by (auto elim: in_lineD)
  have small: "k < 2 ^ 64" using k(1) assms(1) by (simp add: in_line_def)
  show ?thesis
    by (rule in_line_update[OF assms(1) k(1), where st = "the (callers (try_turn c t l q) c)"])
       (use k places_differ[OF small] in \<open>auto simp: try_turn_def\<close>)
qed

lemma in_line_arrive:
  assumes "in_line q line" and "callers q c = None" and "card (dom (callers q)) < 2 ^ 64"
  shows "in_line (wait_on c q) (line @ [c])"
proof -
  have n: "length line < 2 ^ 64" "next_ticket q = now_serving q + word_of_nat (length line)"
    using assms(1,3) by (auto simp: in_line_def distinct_card)
  show ?thesis
    by (rule in_line_join[OF assms(1,2) n(1), where st = "the (callers (wait_on c q) c)"])
       (use n(2) places_differ[OF n(1)] in \<open>auto simp: wait_on_def draw_ticket_def try_turn_def\<close>)
qed

lemma in_line_release:
  assumes "in_line q line" and "callers q c = Some Holding"
  shows "in_line (drop_turn c q) (tl line) \<and> line = c # tl line"
proof -
  from assms obtain k where "k < length line" "line ! k = c" "placed (now_serving q) k Holding"
    by (rule in_lineD)
  then obtain rest where line: "line = c # rest" by (cases line) auto
  have "\<exists>st. callers (drop_turn c q) (rest ! j) = Some st \<and> placed (now_serving (drop_turn c q)) j st"
    if j: "j < length rest" for j
  proof -
    have "Suc j < length line" using j line by simp
    from in_line_at[OF assms(1) this] line obtain st where
      st: "callers q (rest ! j) = Some st" "placed (now_serving q) (Suc j) st"
      by auto
    have "rest ! j \<noteq> c" using assms(1) line j by (auto simp: in_line_def)
    with st show ?thesis
      by (cases st) (auto simp: drop_turn_def add.assoc)
  qed
  moreover have "dom (callers (drop_turn c q)) = set rest"
  proof -
    have "dom (callers (drop_turn c q)) = dom (callers q) - {c}" by (auto simp: drop_turn_def dom_def)
    then show ?thesis using assms(1) line by (auto simp: in_line_def)
  qed
  moreover have "next_ticket (drop_turn c q) = now_serving (drop_turn c q) + word_of_nat (length rest)"
    using assms(1) line by (auto simp: in_line_def drop_turn_def add.assoc)
  ultimately show ?thesis using assms(1) line by (auto simp: in_line_def)
qed

lemma in_line_arrive_unwinds:
  assumes "in_line q line" and "callers q c = None" and "card (dom (callers q)) < 2 ^ 64"
    and "draw_ticket q = (t, q')"
  shows "in_line (unwind c t l q') (line @ [c])"
proof -
  have n: "length line < 2 ^ 64" using assms(1,3) by (auto simp: in_line_def distinct_card)
  show ?thesis
    by (rule in_line_join[OF assms(1,2) n, where st = Lost])
       (use assms(4) in \<open>auto simp: unwind_def draw_ticket_def\<close>)
qed

lemma in_line_wake_unwinds:
  assumes "in_line q line" and "callers q c = Some (Waiting t l s)"
  shows "in_line (unwind c t l q) line"
proof -
  from assms obtain k where k: "k < length line" "line ! k = c" by (auto elim: in_lineD)
  show ?thesis
    by (rule in_line_update[OF assms(1) k(1), where st = Lost])
       (use k in \<open>auto simp: unwind_def\<close>)
qed

text \<open>Every step of the code is a step of the line.\<close>

lemma step_in_line:
  assumes "queue_step e q r" and "in_line q line"
  shows "in_line r (line_after e line)"
    and "e = Release c \<Longrightarrow> line = c # tl line"
  using assms
  by (induction rule: queue_step.induct)
     (auto dest: in_line_wake in_line_arrive in_line_release in_line_arrive_unwinds
        in_line_wake_unwinds)

lemma new_in_line: "in_line new_queue []"
  by (simp add: in_line_def new_queue_def)

lemma arrivals_snoc: "arrivals (es @ [e]) = arrivals es @ arrivals [e]"
  by (induction es rule: arrivals.induct) (cases e; simp)+

lemma releases_snoc: "releases (es @ [e]) = releases es @ releases [e]"
  by (induction es rule: releases.induct) auto

lemma run_in_line:
  assumes "queue_run es q r" and "q = new_queue"
  shows "\<exists>line. in_line r line \<and> arrivals es = releases es @ line"
  using assms
proof (induction rule: queue_run.induct)
  case run_nil
  then show ?case using new_in_line by auto
next
  case (run_snoc es q r e s)
  then obtain line where line: "in_line r line" "arrivals es = releases es @ line" by auto
  have "arrivals (es @ [e]) = releases (es @ [e]) @ line_after e line"
    using line(2) step_in_line(2)[OF run_snoc.hyps(2) line(1)] arrivals_snoc[of es e] releases_snoc[of es e]
    by (cases e) auto
  with step_in_line(1)[OF run_snoc.hyps(2) line(1)] show ?case by blast
qed


lemma queue_steps_at [simp]:
  "queue_step (Arrive c) q r \<longleftrightarrow> callers q c = None \<and> card (dom (callers q)) < 2 ^ 64 \<and> r = wait_on c q"
  "queue_step (Release c) q r \<longleftrightarrow> callers q c = Some Holding \<and> r = drop_turn c q"
  "queue_step (Wake c) q r \<longleftrightarrow> (\<exists>t l s. callers q c = Some (Waiting t l s) \<and> r = try_turn c t l q)"
  by (auto intro: queue_step.intros elim: queue_stepE)

text \<open>Two callers: the first has the device, the second is told of one job ahead.\<close>

definition two_callers :: gpu_queue where
  "two_callers = \<lparr>next_ticket = 2, now_serving = 0,
     callers = [0 \<mapsto> Holding, 1 \<mapsto> Waiting 1 (Some 1) False], told = [(1, 1)]\<rparr>"

lemma two_callers_run: "queue_run [Arrive 0, Arrive 1] new_queue two_callers"
proof -
  have "queue_run ([] @ [Arrive 0]) new_queue (wait_on 0 new_queue)"
    by (rule run_snoc[OF run_nil]) (simp add: new_queue_def)
  then have "queue_run (([] @ [Arrive 0]) @ [Arrive 1]) new_queue (wait_on 1 (wait_on 0 new_queue))"
    by (rule run_snoc)
       (simp add: new_queue_def wait_on_def draw_ticket_def try_turn_def set_caller_def)
  moreover have "wait_on 1 (wait_on 0 new_queue) = two_callers"
    by (simp add: new_queue_def two_callers_def wait_on_def draw_ticket_def try_turn_def set_caller_def
        tell_def tells_def fun_upd_twist)
  ultimately show ?thesis by simp
qed


subsection \<open>Every turn comes\<close>

text \<open>
  The steps that are bound to happen: a caller with a notification pending wakes, the holder releases.
\<close>

fun due :: "queue_event \<Rightarrow> gpu_queue \<Rightarrow> bool" where
  "due (Wake c) q = (case callers q c of Some (Waiting t l s) \<Rightarrow> s | _ \<Rightarrow> False)"
| "due (Release c) q = True"
| "due _ q = False"

definition due_step :: "queue_event \<Rightarrow> gpu_queue \<Rightarrow> gpu_queue \<Rightarrow> bool" where
  "due_step e q r \<longleftrightarrow> due e q \<and> queue_step e q r"

inductive due_run :: "queue_event list \<Rightarrow> gpu_queue \<Rightarrow> gpu_queue \<Rightarrow> bool" where
  due_nil: "due_run [] q q"
| due_snoc: "due_run es q r \<Longrightarrow> due_step e r s \<Longrightarrow> due_run (es @ [e]) q s"

fun unrest :: "caller \<Rightarrow> nat" where
  "unrest (Waiting t l s) = (if s then 2 else 1)"
| "unrest _ = 0"

definition potential :: "gpu_queue \<Rightarrow> nat" where
  "potential q =
     (let n = card (dom (callers q))
      in n * (n + 1) + (\<Sum>c\<in>dom (callers q). unrest (the (callers q c))))"

lemma unrest_le: "unrest st \<le> 2"
  by (cases st) auto

lemma unrest_notify: "unrest (notify st) \<le> Suc (unrest st)"
  by (cases st) auto

lemma potential_le:
  assumes "finite (dom (callers q))"
  shows "potential q \<le> card (dom (callers q)) * (card (dom (callers q)) + 3)"
proof -
  have "(\<Sum>c\<in>dom (callers q). unrest (the (callers q c))) \<le> card (dom (callers q)) * 2"
    using sum_bounded_above[of "dom (callers q)" "\<lambda>c. unrest (the (callers q c))" 2] unrest_le by simp
  then show ?thesis by (simp add: potential_def Let_def algebra_simps)
qed

lemma potential_update:
  assumes "finite (dom (callers q))" and "callers q c = Some st" and "unrest st' < unrest st"
    and "callers r = (callers q)(c \<mapsto> st')"
  shows "potential r < potential q"
proof -
  have d: "dom (callers r) = dom (callers q)" "c \<in> dom (callers q)" using assms by auto
  have "(\<Sum>d\<in>dom (callers r). unrest (the (callers r d))) < (\<Sum>d\<in>dom (callers q). unrest (the (callers q d)))"
    unfolding d(1) by (rule sum_strict_mono_ex1) (use assms d(2) in auto)
  then show ?thesis using d(1) by (simp add: potential_def Let_def)
qed

lemma potential_release:
  assumes "finite (dom (callers q))" and "callers q c = Some Holding"
  shows "potential (drop_turn c q) < potential q"
proof -
  let ?D = "dom (callers q)" and ?r = "drop_turn c q"
  have d: "dom (callers ?r) = ?D - {c}" by (auto simp: drop_turn_def dom_def)
  have c: "c \<in> ?D" using assms(2) by auto
  obtain n where n: "card ?D = Suc n" "card (?D - {c}) = n"
    using assms(1) c by (metis card.remove)
  have "(\<Sum>d\<in>?D - {c}. unrest (the (callers ?r d))) \<le> (\<Sum>d\<in>?D - {c}. unrest (the (callers q d)) + 1)"
    by (rule sum_mono) (auto simp: drop_turn_def unrest_notify)
  also have "\<dots> = (\<Sum>d\<in>?D - {c}. unrest (the (callers q d))) + n"
    using n(2) sum.distrib[of "\<lambda>d. unrest (the (callers q d))" "\<lambda>_. 1" "?D - {c}"] by simp
  also have "(\<Sum>d\<in>?D - {c}. unrest (the (callers q d))) = (\<Sum>d\<in>?D. unrest (the (callers q d)))"
    using sum.remove[OF assms(1) c, of "\<lambda>d. unrest (the (callers q d))"] assms(2) by simp
  finally show ?thesis unfolding potential_def Let_def d n by (simp add: algebra_simps)
qed

lemma in_line_finite: "in_line q line \<Longrightarrow> finite (dom (callers q)) \<and> card (dom (callers q)) = length line"
  by (auto simp: in_line_def distinct_card)

lemma due_step_potential:
  assumes "due_step e q r" and "in_line q line"
  shows "potential r < potential q"
proof (cases e)
  case (Wake c)
  with assms obtain t l where c: "callers q c = Some (Waiting t l True)" "r = try_turn c t l q"
    by (auto simp: due_step_def split: option.splits caller.splits)
  show ?thesis
    by (rule potential_update[OF _ c(1), where st' = "the (callers r c)"])
       (use c in_line_finite[OF assms(2)] in \<open>auto simp: try_turn_def\<close>)
qed (use assms in_line_finite[OF assms(2)] in \<open>auto simp: due_step_def intro: potential_release\<close>)

lemma due_run_line:
  assumes "due_run fs q r" and "in_line q line" and "\<forall>d. callers q d \<noteq> Some Lost"
  shows "\<exists>rest. in_line r rest \<and> line = releases fs @ rest \<and> (\<forall>d. callers r d \<noteq> Some Lost) \<and>
           length fs + potential r \<le> potential q"
  using assms
proof (induction rule: due_run.induct)
  case (due_snoc es q r e s)
  then obtain rest where rest: "in_line r rest" "line = releases es @ rest"
    "\<forall>d. callers r d \<noteq> Some Lost" "length es + potential r \<le> potential q" by auto
  have step: "queue_step e r s" "due e r" using due_snoc.hyps(2) by (auto simp: due_step_def)
  have kept: "\<forall>d. callers s d \<noteq> Some Lost"
  proof (cases e)
    case (Release c)
    with Release step rest(3) show ?thesis by (auto simp: drop_turn_def)
  qed (use step rest(3) in \<open>auto simp: try_turn_def split: if_splits\<close>)
  moreover have "line = releases (es @ [e]) @ line_after e rest"
    using rest(2) step step_in_line(2)[OF step(1) rest(1)] by (cases e) (auto simp: releases_snoc)
  moreover have "in_line s (line_after e rest)" by (rule step_in_line(1)[OF step(1) rest(1)])
  moreover have "length (es @ [e]) + potential s \<le> potential q"
    using due_step_potential[OF due_snoc.hyps(2) rest(1)] rest(4) by simp
  ultimately show ?case by blast
qed auto

lemma head_can_move:
  assumes "in_line r (c # rest)" and "\<forall>d. callers r d \<noteq> Some Lost"
  shows "\<exists>e s. due_step e r s"
proof -
  have "0 < length (c # rest)" by simp
  from in_line_at[OF assms(1) this] obtain st where
    st: "callers r c = Some st" "placed (now_serving r) 0 st" by auto
  show ?thesis
  proof (cases st)
    case (Waiting t l s)
    with st have "due_step (Wake c) r (try_turn c t l r)" by (auto simp: due_step_def split: if_splits)
    then show ?thesis by blast
  next
    case Holding
    with st have "due_step (Release c) r (drop_turn c r)" by (simp add: due_step_def)
    then show ?thesis by blast
  qed (use st assms(2) in simp)
qed

text \<open>C21. No wake-up is lost and every turn comes: from every reachable state in which no callback
panicked, with n callers, a run of pending wake-ups and releases has at most n * (n + 3) steps, and
either another such step is possible or every caller has had the device and is gone.\<close>

theorem every_turn_comes:
  assumes "queue_run es new_queue q" and "\<forall>d. callers q d \<noteq> Some Lost" and "due_run fs q r"
  shows "length fs \<le> card (dom (callers q)) * (card (dom (callers q)) + 3) \<and>
         ((\<exists>e s. due_step e r s) \<or> (callers r = Map.empty \<and> set (releases fs) = dom (callers q)))"
proof -
  from run_in_line[OF assms(1) refl] obtain line where line: "in_line q line" by auto
  from due_run_line[OF assms(3) line assms(2)] obtain rest where
    rest: "in_line r rest" "line = releases fs @ rest" "\<forall>d. callers r d \<noteq> Some Lost"
      "length fs + potential r \<le> potential q" by auto
  have "(\<exists>e s. due_step e r s) \<or> (callers r = Map.empty \<and> set (releases fs) = dom (callers q))"
  proof (cases rest)
    case Nil
    with rest line show ?thesis by (auto simp: in_line_def)
  next
    case (Cons c more)
    with head_can_move rest(1,3) show ?thesis by blast
  qed
  moreover have "length fs \<le> card (dom (callers q)) * (card (dom (callers q)) + 3)"
    using rest(4) potential_le[of q] in_line_finite[OF line] by linarith
  ultimately show ?thesis by blast
qed

theorem every_turn_comes_witness:
  "\<exists>r. due_run [Release 0, Wake 1] two_callers r \<and> callers r 1 = Some Holding \<and>
     ((\<exists>e s. due_step e r s) \<or> (callers r = Map.empty \<and> set (releases [Release 0, Wake 1]) = {0, 1}))"
proof -
  let ?r = "try_turn 1 1 (Some 1) (drop_turn 0 two_callers)"
  have "due_run ([] @ [Release 0]) two_callers (drop_turn 0 two_callers)"
    by (rule due_snoc[OF due_nil]) (simp add: due_step_def two_callers_def)
  then have "due_run (([] @ [Release 0]) @ [Wake 1]) two_callers ?r"
    by (rule due_snoc) (auto simp: due_step_def two_callers_def drop_turn_def)
  then have run: "due_run [Release 0, Wake 1] two_callers ?r" by simp
  have safe: "\<forall>d. callers two_callers d \<noteq> Some Lost" by (simp add: two_callers_def)
  have "dom (callers two_callers) = {0, 1}" by (auto simp: two_callers_def)
  moreover have "callers ?r 1 = Some Holding"
    by (simp add: try_turn_def drop_turn_def two_callers_def)
  ultimately show ?thesis using every_turn_comes[OF two_callers_run safe run] run by auto
qed

subsection \<open>A ticket that is lost\<close>

text \<open>
  When the callback of a waiting caller panics, the queue works on until that ticket is served, and
  then for nobody any more.
\<close>

theorem lost_ticket_blocks:
  assumes "queue_run es q r" and "in_line q (c # rest)" and "callers q c = Some Lost"
  shows "(\<exists>line. in_line r (c # line)) \<and> callers r c = Some Lost \<and> releases es = [] \<and>
         (\<forall>d. callers r d \<noteq> Some Holding)"
  using assms
proof (induction rule: queue_run.induct)
  case (run_nil q)
  then show ?case using in_line_release[OF run_nil(1)] by fastforce
next
  case (run_snoc es q r e s)
  then obtain line where line: "in_line r (c # line)" "callers r c = Some Lost" "releases es = []"
    "\<forall>d. callers r d \<noteq> Some Holding" by auto
  have step: "queue_step e r s" by (rule run_snoc.hyps(2))
  then have e: "\<forall>d. e \<noteq> Release d" using line(4) by auto
  with step_in_line(1)[OF step line(1)] obtain line' where line': "in_line s (c # line')"
    by (cases e) auto
  have lost: "callers s c = Some Lost"
    using step line(2) by (cases rule: queue_step.cases)
      (auto simp: wait_on_def try_turn_def unwind_def draw_ticket_def line(4))
  have "callers s d \<noteq> Some Holding" for d
    using in_line_release[OF line', of d] lost by auto
  with line' lost e line(3) show ?case by (cases e) (auto simp: releases_snoc)
qed

end
