(* ===== verification/Gpu_Arbiter.thy ===== *)
theory Gpu_Arbiter
  imports Rust_Std Json_Query "HOL-Library.Sublist"
begin

text \<open>
  The arbiter of graphics memory (\<open>crates/tillandsias-headless/src/gpu_queue.rs\<close>, from \<open>parse_ps\<close>
  on, and \<open>explain_engine_failure\<close>). The inference engine, the meter, the clocks, the JSON and
  timestamp parsers, the wait for the device and the resident image engine are the fields of a world over an arbitrary state;
  a call may change the state in any way. Instants and durations are in nanoseconds.
\<close>

subsection \<open>The world of the arbiter\<close>

record 'w gpu_world =
  ask_ps :: "'w \<Rightarrow> string option \<times> 'w"
  ask_unload :: "string \<Rightarrow> 'w \<Rightarrow> (string + unit) \<times> 'w"
  free_bytes :: "'w \<Rightarrow> 64 word option \<times> 'w"
  instant_now :: "'w \<Rightarrow> int"
  utc_now :: "'w \<Rightarrow> int"
  sleep_tenth :: "'w \<Rightarrow> 'w"
  wait_for_gpu :: "'w \<Rightarrow> 'w"
  json_from_str :: "string \<Rightarrow> json option"
  parse_from_rfc3339 :: "string \<Rightarrow> int option"
  image_holder :: "'w \<Rightarrow> json option"
  image_release :: "string \<Rightarrow> 'w \<Rightarrow> 'w"

datatype evict_policy = Evict | WaitForExpiry nat

record resident =
  res_name :: string
  vram_bytes :: "64 word"
  expires_at :: "int option"

record evicted =
  ev_name :: string
  ev_vram_gb :: f64
  ev_how :: string

record arbiter =
  arb_policy :: evict_policy
  settle :: nat

subsection \<open>Reading the answer of the engine\<close>

fun json_get_key :: "string \<Rightarrow> json \<Rightarrow> json option" where
  "json_get_key k (JObject kvs) = map_of kvs k"
| "json_get_key k _ = None"

fun json_as_u64 :: "json \<Rightarrow> 64 word option" where
  "json_as_u64 (JNumber (PosInt w)) = Some w"
| "json_as_u64 _ = None"

fun json_as_str :: "json \<Rightarrow> string option" where
  "json_as_str (JString s) = Some s"
| "json_as_str _ = None"

fun json_as_array :: "json \<Rightarrow> json list option" where
  "json_as_array (JArray l) = Some l"
| "json_as_array _ = None"

definition bytes_at :: "json \<Rightarrow> string \<Rightarrow> 64 word" where
  "bytes_at m k = (case Option.bind (json_get_key k m) json_as_u64 of Some b \<Rightarrow> b | None \<Rightarrow> 0)"

definition model_name :: "json \<Rightarrow> string option" where
  "model_name m =
     Option.bind (case json_get_key ''name'' m of Some n \<Rightarrow> Some n | None \<Rightarrow> json_get_key ''model'' m) json_as_str"

definition read_resident :: "'w gpu_world \<Rightarrow> json \<Rightarrow> resident option" where
  "read_resident W m =
     Option.bind (model_name m) (\<lambda>name.
       if 0 < bytes_at m ''size_vram''
       then Some \<lparr>res_name = name, vram_bytes = bytes_at m ''size_vram'',
              expires_at = Option.bind (Option.bind (json_get_key ''expires_at'' m) json_as_str) (parse_from_rfc3339 W)\<rparr>
       else None)"

definition largest_first :: "resident list \<Rightarrow> resident list" where
  "largest_first rs = sort_key (\<lambda>r. - uint (vram_bytes r)) rs"

definition models_of :: "'w gpu_world \<Rightarrow> string \<Rightarrow> json list option" where
  "models_of W body =
     Option.bind (json_from_str W body) (\<lambda>v. Option.bind (json_get_key ''models'' v) json_as_array)"

definition parse_ps :: "'w gpu_world \<Rightarrow> string \<Rightarrow> resident list option" where
  "parse_ps W body = map_option (\<lambda>ms. largest_first (List.map_filter (read_resident W) ms)) (models_of W body)"

definition residents_now :: "'w gpu_world \<Rightarrow> 'w \<Rightarrow> resident list option \<times> 'w" where
  "residents_now W w = (case ask_ps W w of (body, w') \<Rightarrow> (Option.bind body (parse_ps W), w'))"

subsection \<open>Gigabytes\<close>

fun f64_scale :: "rat \<Rightarrow> f64 \<Rightarrow> f64" where
  "f64_scale k (Finite neg q) = round_f64 neg (q * k)"
| "f64_scale k (Infinite neg) = Infinite neg"

text \<open>\<open>f64::round\<close>, halves away from zero.\<close>

fun f64_round :: "f64 \<Rightarrow> f64" where
  "f64_round (Finite neg q) = Finite neg (of_int \<lfloor>q + 1 / 2\<rfloor>)"
| "f64_round (Infinite neg) = Infinite neg"

definition gb :: "64 word \<Rightarrow> f64" where
  "gb b = f64_scale (1 / 100) (f64_round (f64_scale 100 (f64_scale (1 / 1000000000) (f64_of_int (uint b)))))"

definition eviction :: "string \<Rightarrow> resident \<Rightarrow> evicted" where
  "eviction how r = \<lparr>ev_name = res_name r, ev_vram_gb = gb (vram_bytes r), ev_how = how\<rparr>"

definition evicted_to_json :: "evicted \<Rightarrow> json" where
  "evicted_to_json e =
     JObject [(''name'', JString (ev_name e)), (''kind'', JString ''llm''),
              (''vram_gb'', JNumber (Float (ev_vram_gb e))), (''how'', JString (ev_how e))]"

subsection \<open>Making room\<close>

text \<open>
  Each turn of the waiting loop asks the engine, then the clock, then sleeps for a tenth of a second;
  the fuel covers every turn before the deadline.
\<close>

definition tenth :: int where "tenth = 100000000"

fun gone_loop :: "'w gpu_world \<Rightarrow> string \<Rightarrow> int \<Rightarrow> nat \<Rightarrow> 'w \<Rightarrow> (bool \<times> 'w) option" where
  "gone_loop W model deadline 0 w = None"
| "gone_loop W model deadline (Suc fuel) w =
     (case residents_now W w of (answer, w') \<Rightarrow>
        let still = (case answer of None \<Rightarrow> True | Some rs \<Rightarrow> list_ex (\<lambda>r. res_name r = model) rs)
        in if \<not> still then Some (True, w')
           else if deadline \<le> instant_now W w' then Some (False, w')
           else gone_loop W model deadline fuel (sleep_tenth W w'))"

definition settle_limit :: "arbiter \<Rightarrow> bool \<Rightarrow> nat" where
  "settle_limit arb waiting =
     (case (waiting, arb_policy arb) of
        (True, WaitForExpiry m) \<Rightarrow> m + settle arb
      | _ \<Rightarrow> settle arb)"

definition gone_fuel :: "nat \<Rightarrow> nat" where
  "gone_fuel limit = limit div nat tenth + 2"

definition gone :: "'w gpu_world \<Rightarrow> arbiter \<Rightarrow> string \<Rightarrow> bool \<Rightarrow> 'w \<Rightarrow> (bool \<times> 'w) option" where
  "gone W arb model waiting w =
     gone_loop W model (instant_now W w + int (settle_limit arb waiting))
       (gone_fuel (settle_limit arb waiting)) w"

definition will_expire :: "'w gpu_world \<Rightarrow> arbiter \<Rightarrow> resident \<Rightarrow> 'w \<Rightarrow> bool" where
  "will_expire W arb r w =
     (case (arb_policy arb, expires_at r) of
        (WaitForExpiry m, Some at_time) \<Rightarrow>
          0 \<le> at_time - utc_now W w \<and> at_time - utc_now W w \<le> int m
      | _ \<Rightarrow> False)"

fun admit_loop ::
  "'w gpu_world \<Rightarrow> arbiter \<Rightarrow> 64 word \<Rightarrow> 64 word \<Rightarrow> resident list \<Rightarrow> 'w \<Rightarrow> (evicted list \<times> 'w) option" where
  "admit_loop W arb need free [] w = Some ([], w)"
| "admit_loop W arb need free (r # rs) w =
     (if need \<le> free then Some ([], w)
      else let waits = will_expire W arb r w in
        case (if waits then (Inr (), w) else ask_unload W (res_name r) w) of
          (Inl _, w1) \<Rightarrow> admit_loop W arb need free rs w1
        | (Inr _, w1) \<Rightarrow>
            (case gone W arb (res_name r) waits w1 of
               None \<Rightarrow> None
             | Some (left, w2) \<Rightarrow>
                 (case free_bytes W w2 of
                    (answer, w3) \<Rightarrow>
                      map_option
                        (\<lambda>(evs, w4).
                           ((if left then [eviction (if waits then ''waited'' else ''evicted'') r] else []) @ evs, w4))
                        (admit_loop W arb need
                           (case answer of Some f \<Rightarrow> f | None \<Rightarrow> saturating_add free (vram_bytes r)) rs w3))))"

definition admit :: "'w gpu_world \<Rightarrow> arbiter \<Rightarrow> 64 word \<Rightarrow> 'w \<Rightarrow> (evicted list \<times> 'w) option" where
  "admit W arb need w =
     (case free_bytes W w of
        (None, w1) \<Rightarrow> Some ([], w1)
      | (Some free, w1) \<Rightarrow>
          if need \<le> free then Some ([], w1)
          else (case residents_now W w1 of
                  (None, w2) \<Rightarrow> Some ([], w2)
                | (Some rs, w2) \<Rightarrow> admit_loop W arb need free rs w2))"

text \<open>
  The request to unload one model. It first waits for its turn (theory \<open>Gpu_Queue\<close>), during which other
  jobs may change the world, and holds the device from the unload on.
\<close>

definition unload_model :: "'w gpu_world \<Rightarrow> arbiter \<Rightarrow> string \<Rightarrow> 'w \<Rightarrow> ((string + json) \<times> 'w) option" where
  "unload_model W arb model w =
     (case residents_now W w of
        (None, w1) \<Rightarrow>
          Some (Inl ''inference_unreachable: the inference engine did not answer /api/ps'', w1)
      | (Some rs, w1) \<Rightarrow>
          (case find (\<lambda>r. res_name r = model) rs of
             None \<Rightarrow> Some (Inl (''not_resident: '' @ model @ '' holds no GPU memory now''), w1)
           | Some r \<Rightarrow>
               (case ask_unload W model (wait_for_gpu W w1) of
                  (Inl e, w2) \<Rightarrow> Some (Inl e, w2)
                | (Inr _, w2) \<Rightarrow>
                    map_option
                      (\<lambda>(left, w3).
                         (if left then Inr (JObject [(''evicted'', evicted_to_json (eviction ''evicted'' r))])
                          else Inl (''unload_unconfirmed: '' @ model @ '' is still listed by /api/ps''), w3))
                      (gone W arb model False w2))))"

subsection \<open>Giving way to the inference engine\<close>

definition shared_headroom :: "64 word" where "shared_headroom = 1073741824"

fun pad_left :: "nat \<Rightarrow> string \<Rightarrow> string" where
  "pad_left n s = replicate (n - length s) (CHR ''0'') @ s"

text \<open>\<open>{:.d}\<close> of a double, ties to even.\<close>

fun fmt_fixed :: "nat \<Rightarrow> f64 \<Rightarrow> string" where
  "fmt_fixed d (Infinite neg) = (if neg then ''-inf'' else ''inf'')"
| "fmt_fixed d (Finite neg q) =
     (let n = nat (round_half_even (q * 10 ^ d))
      in (if neg then ''-'' else '''') @ show_nat (n div 10 ^ d) @
         (if d = 0 then '''' else ''.'' @ pad_left d (show_nat (n mod 10 ^ d))))"

definition llm_crowded :: "'w gpu_world \<Rightarrow> string \<Rightarrow> 64 word option \<Rightarrow> string option" where
  "llm_crowded W body free =
     Option.bind (models_of W body) (\<lambda>ms.
       let on_gpu = filter (\<lambda>m. 0 < bytes_at m ''size_vram'') ms;
           name = (\<lambda>m. case model_name m of Some n \<Rightarrow> n | None \<Rightarrow> ''?'')
       in case find (\<lambda>m. bytes_at m ''size_vram'' < bytes_at m ''size'') on_gpu of
            Some m \<Rightarrow> Some (name m @ '' is only partly on the GPU'')
          | None \<Rightarrow>
              (case on_gpu of
                 [] \<Rightarrow> None
               | first # _ \<Rightarrow>
                   (case free of
                      Some f \<Rightarrow>
                        if f < shared_headroom
                        then Some (name first @ '' is resident and '' @ fmt_fixed 2 (gb f) @ '' GB VRAM is free'')
                        else None
                    | None \<Rightarrow> None)))"

definition yield_image_engine :: "'w gpu_world \<Rightarrow> string option \<Rightarrow> 'w \<Rightarrow> string option \<times> 'w" where
  "yield_image_engine W ps w =
     (case (image_holder W w, ps) of
        (Some _, Some body) \<Rightarrow>
          (case free_bytes W w of (free, w1) \<Rightarrow>
             (case llm_crowded W body free of
                Some why \<Rightarrow> (Some why, image_release W why w1)
              | None \<Rightarrow> (None, w1)))
      | _ \<Rightarrow> (None, w))"

definition status_json :: "string option \<Rightarrow> resident list option \<Rightarrow> json option \<Rightarrow> 64 word option \<Rightarrow> json" where
  "status_json released residents holder free =
     JObject
       [(''released_image_engine'', case released of Some why \<Rightarrow> JString why | None \<Rightarrow> JNull),
        (''holders'', JArray (map (\<lambda>r. JObject [(''name'', JString (res_name r)), (''kind'', JString ''llm''),
             (''vram_gb'', JNumber (Float (gb (vram_bytes r))))])
             (case residents of Some rs \<Rightarrow> rs | None \<Rightarrow> []) @
             (case holder of Some h \<Rightarrow> [h] | None \<Rightarrow> []))),
        (''inference_engine_answered'', JBool (residents \<noteq> None)),
        (''free_vram_gb'', case free of Some f \<Rightarrow> JNumber (Float (gb f)) | None \<Rightarrow> JNull)]"

definition gpu_status :: "'w gpu_world \<Rightarrow> 'w \<Rightarrow> json \<times> 'w" where
  "gpu_status W w =
     (case ask_ps W w of (ps, w1) \<Rightarrow>
        case yield_image_engine W ps w1 of (released, w2) \<Rightarrow>
          case free_bytes W w2 of (free, w3) \<Rightarrow>
            (status_json released (Option.bind ps (parse_ps W)) (image_holder W w2) free, w3))"

definition call_gpu_tool ::
  "'w gpu_world \<Rightarrow> arbiter \<Rightarrow> string \<Rightarrow> json \<Rightarrow> 'w \<Rightarrow> ((string + json) option \<times> 'w) option" where
  "call_gpu_tool W arb name args w =
     (if name = ''gpu.status''
      then (case gpu_status W w of (v, w') \<Rightarrow> Some (Some (Inr v), w'))
      else if name = ''gpu.unload_model''
      then (let bad = Some (Some (Inl
              ''bad_request: gpu.unload_model needs model (a holder name from gpu.status)''), w)
            in case Option.bind (json_get_key ''model'' args) json_as_str of
                 None \<Rightarrow> bad
               | Some m \<Rightarrow>
                   if trim m = [] then bad
                   else map_option (\<lambda>(res, w'). (Some res, w')) (unload_model W arb (trim m) w))
      else Some (None, w))"

subsection \<open>Explaining a failure\<close>

record gpu_out_of_memory =
  free_mb :: f64
  need_mb :: f64
  holders :: "string option"

text \<open>The number at the start of a text, after white space.\<close>

definition number_at :: "string \<Rightarrow> f64 option" where
  "number_at rest = parse_f64 (takeWhile (\<lambda>c. is_ascii_digit c \<or> c = CHR ''.'') (trim_start rest))"

text \<open>The first occurrence of a key that a number follows; the key used does not overlap itself.\<close>

fun first_number :: "string \<Rightarrow> string \<Rightarrow> f64 option" where
  "first_number key [] = None"
| "first_number key (c # s) =
     (case (if starts_with key (c # s) then number_at (drop (length key) (c # s)) else None) of
        Some f \<Rightarrow> Some f
      | None \<Rightarrow> first_number key s)"

definition from_engine_log :: "string \<Rightarrow> string option \<Rightarrow> gpu_out_of_memory option" where
  "from_engine_log engine_log who =
     Option.bind (split_once_text ''reported free'' engine_log) (\<lambda>(_, rest).
     Option.bind (number_at rest) (\<lambda>free.
     Option.bind (first_number ''need'' (''reported free'' @ rest)) (\<lambda>need.
       Some \<lparr>free_mb = free, need_mb = need, holders = who\<rparr>)))"

definition holder_lines :: "string \<Rightarrow> string" where
  "holder_lines h = concat (map (\<lambda>c. if c = CHR 10 then ''; '' else [c]) h)"

definition oom_text :: "gpu_out_of_memory \<Rightarrow> string" where
  "oom_text e =
     ''gpu_out_of_memory: the engine had '' @ fmt_fixed 0 (free_mb e) @ '' MB free and needed ''
     @ fmt_fixed 0 (need_mb e) @ '' MB; held by: ''
     @ (case holders e of
          None \<Rightarrow> ''not known (nvidia-smi could not say; an inference container such as ollama is the usual one)''
        | Some h \<Rightarrow> holder_lines h)
     @ ''. gpu.status lists the holders and gpu.unload_model frees one''"

definition explain_engine_failure :: "string \<Rightarrow> string option \<Rightarrow> string" where
  "explain_engine_failure err who =
     (case from_engine_log err who of
        Some oom \<Rightarrow> oom_text oom
      | None \<Rightarrow>
          if contains_text ''cannot make enough memory available'' err
             \<or> contains_text ''CUDA out of memory'' err \<or> contains_text ''OutOfMemoryError'' err
          then ''gpu_memory_busy: the GPU does not have enough free memory for this model; it is held by ''
            @ (case who of
                 None \<Rightarrow> ''another process (nvidia-smi could not say which; an inference container such as ollama is the usual one)''
               | Some h \<Rightarrow> ''these processes (pid, name, memory): '' @ holder_lines h)
            @ ''. Stop or unload it, or retry later. Engine said: ''
            @ (if lines err = [] then err else last (lines err))
          else if contains_text ''exited 139'' err \<or> contains_text ''signal 11'' err
          then err @ '' (the engine crashed; the usual cause is too little free GPU memory)''
          else err)"

end
