(* ===== verification/Gpu_Arbiter_Props.thy ===== *)
theory Gpu_Arbiter_Props
  imports Gpu_Arbiter
begin

text \<open>
  What the arbiter of graphics memory guarantees: it returns while the clock advances, it touches
  nothing but the models in the way, and over an engine that obeys it displaces as few models as any
  choice could.
\<close>

subsection \<open>The arbiter returns\<close>

text \<open>Documented behaviour of the clock: it does not go back, and a sleep takes its time.\<close>

definition time_passes :: "'w gpu_world \<Rightarrow> bool" where
  "time_passes W \<longleftrightarrow>
     (\<forall>w. instant_now W w \<le> instant_now W (snd (ask_ps W w))) \<and>
     (\<forall>w. instant_now W w + tenth \<le> instant_now W (sleep_tenth W w))"

lemma residents_now_clock:
  "time_passes W \<Longrightarrow> residents_now W w = (answer, w') \<Longrightarrow> instant_now W w \<le> instant_now W w'"
  by (auto simp: residents_now_def time_passes_def split: prod.splits dest: spec[of _ w])

lemma gone_loop_returns:
  assumes "time_passes W" and "deadline < instant_now W w + tenth * (int fuel - 1)" and "0 < fuel"
  shows "\<exists>r. gone_loop W model deadline fuel w = Some r"
  using assms(2,3)
proof (induction fuel arbitrary: w)
  case (Suc fuel)
  obtain answer w' where a: "residents_now W w = (answer, w')" by (cases "residents_now W w")
  have c: "instant_now W w \<le> instant_now W w'" by (rule residents_now_clock[OF assms(1) a])
  show ?case
  proof (cases "deadline \<le> instant_now W w'")
    case False
    have n: "instant_now W w' + tenth \<le> instant_now W (sleep_tenth W w')"
      using assms(1) by (simp add: time_passes_def)
    have "deadline < instant_now W (sleep_tenth W w') + tenth * (int fuel - 1)"
      using Suc.prems(1) c n by (simp add: algebra_simps)
    moreover have "0 < fuel"
      using Suc.prems(1) False c by (cases fuel) (auto simp: tenth_def)
    ultimately show ?thesis using Suc.IH a by (auto simp: Let_def)
  qed (auto simp: a Let_def)
qed simp

lemma gone_returns:
  assumes "time_passes W"
  shows "\<exists>r. gone W arb model waiting w = Some r"
  unfolding gone_def
proof (rule gone_loop_returns[OF assms])
  let ?l = "settle_limit arb waiting"
  have "?l < nat tenth * (?l div nat tenth + 1)"
    using div_mult_mod_eq[of ?l "nat tenth"] mod_less_divisor[of "nat tenth" ?l]
    by (simp add: tenth_def algebra_simps)
  then have "int ?l < int (nat tenth * (?l div nat tenth + 1))" by (rule of_nat_less_iff[THEN iffD2])
  then have "int ?l < tenth * int (?l div nat tenth + 1)" by (simp add: tenth_def)
  also have "\<dots> = tenth * (int (gone_fuel ?l) - 1)" by (simp add: tenth_def gone_fuel_def)
  finally show "instant_now W w + int ?l < instant_now W w + tenth * (int (gone_fuel ?l) - 1)" by simp
qed (simp add: gone_fuel_def)



lemma unload_model_returns: "time_passes W \<Longrightarrow> \<exists>r. unload_model W arb model w = Some r"
  using gone_returns by (fastforce simp: unload_model_def split: prod.splits option.splits sum.splits)

subsection \<open>Only the models in the way\<close>

text \<open>A world that also records which models it was asked to unload, in order.\<close>

definition logged :: "'w gpu_world \<Rightarrow> ('w \<times> string list) gpu_world" where
  "logged W =
     \<lparr>ask_ps = (\<lambda>(w, l). case ask_ps W w of (body, w') \<Rightarrow> (body, (w', l))),
      ask_unload = (\<lambda>m (w, l). case ask_unload W m w of (r, w') \<Rightarrow> (r, (w', l @ [m]))),
      free_bytes = (\<lambda>(w, l). case free_bytes W w of (f, w') \<Rightarrow> (f, (w', l))),
      instant_now = (\<lambda>(w, l). instant_now W w),
      utc_now = (\<lambda>(w, l). utc_now W w),
      sleep_tenth = (\<lambda>(w, l). (sleep_tenth W w, l)),
      wait_for_gpu = (\<lambda>(w, l). (wait_for_gpu W w, l)),
      json_from_str = json_from_str W,
      parse_from_rfc3339 = parse_from_rfc3339 W,
      image_holder = (\<lambda>(w, l). image_holder W w),
      image_release = (\<lambda>why (w, l). (image_release W why w, l))\<rparr>"

lemma logged_parsers [simp]:
  "json_from_str (logged W) = json_from_str W" "parse_from_rfc3339 (logged W) = parse_from_rfc3339 W"
  by (simp_all add: logged_def)

lemma logged_parse_ps [simp]: "parse_ps (logged W) = parse_ps W"
proof -
  have "read_resident (logged W) = read_resident W"
    by (rule ext) (simp add: read_resident_def cong: if_cong)
  then show ?thesis by (intro ext) (simp add: parse_ps_def models_of_def)
qed

lemma logged_residents_now [simp]:
  "residents_now (logged W) (w, l) = (case residents_now W w of (a, w') \<Rightarrow> (a, (w', l)))"
  by (simp add: residents_now_def split: prod.splits) (simp add: logged_def)

lemma logged_calls [simp]:
  "free_bytes (logged W) (w, l) = (case free_bytes W w of (f, w') \<Rightarrow> (f, (w', l)))"
  "ask_unload (logged W) m (w, l) = (case ask_unload W m w of (r, w') \<Rightarrow> (r, (w', l @ [m])))"
  "instant_now (logged W) (w, l) = instant_now W w"
  "sleep_tenth (logged W) (w, l) = (sleep_tenth W w, l)"
  by (simp_all add: logged_def)








text \<open>
  A world for the examples: each letter is a resident model, \<open>a\<close> holds 20 bytes and the others 10,
  of 50; unloading works at once.
\<close>

definition letter_json :: "char \<Rightarrow> json" where
  "letter_json c = JObject [(''name'', JString [c]),
     (''size_vram'', JNumber (PosInt (if c = CHR ''a'' then 20 else 10)))]"

definition letter_resident :: "char \<Rightarrow> resident" where
  "letter_resident c = \<lparr>res_name = [c], vram_bytes = if c = CHR ''a'' then 20 else 10, expires_at = None\<rparr>"

definition letter_residents :: "string \<times> int \<Rightarrow> resident list" where
  "letter_residents w = largest_first (map letter_resident (fst w))"

definition letter_world :: "(string \<times> int) gpu_world" where
  "letter_world =
     \<lparr>ask_ps = (\<lambda>w. (Some (fst w), w)),
      ask_unload = (\<lambda>m w. (Inr (), (filter (\<lambda>c. [c] \<noteq> m) (fst w), snd w))),
      free_bytes = (\<lambda>w. (Some (word_of_nat (50 - (\<Sum>r\<leftarrow>letter_residents w. unat (vram_bytes r)))), w)),
      instant_now = snd, utc_now = snd, sleep_tenth = (\<lambda>w. (fst w, snd w + tenth)),
      wait_for_gpu = id, json_from_str = (\<lambda>b. Some (JObject [(''models'', JArray (map letter_json b))])),
      parse_from_rfc3339 = (\<lambda>_. None), image_holder = (\<lambda>_. None), image_release = (\<lambda>_ w. w)\<rparr>"

lemma letter_calls:
  "ask_ps letter_world w = (Some (fst w), w)"
  "ask_unload letter_world m w = (Inr (), (filter (\<lambda>c. [c] \<noteq> m) (fst w), snd w))"
  "free_bytes letter_world w =
     (Some (word_of_nat (50 - (\<Sum>r\<leftarrow>letter_residents w. unat (vram_bytes r)))), w)"
  "instant_now letter_world w = snd w" "sleep_tenth letter_world w = (fst w, snd w + tenth)"
  "json_from_str letter_world b = Some (JObject [(''models'', JArray (map letter_json b))])"
  by (simp_all add: letter_world_def)


lemma letter_residents_now: "residents_now letter_world w = (Some (letter_residents w), w)"
proof -
  have "read_resident letter_world (letter_json c) = Some (letter_resident c)" for c
    by (simp add: read_resident_def letter_json_def letter_resident_def bytes_at_def model_name_def)
  then have "List.map_filter (read_resident letter_world) (map letter_json b) = map letter_resident b" for b
    by (induction b) (simp_all add: List.map_filter_simps)
  then show ?thesis
    by (simp add: residents_now_def parse_ps_def models_of_def letter_residents_def letter_calls)
qed


subsection \<open>As few models as possible\<close>

definition size_of :: "resident \<Rightarrow> nat" where "size_of r = unat (vram_bytes r)"

definition held :: "resident list \<Rightarrow> nat" where "held rs = (\<Sum>r\<leftarrow>rs. size_of r)"

text \<open>The reference: take models from the front until there is room.\<close>

fun displaced_for :: "nat \<Rightarrow> nat \<Rightarrow> resident list \<Rightarrow> resident list" where
  "displaced_for need free [] = []"
| "displaced_for need free (r # rs) =
     (if need \<le> free then [] else r # displaced_for need (free + size_of r) rs)"

lemma displaced_is_prefix: "displaced_for need free rs = take (length (displaced_for need free rs)) rs"
  by (induction need free rs rule: displaced_for.induct) auto

lemma displaced_is_enough:
  "need \<le> free + held (displaced_for need free rs) \<or> displaced_for need free rs = rs"
  by (induction need free rs rule: displaced_for.induct) (auto simp: held_def)

lemma displaced_not_before:
  "n < length (displaced_for need free rs) \<Longrightarrow> free + held (take n rs) < need"
proof (induction need free rs arbitrary: n rule: displaced_for.induct)
  case (2 need free r rs)
  then show ?case by (cases n) (auto simp: held_def add.assoc split: if_splits)
qed simp

text \<open>No set of n models holds more than the n largest ones.\<close>

lemma largest_hold_most:
  assumes "sorted (map (\<lambda>r. - int (size_of r)) rs)" and "S \<subseteq> set rs"
  shows "sum size_of S \<le> held (take (card S) rs)"
  using assms
proof (induction rs arbitrary: S)
  case (Cons r rs)
  have fin: "finite S" using Cons.prems(2) by (rule finite_subset) simp
  have le: "size_of x \<le> size_of r" if "x \<in> set rs" for x using Cons.prems(1) that by auto
  show ?case
  proof (cases "S = {}")
    case False
    then obtain n where n: "card S = Suc n" using fin by (metis card_0_eq not0_implies_Suc)
    obtain x where x: "x \<in> S" "r \<in> S \<Longrightarrow> x = r" using False by auto
    have xr: "size_of x \<le> size_of r" using x(1) Cons.prems(2) le by auto
    have "S - {x} \<subseteq> set rs" using Cons.prems(2) x by auto
    then have "sum size_of (S - {x}) \<le> held (take (card (S - {x})) rs)"
      using Cons.IH Cons.prems(1) by simp
    moreover have "card (S - {x}) = n" using n x(1) fin by simp
    moreover have "sum size_of S = size_of x + sum size_of (S - {x})"
      by (rule sum.remove[OF fin x(1)])
    ultimately show ?thesis using xr n by (simp add: held_def)
  qed simp
qed simp

lemma displaced_are_fewest:
  assumes "sorted (map (\<lambda>r. - int (size_of r)) rs)" and "S \<subseteq> set rs" and "need \<le> free + sum size_of S"
  shows "length (displaced_for need free rs) \<le> card S"
proof (rule ccontr)
  assume "\<not> ?thesis"
  then have "free + held (take (card S) rs) < need" by (intro displaced_not_before) simp
  with largest_hold_most[OF assms(1,2)] assms(3) show False by simp
qed

text \<open>
  An engine and a meter that behave as documented: the engine lists the models it holds, unloading a
  model takes effect at once, and the memory no model holds is free.
\<close>

definition obedient :: "'w gpu_world \<Rightarrow> ('w \<Rightarrow> resident list) \<Rightarrow> nat \<Rightarrow> bool" where
  "obedient W res cap \<longleftrightarrow>
     (\<forall>w. \<exists>w'. residents_now W w = (Some (res w), w') \<and> res w' = res w) \<and>
     (\<forall>m w. \<exists>w'. ask_unload W m w = (Inr (), w') \<and> res w' = filter (\<lambda>r. res_name r \<noteq> m) (res w)) \<and>
     (\<forall>w. \<exists>w'. free_bytes W w = (Some (word_of_nat (cap - held (res w))), w') \<and> res w' = res w)"

lemma obedient_lists:
  assumes "obedient W res cap"
  obtains w' where "residents_now W w = (Some (res w), w')" "res w' = res w"
  using assms unfolding obedient_def by metis

lemma obedient_unloads:
  assumes "obedient W res cap"
  obtains w' where "ask_unload W m w = (Inr (), w')" "res w' = filter (\<lambda>r. res_name r \<noteq> m) (res w)"
  using assms unfolding obedient_def by metis

lemma obedient_measures:
  assumes "obedient W res cap"
  obtains w' where "free_bytes W w = (Some (word_of_nat (cap - held (res w))), w')" "res w' = res w"
  using assms unfolding obedient_def by metis

lemma residents_sorted:
  assumes "residents_now W w = (Some rs, w')"
  shows "sorted (map (\<lambda>r. - int (size_of r)) rs)"
proof -
  from assms obtain xs where "rs = largest_first xs"
    by (auto simp: residents_now_def parse_ps_def bind_eq_Some_conv split: prod.splits)
  then have "sorted (map (\<lambda>r. - uint (vram_bytes r)) rs)" by (simp add: largest_first_def)
  then show ?thesis by (simp add: size_of_def uint_nat del: of_nat_unat)
qed

lemma gone_at_once:
  assumes "obedient W res cap" and "\<forall>r\<in>set (res w). res_name r \<noteq> m"
  shows "\<exists>w'. gone W arb m waiting w = Some (True, w') \<and> res w' = res w"
proof -
  obtain w' where "residents_now W w = (Some (res w), w')" "res w' = res w"
    by (rule obedient_lists[OF assms(1)])
  with assms(2) show ?thesis
    by (auto simp: gone_def gone_fuel_def list_ex_iff)
qed

lemma admit_loop_obedient:
  assumes "obedient W res cap" and "arb_policy arb = Evict" and "cap < 2 ^ 64"
    and "distinct (map res_name (res w))" and "held (res w) \<le> cap"
  shows "\<exists>w'. admit_loop W arb need (word_of_nat (cap - held (res w))) (res w) w =
            Some (map (eviction ''evicted'') (displaced_for (unat need) (cap - held (res w)) (res w)), w') \<and>
          res w' = drop (length (displaced_for (unat need) (cap - held (res w)) (res w))) (res w)"
  using assms(4,5)
proof (induction "res w" arbitrary: w)
  case (Cons r rs)
  let ?f = "cap - held (res w)"
  have w: "res w = r # rs" using Cons.hyps(2) by simp
  have free: "need \<le> word_of_nat ?f \<longleftrightarrow> unat need \<le> ?f"
    using assms(3) by (simp add: word_le_nat_alt unat_of_nat take_bit_nat_eq_self)
  show ?case
  proof (cases "unat need \<le> ?f")
    case False
    obtain w1 where u: "ask_unload W (res_name r) w = (Inr (), w1)"
      "res w1 = filter (\<lambda>x. res_name x \<noteq> res_name r) (res w)"
      by (rule obedient_unloads[OF assms(1)])
    have gone_r: "res_name x \<noteq> res_name r" if "x \<in> set rs" for x
      using Cons.prems(1) w imageI[OF that, of res_name] by auto
    have w1: "res w1 = rs" using u(2) w gone_r by (simp add: filter_id_conv)
    obtain w2 where g: "gone W arb (res_name r) False w1 = Some (True, w2)" "res w2 = rs"
      using gone_at_once[OF assms(1), of w1 "res_name r" arb False] w1 gone_r by auto
    obtain w3 where m: "free_bytes W w2 = (Some (word_of_nat (cap - held (res w2))), w3)" "res w3 = res w2"
      by (rule obedient_measures[OF assms(1)])
    have rest: "?f + size_of r = cap - held rs" using Cons.prems(2) w by (simp add: held_def)
    have r3: "rs = res w3" using m(2) g(2) by simp
    obtain w4 where
      "admit_loop W arb need (word_of_nat (cap - held rs)) rs w3 =
         Some (map (eviction ''evicted'') (displaced_for (unat need) (cap - held rs) rs), w4)"
      "res w4 = drop (length (displaced_for (unat need) (cap - held rs) rs)) rs"
      using Cons.hyps(1)[OF r3] Cons.prems w r3 by (auto simp: held_def)
    with False free u(1) g m(1) rest[unfolded w] show ?thesis
      unfolding w by (simp add: will_expire_def assms(2))
  qed (use free in \<open>simp add: w\<close>)
qed (metis admit_loop.simps(1) displaced_for.simps(1) drop_Nil list.map(1))

text \<open>C22. Over an engine that obeys and a meter that is right the arbiter displaces the largest models
first and stops as soon as there is room: afterwards the job fits or no model is left, and no other
choice of residents that makes room has fewer models.\<close>

theorem admit_displaces_fewest:
  assumes "obedient W res cap" and "arb_policy arb = Evict" and "cap < 2 ^ 64"
    and "distinct (map res_name (res w))" and "held (res w) \<le> cap"
  shows "\<exists>evicted_ones w'.
      admit W arb need w = Some (map (eviction ''evicted'') evicted_ones, w') \<and>
      res w = evicted_ones @ res w' \<and>
      (unat need \<le> cap - held (res w') \<or> res w' = []) \<and>
      (\<forall>S. S \<subseteq> set (res w) \<and> unat need \<le> cap - held (res w) + sum size_of S \<longrightarrow>
         length evicted_ones \<le> card S)"
proof -
  let ?f = "cap - held (res w)"
  let ?D = "displaced_for (unat need) ?f (res w)"
  obtain w1 where m: "free_bytes W w = (Some (word_of_nat ?f), w1)" "res w1 = res w"
    by (rule obedient_measures[OF assms(1)])
  obtain w2 where p: "residents_now W w1 = (Some (res w1), w2)" "res w2 = res w1"
    by (rule obedient_lists[OF assms(1)])
  have free: "need \<le> word_of_nat ?f \<longleftrightarrow> unat need \<le> ?f"
    using assms(3) by (simp add: word_le_nat_alt unat_of_nat take_bit_nat_eq_self)
  have "sorted (map (\<lambda>r. - int (size_of r)) (res w))" using residents_sorted[OF p(1)] m(2) by simp
  then have few: "\<forall>S. S \<subseteq> set (res w) \<and> unat need \<le> ?f + sum size_of S \<longrightarrow> length ?D \<le> card S"
    using displaced_are_fewest by blast
  have "\<exists>w'. admit W arb need w = Some (map (eviction ''evicted'') ?D, w') \<and> res w' = drop (length ?D) (res w)"
  proof (cases "unat need \<le> ?f")
    case True
    then have "?D = []" by (cases "res w") auto
    with True free m show ?thesis by (simp add: admit_def)
  next
    case False
    from admit_loop_obedient[OF assms(1-3), of w2 need] assms(4,5) m p obtain w' where
      "admit_loop W arb need (word_of_nat ?f) (res w) w2 = Some (map (eviction ''evicted'') ?D, w')"
      "res w' = drop (length ?D) (res w)" by auto
    with False free m p show ?thesis by (simp add: admit_def)
  qed
  then obtain w' where w': "admit W arb need w = Some (map (eviction ''evicted'') ?D, w')"
    "res w' = drop (length ?D) (res w)" by blast
  have split: "res w = ?D @ res w'"
    using displaced_is_prefix[of "unat need" ?f "res w"] w'(2) by (metis append_take_drop_id)
  then have sizes: "held (res w) = held ?D + held (res w')" by (metis held_def map_append sum_list_append)
  have "unat need \<le> cap - held (res w') \<or> res w' = []"
    using displaced_is_enough[of "unat need" ?f "res w"] split sizes assms(5) w'(2) by auto
  with few w'(1) split show ?thesis by blast
qed

lemma letter_obedient: "obedient letter_world letter_residents 50"
  unfolding obedient_def letter_residents_now
  by (auto simp: letter_calls letter_residents_def largest_first_def filter_sort filter_map o_def
      letter_resident_def held_def size_of_def)

theorem admit_displaces_fewest_witness:
  "\<exists>evicted_ones w'. admit letter_world \<lparr>arb_policy = Evict, settle = 10\<rparr> 35 (''bac'', 0) =
       Some (map (eviction ''evicted'') evicted_ones, w') \<and>
     letter_residents (''bac'', 0) = evicted_ones @ letter_residents w' \<and> length evicted_ones \<le> 2"
proof -
  have rs: "letter_residents (''bac'', 0) = map letter_resident ''abc''"
    by (simp add: letter_residents_def largest_first_def letter_resident_def)
  have h: "held (letter_residents (''bac'', 0)) = 40"
    by (simp add: rs held_def size_of_def letter_resident_def)
  let ?S = "set (map letter_resident ''ab'')"
  have card: "card ?S = 2" "sum size_of ?S = 30"
    by (simp_all add: letter_resident_def size_of_def)
  have S: "?S \<subseteq> set (letter_residents (''bac'', 0)) \<and>
      unat (35::64 word) \<le> 50 - held (letter_residents (''bac'', 0)) + sum size_of ?S"
    unfolding card h by (simp add: rs)
  have names: "distinct (map res_name (letter_residents (''bac'', 0)))"
    by (simp add: rs letter_resident_def)
  obtain D w' where
    "admit letter_world \<lparr>arb_policy = Evict, settle = 10\<rparr> 35 (''bac'', 0) =
       Some (map (eviction ''evicted'') D, w')"
    "letter_residents (''bac'', 0) = D @ letter_residents w'"
    "\<forall>S. S \<subseteq> set (letter_residents (''bac'', 0)) \<and>
       unat (35::64 word) \<le> 50 - held (letter_residents (''bac'', 0)) + sum size_of S \<longrightarrow> length D \<le> card S"
    using admit_displaces_fewest[OF letter_obedient _ _ names, of "\<lparr>arb_policy = Evict, settle = 10\<rparr>" 35]
    unfolding h by (elim meta_impE exE conjE) simp_all
  with S card(1) show ?thesis by (metis (no_types, lifting))
qed

end
