(* ===== verification/Spec2Isabelle.thy ===== *)
theory Spec2Isabelle
  imports Fold_Idem Load Edit Allocate Ranking Fleet_Score Otp Login_Flow Tray_Icon Version_Guard Crash_Loop
    Json_Get Json_Round_Trip Compaction_Props Redact
    Bash_Policy_Props Branch_Discipline_Props Gpu_Queue Gpu_Arbiter_Props
begin

text \<open>
  This library verifies the core logic of Tillandsias, a runtime for agent containers with a shared
  work plan. Paths below are under \<open>src/crates/\<close>.

  \<^bold>\<open>The plan ledger\<close> (\<open>tillandsias-plan\<close>). Work items (packets) live in a YAML base file; hosts add
  fragment files beside it. Reading folds the fragments into the base, compaction writes the merged
  document back and deletes what it consumed. The ledger indexes the packets, resolves references,
  answers dependency queries, checks integrity before a flush, mints order tokens and edits the text.
  \<^item> \<open>Yaml\<close>: the values the parser returns and the accessors the code calls on them. The parser itself
    is a parameter of every definition that reads text.
  \<^item> \<open>Ladder\<close>: statuses and the rank-aware status decision (\<open>lib.rs\<close>, \<open>status_entry_wins\<close>).
  \<^item> \<open>Fragments\<close>: the channels of a fragment, \<open>fold_with_sources\<close> with one definition per loop, the
    coverage gaps, \<open>compact\<close>, fragment names (\<open>fragments.rs\<close>). Sets the code keeps as ordered or
    hashed sets are sets, its ordered maps are sorted association lists (\<open>btmap\<close>).
  \<^item> \<open>Fold_Stream\<close>, \<open>Fold_Tree\<close>, \<open>Fold_Lookup\<close>: the library of the fold. The loops are split into
    three independent streams (declared packets, recorded events, register writes), each with an
    abstract description, and the walk over the document into an update of each packet.
  \<^item> \<open>Fold_Props\<close>, \<open>Fold_Status\<close>, \<open>Fold_Events\<close>, \<open>Fold_Idem\<close>: what the fold promises. Packets and
    events are grow-only sets, fields are last-writer-wins registers, the closure ladder never goes
    down without a falsification, folding is idempotent without status writes, and compaction deletes
    exactly what was merged. The limits are theorems too: the order dependence of lateral statuses,
    the unprotected status of a declaration, the null base.
  \<^item> \<open>Spans\<close>: the line spans of packets (\<open>packet_spans\<close>). \<open>Ledger\<close>, \<open>Ledger_Props\<close>: the \<open>Ledger\<close> and
    \<open>Archive\<close> structs as records, their indexes, \<open>resolve\<close> and every query. \<open>Integrity\<close>: the
    integrity report, schema and tier checks and the flush guard. \<open>Allocate\<close>: order tokens. \<open>Edit\<close>:
    the text edits.
  \<^item> \<open>Load\<close>: \<open>load_with_fragments\<close>, which composes the parser, the archive, the fold, the reindexing
    and the recovery of citations from fragment texts; its properties combine those of the parts.

  \<^item> \<open>Capability\<close>, \<open>Capability_Props\<close>: the capability matrix of the fleet. Each cell is the latest row
    of its machine and context, no row is lost in silence, grouping and scheduling are exact.
  \<^item> \<open>Render\<close>, \<open>Compaction\<close>, \<open>Compaction_Props\<close>: the text the ledger writes and \<open>compact_text\<close>, with
    one definition per step of the edit. Its registers are those of the fold, it deletes only what
    the text it writes carries, packets and events are only inserted, and a field edit replaces the
    lines of that field alone.

  \<^bold>\<open>The obligation lattice\<close> (\<open>tillandsias-plan/src/obligation.rs\<close>). \<open>Obligation\<close> has the states, the
  product orders with tombstones and the refinement operator; refinement is shown to terminate within
  its bound of 64 turns for at most ten ids (six climbs per id, and \<open>6 * 10 < 64\<close>), to return the
  least fixed point for monotone rules, and to give up on longer chains. \<open>Ranking\<close> has the score.

  \<^bold>\<open>JSON queries\<close> (\<open>tillandsias-plan/src/json_query.rs\<close>, the \<open>json\<close> and \<open>yaml\<close> commands of
  \<open>main.rs\<close>), a filter language in the manner of jq.
  \<^item> \<open>F64\<close>: the doubles the code computes with, as a sign and the rational a double holds, with
    rounding to nearest even, parsing, comparison and conversion.
  \<^item> \<open>Json_Query\<close>: the value, the order over values and the evaluator, which pushes results until an
    error. \<open>Json_Query_Props\<close>: the algebra of filters, variables, selection, the order.
  \<^item> \<open>Json_Parser\<close>: the lexer and the recursive descent parser, one definition per rule over an open
    recursion. \<open>Json_Parser_Props\<close>: totality, well-formed filters, errors inside the source.
    \<open>Json_Round_Trip\<close>: the parser inverts a printer of filters.
  \<^item> \<open>Json_Get\<close>: the command with its arguments, inputs, output and exit codes; reading a source and
    parsing JSON or YAML are arguments.

  \<^bold>\<open>The command policy\<close> (\<open>tillandsias-plan/src/command_policy.rs\<close>) decides over every program an
  agent runs: the built-in floor first, then the project's seed, which may only tighten it, then, at
  the execution door, the operator's consent.
  \<^item> \<open>Policy_Paths\<close>: paths as components, lexical resolution, resolution through the file system, the
    git directories of a checkout. \<open>Command_Policy\<close>: host kinds, requests, decisions ordered by
    strictness, the reading of argument vectors, one definition per rule of the floor.
  \<^item> \<open>Policy_Seed\<close>: the fixture regime, the seed with its parser and its check, the decision.
    \<open>Policy_Consent\<close>: the store of tokens, spending one, the decision at execution, and a step
    relation in which runs race for the same store.
  \<^item> \<open>Policy_Props\<close>: the decision is the first of the strictest answers, a floor denial stands, a seed
    that is used is nowhere looser than the floor, consent costs a token, a race spends none twice,
    what \<open>rm\<close> may remove without asking, and what the floor overlooks. \<open>Redact\<close>: the redaction of
    secrets and that it leaves none behind.
  \<^item> \<open>Bash_Lex\<close>, \<open>Bash_Policy\<close>: the bridge that judges shell text (\<open>bash_policy.rs\<close>), its lexer as a state
    and a step per character class, and the judgement of a command, which asks the floor about each
    stage. \<open>Bash_Lex_Props\<close>: the lexer inverts a printer of quoted commands and reads heredocs exactly.
    \<open>Bash_Policy_Props\<close>: quoting hides nothing from the floor, what the bridge lets run passes it, a
    recursive \<open>rm\<close> stays inside, and what the bridge overlooks.
  \<^item> \<open>Branch_Discipline\<close>, \<open>Branch_Discipline_Props\<close>: the branch discipline (\<open>branch_discipline.rs\<close>), whose
    branches the command policy protects. A loaded seed is well formed or nothing is refused,
    refusals need evidence in the history, forced pushes to protected branches need consent.

  \<^bold>\<open>The graphics device\<close> (\<open>tillandsias-headless/src/gpu_queue.rs\<close>) is shared by the image engines and
  the inference engine.
  \<^item> \<open>Gpu_Queue\<close>: the ticket queue. A step is what one caller does under the mutex; the relation
    interleaves arrivals, wake-ups, releases and callbacks that panic. It refines a first-in first-out
    line, no wake-up is lost and every turn comes; a ticket lost in a panic blocks the queue.
  \<^item> \<open>Gpu_Arbiter\<close>, \<open>Gpu_Arbiter_Props\<close>: what is done, under the turn of the queue, to make room for a
    job. The engine, the meter and the clocks are fields of a world over an arbitrary state. The
    arbiter returns, touches only residents, and displaces as few models as any choice could.

  \<^bold>\<open>Smaller components.\<close> \<open>Otp\<close> and \<open>Base64\<close>: the session table of the browser login
  (\<open>tillandsias-otp\<close>); the clock is an argument of the operations, in nanoseconds, and a run is a list
  of operations. \<open>Fleet_Score\<close>: the host ranking (\<open>tillandsias-fleet-core\<close>). \<open>Login_Flow\<close>: the
  provider login machine (\<open>tillandsias-control-wire/src/auth_flow.rs\<close>), as functions and as a step
  relation with the same moves. \<open>Crash_Loop\<close>: the guest crash-loop detector, its state file and the
  automatic reset policy (\<open>tillandsias-control-wire/src/lib.rs\<close>); the detector, which prunes its
  queue, is shown to refine a window over the full history of failures. \<open>Tray_Icon\<close> and \<open>Version_Guard\<close>: the tray phase and the image
  downgrade guard (\<open>tillandsias-core\<close>).

  \<open>Base\<close> holds what they share: strings as lists of bytes with the standard library's operations on
  them, ordered maps, orderings, and the interfaces as locales: \<open>kv_store\<close> (lookup after insert,
  interpreted by the ordered map and by the YAML mapping), \<open>lww_register\<close> (a register whose content
  is the greatest write, interpreted by the field registers, by the ladder and by the strictness of decisions), \<open>bounded_ascent\<close> (a
  step that climbs below a bound, interpreted by refinement), \<open>machine\<close> and \<open>rooted_machine\<close> (a step
  with an invariant, interpreted by the session table, the login flow and the loops of the fold),
  \<open>simulation\<close> (a machine in step with an abstract one, interpreted by the crash-loop detector).
  The query parser has interfaces of its own, interpreted by the parser tied with fuel:
  \<open>sound_parser\<close> (what a recursive call promises of its answer), \<open>fuelled_parser\<close> (depth is enough
  fuel) and \<open>more_fuel\<close> (an answer stays with more fuel).
  Redaction has \<open>shape\<close>, what a pattern has to promise so that replacing it leaves none, interpreted by
  its three patterns. \<open>Rust_Std\<close> adds substring search, word splitting and saturating machine arithmetic.

  Bounds and fuel. Machine integers are words where they can wrap (base64, blush levels, scores, times and counters of the crash loop) and
  naturals with the code's check where a parser bounds them (\<open>parse_u64\<close>). The minting loop has the
  code's 64 attempts as fuel and its failure is characterised; the refinement loop has the code's
  bound; the dependency closure is a total function with a termination proof. The query parser has 16 units of
  fuel per token and 16 more, proved to be enough on every text. The wait for a model to leave has one
  turn per tenth of a second and two more, proved to be enough while the clock advances.

  Not modelled. Files, directories, clocks, random sources and the YAML library (its parser and its serialiser) are arguments. Logging
  and profiling output is left out. Messages of reports are constructors with their data. The command line, the embedded scripts,
  the message store, the wire protocol, the container runtime outside the graphics device, the virtual machine layer and the
  native trays are not modelled; the first candidates for extension are the message store
  and the container specifications.
\<close>

end
